(* ===== verification/Prelude.thy ===== *)
theory Prelude
  imports Main "HOL-Library.AList"
begin

text \<open>
  What every component shares: the result of a Go call (a value, a returned error, or a
  crash of the goroutine), programs over a state with that result, loops, the calculus
  that lifts a relation between states over programs, and lemmas on association lists
  (the model of Go maps whose iteration order matters).
\<close>

named_theorems eval "equations that evaluate the model on concrete states"

section \<open>Results\<close>

text \<open>
  The errors the engine returns, one constructor per place of the source that makes one.
  \<open>Backend\<close> is what an implementation of the interfaces EventLog and Store reports (a
  lost connection, a failed commit). A crash is not an error value of the source: it is a
  nil dereference, an index out of range or a failed mustJSON (a panic), a send that blocks for ever, or the
  exhaustion of the recursion bound of the model.
\<close>

datatype error =
    ErrNotFound
  | Backend
  | LoadWorkflow error
  | SaveTicketFailed error
  | RegisterFailed string string error
  | NameVersionRequired
  | InitialNotFound string string
  | StepNotFound string
  | DelayMissing string
  | ChainMissing string
  | InvalidChainIndex int
  | ByRequired
  | NotAuthorizedUser string string
  | NotAuthorizedRole string string
  | NotPendingApproval string
  | NotAwaiting string string

datatype crash = NilDeref | IndexOutOfRange | JsonPanic | Blocked | OutOfFuel

datatype 'a res = Ok 'a | Err error | Crash crash

type_synonym ('s, 'a) prog = "'s \<Rightarrow> 'a res \<times> 's"

text \<open>
  A call through the interfaces EventLog and Store succeeds (\<open>Up\<close>), fails (\<open>Down\<close>), or takes
  effect although its answer is lost (\<open>Lost\<close>, a commit whose acknowledgement does not
  arrive). The in-memory implementations are always \<open>Up\<close>.
\<close>

datatype outcome = Up | Down | Lost

section \<open>Programs\<close>

definition ret :: "'a \<Rightarrow> ('s, 'a) prog" where
  "ret x = (\<lambda>s. (Ok x, s))"

definition fail :: "error \<Rightarrow> ('s, 'a) prog" where
  "fail e = (\<lambda>s. (Err e, s))"

definition crash :: "crash \<Rightarrow> ('s, 'a) prog" where
  "crash c = (\<lambda>s. (Crash c, s))"

text \<open>
  \<open>bnd m f\<close> is \<^verbatim>\<open>x, err := m(); if err != nil { return err }; f(x)\<close>;
  \<open>attempt m\<close> hands the error to the caller as a value;
  \<open>ignore m\<close> is \<^verbatim>\<open>_ = m()\<close>. A crash ends the goroutine and passes through all of them.
\<close>

definition bnd :: "('s, 'a) prog \<Rightarrow> ('a \<Rightarrow> ('s, 'b) prog) \<Rightarrow> ('s, 'b) prog" where
  "bnd m f = (\<lambda>s. case m s of
      (Ok x, s') \<Rightarrow> f x s'
    | (Err e, s') \<Rightarrow> (Err e, s')
    | (Crash c, s') \<Rightarrow> (Crash c, s'))"

definition attempt :: "('s, 'a) prog \<Rightarrow> ('s, error + 'a) prog" where
  "attempt m = (\<lambda>s. case m s of
      (Ok x, s') \<Rightarrow> (Ok (Inr x), s')
    | (Err e, s') \<Rightarrow> (Ok (Inl e), s')
    | (Crash c, s') \<Rightarrow> (Crash c, s'))"

definition ignore :: "('s, 'a) prog \<Rightarrow> ('s, unit) prog" where
  "ignore m = bnd (attempt m) (\<lambda>_. ret ())"

fun for_each :: "'b list \<Rightarrow> ('b \<Rightarrow> ('s, unit) prog) \<Rightarrow> ('s, unit) prog" where
  "for_each [] f = ret ()"
| "for_each (x # xs) f = bnd (f x) (\<lambda>_. for_each xs f)"

definition get :: "('s \<Rightarrow> 'a) \<Rightarrow> ('s, 'a) prog" where
  "get f = (\<lambda>s. (Ok (f s), s))"

definition put :: "('s \<Rightarrow> 's) \<Rightarrow> ('s, unit) prog" where
  "put f = (\<lambda>s. (Ok (), f s))"

lemmas prog_defs = ret_def fail_def crash_def bnd_def attempt_def ignore_def get_def put_def

lemma ret_run [simp]: "ret x s = (Ok x, s)"
  by (simp add: ret_def)

lemma fail_run [simp]: "fail e s = (Err e, s)"
  by (simp add: fail_def)

lemma crash_run [simp]: "crash c s = (Crash c, s)"
  by (simp add: crash_def)

lemma get_run [simp]: "get f s = (Ok (f s), s)"
  by (simp add: get_def)

lemma put_run [simp]: "put f s = (Ok (), f s)"
  by (simp add: put_def)

lemma bnd_Ok: "m s = (Ok x, s') \<Longrightarrow> bnd m f s = f x s'"
  by (simp add: bnd_def)

lemma bnd_Err: "m s = (Err e, s') \<Longrightarrow> bnd m f s = (Err e, s')"
  by (simp add: bnd_def)

lemma bnd_Crash: "m s = (Crash c, s') \<Longrightarrow> bnd m f s = (Crash c, s')"
  by (simp add: bnd_def)

lemma attempt_Ok: "m s = (Ok x, s') \<Longrightarrow> attempt m s = (Ok (Inr x), s')"
  by (simp add: attempt_def)

lemma attempt_Err: "m s = (Err e, s') \<Longrightarrow> attempt m s = (Ok (Inl e), s')"
  by (simp add: attempt_def)

lemma ret_bnd [simp]: "bnd (ret x) f = f x"
  by (simp add: bnd_def ret_def)

lemma fail_bnd [simp]: "bnd (fail e) f = fail e"
  by (simp add: bnd_def fail_def fun_eq_iff)

lemma get_bnd [simp]: "bnd (get g) f s = f (g s) s"
  by (simp add: bnd_def)

lemma put_bnd [simp]: "bnd (put g) f s = f () (g s)"
  by (simp add: bnd_def)

lemma bnd_OkE:
  assumes "bnd m f s = (Ok y, t)"
  obtains x s' where "m s = (Ok x, s')" "f x s' = (Ok y, t)"
  using assms by (auto simp: bnd_def split: prod.splits res.splits)

lemma snd_ignore [simp]: "snd (ignore m s) = snd (m s)"
  by (auto simp: ignore_def bnd_def attempt_def split: prod.split res.split)

text \<open>Continuing only on success leaves the state the program itself would leave.\<close>

lemma snd_attempt_bnd:
  "snd (bnd (attempt m) (\<lambda>x. case x of Inl e \<Rightarrow> ret () | Inr y \<Rightarrow> f y) s) = snd (bnd m f s)"
  by (auto simp: bnd_def attempt_def ret_def split: prod.split res.split)

lemma attempt_InrD: "attempt m s = (Ok (Inr x), t) \<Longrightarrow> m s = (Ok x, t)"
  by (auto simp: attempt_def split: prod.splits res.splits)

text \<open>The three ways a sequence can go.\<close>

lemma bnd_cases:
  obtains (ok) x s' where "m s = (Ok x, s')" "bnd m f s = f x s'"
  | (err) e s' where "m s = (Err e, s')" "bnd m f s = (Err e, s')"
  | (crash) c s' where "m s = (Crash c, s')" "bnd m f s = (Crash c, s')"
  by (cases "m s", rename_tac r s', case_tac r) (auto simp: bnd_def)

text \<open>
  Kernel evaluation of a program on a concrete state: the continuation is left alone until the
  first part has returned.
\<close>

lemma bnd_run: "bnd m f s = (case m s of (r, s') \<Rightarrow>
    case r of Ok x \<Rightarrow> f x s' | Err e \<Rightarrow> (Err e, s') | Crash c \<Rightarrow> (Crash c, s'))"
  by (simp add: bnd_def split: prod.splits res.splits)

lemma attempt_run: "attempt m s = (case m s of (r, s') \<Rightarrow>
    case r of Ok x \<Rightarrow> (Ok (Inr x), s') | Err e \<Rightarrow> (Ok (Inl e), s') | Crash c \<Rightarrow> (Crash c, s'))"
  by (simp add: attempt_def split: prod.splits res.splits)

lemma bnd_weak_cong: "m = m' \<Longrightarrow> bnd m f = bnd m' f"
  by simp

lemma for_each_weak_cong: "xs = ys \<Longrightarrow> for_each xs f = for_each ys f"
  by simp

lemmas eval_congs = bnd_weak_cong for_each_weak_cong let_weak_cong

section \<open>Lifting a relation between states\<close>

text \<open>
  \<open>keeps R m\<close>: whatever \<open>m\<close> returns, the state after it is related to the state before.
  It is the contract of every operation that only extends the log: it holds on the error
  paths too, where the source returns early and leaves what it has written.
\<close>

definition keeps :: "('s \<Rightarrow> 's \<Rightarrow> bool) \<Rightarrow> ('s, 'a) prog \<Rightarrow> bool" where
  "keeps R m \<longleftrightarrow> (\<forall>s. R s (snd (m s)))"

lemma keepsI: "(\<And>s. R s (snd (m s))) \<Longrightarrow> keeps R m"
  by (simp add: keeps_def)

lemma keepsD: "keeps R m \<Longrightarrow> m s = (r, t) \<Longrightarrow> R s t"
  by (metis keeps_def snd_conv)

locale frame =
  fixes R :: "'s \<Rightarrow> 's \<Rightarrow> bool"
  assumes refl: "R s s"
    and trans: "R s t \<Longrightarrow> R t u \<Longrightarrow> R s u"
begin

lemma keeps_ret: "keeps R (ret x)"
  by (simp add: keeps_def ret_def refl)

lemma keeps_fail: "keeps R (fail e)"
  by (simp add: keeps_def fail_def refl)

lemma keeps_crash: "keeps R (crash c)"
  by (simp add: keeps_def crash_def refl)

lemma keeps_get: "keeps R (get f)"
  by (simp add: keeps_def get_def refl)

lemma keeps_bnd:
  assumes "keeps R m" and "\<And>x. keeps R (f x)"
  shows "keeps R (bnd m f)"
proof (rule keepsI)
  fix s
  obtain r s' where m: "m s = (r, s')" by fastforce
  with assms(1) have "R s s'" by (rule keepsD)
  moreover have "R s' (snd (f x s'))" for x
    using assms(2) by (simp add: keeps_def)
  ultimately show "R s (snd (bnd m f s))"
    by (cases r) (auto simp: bnd_def m intro: trans)
qed

lemma keeps_attempt: "keeps R m \<Longrightarrow> keeps R (attempt m)"
  by (auto simp: keeps_def attempt_def split: prod.splits res.splits) (metis snd_conv)+

lemma keeps_ignore: "keeps R m \<Longrightarrow> keeps R (ignore m)"
  by (simp add: ignore_def keeps_bnd keeps_attempt keeps_ret)

lemma keeps_for_each: "(\<And>x. x \<in> set xs \<Longrightarrow> keeps R (f x)) \<Longrightarrow> keeps R (for_each xs f)"
  by (induction xs) (simp_all add: keeps_ret keeps_bnd)

lemma keeps_if: "(b \<Longrightarrow> keeps R m) \<Longrightarrow> (\<not> b \<Longrightarrow> keeps R n) \<Longrightarrow> keeps R (if b then m else n)"
  by simp

lemma keeps_option:
  "(x = None \<Longrightarrow> keeps R m) \<Longrightarrow> (\<And>y. x = Some y \<Longrightarrow> keeps R (f y)) \<Longrightarrow>
    keeps R (case x of None \<Rightarrow> m | Some y \<Rightarrow> f y)"
  by (simp split: option.splits)

lemma keeps_sum:
  "(\<And>e. x = Inl e \<Longrightarrow> keeps R (g e)) \<Longrightarrow> (\<And>y. x = Inr y \<Longrightarrow> keeps R (f y)) \<Longrightarrow>
    keeps R (case x of Inl e \<Rightarrow> g e | Inr y \<Rightarrow> f y)"
  by (simp split: sum.splits)

text \<open>
  The same at one state, for a continuation that is only called on results with a property.
\<close>

lemma bnd_at:
  assumes "R s (snd (m s))" and "\<And>x t. m s = (Ok x, t) \<Longrightarrow> R t (snd (f x t))"
  shows "R s (snd (bnd m f s))"
proof -
  obtain r t where m: "m s = (r, t)" by fastforce
  with assms show ?thesis by (cases r) (auto simp: bnd_def intro: trans)
qed

lemma attempt_at: "R s (snd (m s)) \<Longrightarrow> R s (snd (attempt m s))"
  by (auto simp: attempt_def split: prod.splits res.splits)

lemma ignore_at: "R s (snd (m s)) \<Longrightarrow> R s (snd (ignore m s))"
  unfolding ignore_def by (intro bnd_at attempt_at) (simp_all add: refl)

lemma keeps_bnd_post:
  assumes "keeps R m" and "\<And>s x t. m s = (Ok x, t) \<Longrightarrow> Q x" and "\<And>x. Q x \<Longrightarrow> keeps R (f x)"
  shows "keeps R (bnd m f)"
  using assms by (intro keepsI bnd_at) (auto simp: keeps_def)

lemma for_each_at:
  assumes "J s" and "\<And>s t. J s \<Longrightarrow> R s t \<Longrightarrow> J t"
    and "\<And>x s. x \<in> set xs \<Longrightarrow> J s \<Longrightarrow> R s (snd (f x s))"
  shows "R s (snd (for_each xs f s))"
  using assms
proof (induction xs arbitrary: s)
  case Nil
  show ?case by (simp add: refl)
next
  case (Cons x xs)
  have step: "R s (snd (f x s))" using Cons.prems by simp
  show ?case unfolding for_each.simps
  proof (rule bnd_at)
    show "R s (snd (f x s))" by (rule step)
    fix y t
    assume "f x s = (Ok y, t)"
    with step have "R s t" by simp
    with Cons.prems have "J t" by blast
    with Cons show "R t (snd (for_each xs f t))" by simp
  qed
qed

lemmas keeps_rules = keeps_ret keeps_fail keeps_crash keeps_get keeps_bnd keeps_attempt
  keeps_ignore keeps_for_each keeps_if keeps_option keeps_sum

end

text \<open>A program that keeps a relation keeps every weaker one.\<close>

lemma keeps_mono: "keeps R m \<Longrightarrow> (\<And>s t. R s t \<Longrightarrow> R' s t) \<Longrightarrow> keeps R' m"
  by (simp add: keeps_def)

section \<open>Programs that return\<close>

text \<open>
  \<open>returns I m J\<close>: from a state in \<open>I\<close> the program does not exhaust the recursion bound, a result
  \<open>x\<close> comes with a state in \<open>J x\<close>, and an error or another crash with a state in \<open>I\<close>.
\<close>

definition returns :: "('s \<Rightarrow> bool) \<Rightarrow> ('s, 'a) prog \<Rightarrow> ('a \<Rightarrow> 's \<Rightarrow> bool) \<Rightarrow> bool" where
  "returns I m J \<longleftrightarrow> (\<forall>s. I s \<longrightarrow>
     (\<forall>x t. m s = (Ok x, t) \<longrightarrow> J x t) \<and> (\<forall>e t. m s = (Err e, t) \<longrightarrow> I t) \<and>
     (\<forall>c t. m s = (Crash c, t) \<longrightarrow> I t \<and> c \<noteq> OutOfFuel))"

lemma returnsI:
  assumes "\<And>s x t. I s \<Longrightarrow> m s = (Ok x, t) \<Longrightarrow> J x t"
    and "\<And>s e t. I s \<Longrightarrow> m s = (Err e, t) \<Longrightarrow> I t"
    and "\<And>s c t. I s \<Longrightarrow> m s = (Crash c, t) \<Longrightarrow> I t \<and> c \<noteq> OutOfFuel"
  shows "returns I m J"
  unfolding returns_def using assms by blast

lemma returnsD:
  assumes "returns I m J" "I s"
  shows "m s = (Ok x, t) \<Longrightarrow> J x t" and "m s = (Err e, t) \<Longrightarrow> I t"
    and "m s = (Crash c, t) \<Longrightarrow> I t \<and> c \<noteq> OutOfFuel"
  using assms unfolding returns_def by blast+

lemma returns_mono: "returns I m J \<Longrightarrow> (\<And>x t. J x t \<Longrightarrow> K x t) \<Longrightarrow> returns I m K"
  by (rule returnsI) (auto dest: returnsD)

lemma returns_ret: "(\<And>s. I s \<Longrightarrow> J x s) \<Longrightarrow> returns I (ret x) J"
  by (simp add: returns_def)

lemma returns_fail: "returns I (fail e) J"
  by (simp add: returns_def)

lemma returns_crash: "c \<noteq> OutOfFuel \<Longrightarrow> returns I (crash c) J"
  by (simp add: returns_def)

lemma returns_bnd:
  assumes m: "returns I m J" and f: "\<And>x. returns (J x) (f x) K" and J: "\<And>x t. J x t \<Longrightarrow> I t"
  shows "returns I (bnd m f) K"
proof (rule returnsI)
  fix s y u
  assume "I s" "bnd m f s = (Ok y, u)"
  from this(2) obtain x t where "m s = (Ok x, t)" "f x t = (Ok y, u)" by (rule bnd_OkE)
  with returnsD(1) [OF m \<open>I s\<close>] show "K y u" by (blast intro: returnsD(1) [OF f])
next
  fix s e u
  assume s: "I s" and run: "bnd m f s = (Err e, u)"
  show "I u"
  proof (rule bnd_cases [of m s f])
    fix x t
    assume "m s = (Ok x, t)" "bnd m f s = f x t"
    with run returnsD(1) [OF m s] have "J x u" by (metis returnsD(2) [OF f])
    then show ?thesis by (rule J)
  qed (use run returnsD [OF m s] in auto)
next
  fix s c u
  assume s: "I s" and run: "bnd m f s = (Crash c, u)"
  show "I u \<and> c \<noteq> OutOfFuel"
  proof (rule bnd_cases [of m s f])
    fix x t
    assume "m s = (Ok x, t)" "bnd m f s = f x t"
    with run returnsD(1) [OF m s] have "J x u \<and> c \<noteq> OutOfFuel" by (metis returnsD(3) [OF f])
    then show ?thesis using J by blast
  qed (use run returnsD [OF m s] in auto)
qed

lemma returns_attempt:
  assumes m: "returns I m J"
  shows "returns I (attempt m) (\<lambda>r t. case r of Inl e \<Rightarrow> I t | Inr x \<Rightarrow> J x t)"
proof (rule returnsI)
  fix s r t
  assume s: "I s" and run: "attempt m s = (Ok r, t)"
  show "case r of Inl e \<Rightarrow> I t | Inr x \<Rightarrow> J x t"
  proof (cases r)
    case (Inl e)
    with run have "m s = (Err e, t)" by (auto simp: attempt_def split: prod.splits res.splits)
    with Inl returnsD(2) [OF m s] show ?thesis by simp
  next
    case (Inr x)
    with run have "m s = (Ok x, t)" by (auto simp: attempt_def split: prod.splits res.splits)
    with Inr returnsD(1) [OF m s] show ?thesis by simp
  qed
next
  fix s e t
  assume "attempt m s = (Err e, t)"
  then show "I t" by (auto simp: attempt_def split: prod.splits res.splits)
next
  fix s c t
  assume s: "I s" and run: "attempt m s = (Crash c, t)"
  then have "m s = (Crash c, t)" by (auto simp: attempt_def split: prod.splits res.splits)
  then show "I t \<and> c \<noteq> OutOfFuel" by (rule returnsD(3) [OF m s])
qed

lemma returns_ignore:
  assumes "returns I m J" and J: "\<And>x t. J x t \<Longrightarrow> I t"
  shows "returns I (ignore m) (\<lambda>_. I)"
  unfolding ignore_def
proof (rule returns_bnd [OF returns_attempt [OF assms(1)]])
  show I: "I t" if "case r of Inl e \<Rightarrow> I t | Inr y \<Rightarrow> J y t" for r t
    using that J by (cases r) simp_all
  show "returns (\<lambda>t. case r of Inl e \<Rightarrow> I t | Inr y \<Rightarrow> J y t) (ret ()) (\<lambda>_. I)" for r
    by (rule returns_ret) (rule I)
qed

lemma returns_for_each:
  "(\<And>x. x \<in> set xs \<Longrightarrow> returns I (f x) (\<lambda>_. I)) \<Longrightarrow> returns I (for_each xs f) (\<lambda>_. I)"
proof (induction xs)
  case Nil
  show ?case unfolding for_each.simps by (rule returns_ret)
next
  case (Cons x xs)
  have "returns I (f x) (\<lambda>_. I)" "returns I (for_each xs f) (\<lambda>_. I)" using Cons by simp_all
  then show ?case unfolding for_each.simps by (rule returns_bnd)
qed

section \<open>Association lists\<close>

lemma map_of_update [simp]: "map_of (AList.update k v m) = (map_of m)(k \<mapsto> v)"
  by (simp add: update_conv')

lemma distinct_keys_update [simp]:
  "distinct (map fst (AList.update k v m)) = distinct (map fst m)"
  by (induction m) (auto simp: dom_update [unfolded dom_map_of_conv_image_fst])

lemma keys_update [simp]: "fst ` set (AList.update k v m) = insert k (fst ` set m)"
  by (induction m) auto

end
