(* ===== verification/Go_Lib.thy ===== *)
theory Go_Lib
  imports Complex_Main Prelude "HOL-Library.List_Lexorder" "HOL-Library.Char_ord"
begin

text \<open>
  The functions of Go's standard library the source calls: decimal formatting and parsing
  of integers (\<^verbatim>\<open>strconv\<close>), quoting, splitting and case folding of strings
  (\<^verbatim>\<open>strings\<close>). A Go string is its bytes, here a list of characters. Case folding is
  exact on ASCII; bytes from 128 on are compared as they are.
\<close>

section \<open>Integers in decimal\<close>

definition digit :: "nat \<Rightarrow> char" where
  "digit n = char_of (48 + n)"

fun nat_digits :: "nat \<Rightarrow> string" where
  "nat_digits n = (if n < 10 then [digit n] else nat_digits (n div 10) @ [digit (n mod 10)])"

declare nat_digits.simps [simp del]

definition FormatInt :: "int \<Rightarrow> string" where
  "FormatInt i = (if i < 0 then CHR ''-'' # nat_digits (nat (- i)) else nat_digits (nat i))"

definition FormatBool :: "bool \<Rightarrow> string" where
  "FormatBool b = (if b then ''true'' else ''false'')"

definition is_digit :: "char \<Rightarrow> bool" where
  "is_digit c \<longleftrightarrow> 48 \<le> (of_char c :: nat) \<and> (of_char c :: nat) \<le> 57"

definition digit_val :: "char \<Rightarrow> nat" where
  "digit_val c = of_char c - 48"

fun digits_val :: "nat \<Rightarrow> string \<Rightarrow> nat option" where
  "digits_val acc [] = Some acc"
| "digits_val acc (c # cs) =
     (if is_digit c then digits_val (10 * acc + digit_val c) cs else None)"

definition in_int64 :: "int \<Rightarrow> bool" where
  "in_int64 i \<longleftrightarrow> - (2 ^ 63) \<le> i \<and> i < 2 ^ 63"

text \<open>\<^verbatim>\<open>strconv.Atoi\<close>: an optional sign, at least one digit, no other byte, and the range of int64.\<close>

definition Atoi :: "string \<Rightarrow> int option" where
  "Atoi s =
     (let (neg, ds) = (case s of [] \<Rightarrow> (False, [])
          | c # cs \<Rightarrow> if c = CHR ''-'' then (True, cs)
                      else if c = CHR ''+'' then (False, cs) else (False, s))
      in if ds = [] then None
         else case digits_val 0 ds of None \<Rightarrow> None
              | Some n \<Rightarrow> (let v = (if neg then - int n else int n)
                          in if in_int64 v then Some v else None))"

lemma of_char_digit [simp]: "n < 10 \<Longrightarrow> (of_char (digit n) :: nat) = 48 + n"
  by (simp add: digit_def)

lemma is_digit_digit [simp]: "n < 10 \<Longrightarrow> is_digit (digit n)"
  by (simp add: is_digit_def)

lemma digit_val_digit [simp]: "n < 10 \<Longrightarrow> digit_val (digit n) = n"
  by (simp add: digit_val_def)

lemma nat_digits_nonempty [simp]: "nat_digits n \<noteq> []"
  by (subst nat_digits.simps) simp

lemma nat_digits_are_digits: "c \<in> set (nat_digits n) \<Longrightarrow> is_digit c"
proof (induction n rule: nat_digits.induct)
  case (1 n)
  then show ?case
    by (subst (asm) (2) nat_digits.simps) (auto split: if_splits)
qed

lemma digits_val_append:
  "digits_val acc (xs @ ys) = (case digits_val acc xs of None \<Rightarrow> None | Some a \<Rightarrow> digits_val a ys)"
  by (induction xs arbitrary: acc) auto

lemma digits_val_nat_digits [simp]: "digits_val 0 (nat_digits n) = Some n"
proof (induction n rule: nat_digits.induct)
  case (1 n)
  show ?case
  proof (cases "n < 10")
    case True
    then show ?thesis by (subst nat_digits.simps) simp
  next
    case False
    with 1 have "digits_val 0 (nat_digits (n div 10)) = Some (n div 10)" by simp
    with False show ?thesis
      by (subst nat_digits.simps) (simp add: digits_val_append)
  qed
qed

lemma minus_not_digit: "\<not> is_digit (CHR ''-'')" "\<not> is_digit (CHR ''+'')" "\<not> is_digit (CHR ''.'')"
  by (simp_all add: is_digit_def)

lemma nat_digits_Cons:
  obtains c cs where "nat_digits n = c # cs" "is_digit c"
  by (metis list.exhaust list.set_intros(1) nat_digits_are_digits nat_digits_nonempty)

lemma Atoi_nat_digits: "in_int64 (int n) \<Longrightarrow> Atoi (nat_digits n) = Some (int n)"
proof -
  assume "in_int64 (int n)"
  moreover obtain c cs where "nat_digits n = c # cs" "is_digit c" by (rule nat_digits_Cons)
  moreover from this have "c \<noteq> CHR ''-''" "c \<noteq> CHR ''+''" using minus_not_digit by auto
  moreover from calculation have "digits_val 0 (c # cs) = Some n"
    using digits_val_nat_digits [of n] by simp
  ultimately show ?thesis by (simp add: Atoi_def)
qed

lemma Atoi_FormatInt: "in_int64 i \<Longrightarrow> Atoi (FormatInt i) = Some i"
proof (cases "i < 0")
  case True
  then show "in_int64 i \<Longrightarrow> Atoi (FormatInt i) = Some i"
    by (simp add: FormatInt_def Atoi_def)
next
  case False
  then show "in_int64 i \<Longrightarrow> Atoi (FormatInt i) = Some i"
    using Atoi_nat_digits [of "nat i"] by (simp add: FormatInt_def)
qed

lemma FormatInt_inject: "FormatInt i = FormatInt j \<longleftrightarrow> i = j"
proof -
  have neg: "CHR ''-'' # xs \<noteq> nat_digits n" for xs n
    using nat_digits_are_digits [of "CHR ''-''" n] minus_not_digit by (metis list.set_intros(1))
  have inj: "nat_digits m = nat_digits n \<Longrightarrow> m = n" for m n
    by (metis digits_val_nat_digits option.inject)
  show ?thesis
    using neg neg [symmetric] inj [of "nat (- i)" "nat (- j)"] inj [of "nat i" "nat j"]
    by (auto simp: FormatInt_def split: if_splits)
qed

section \<open>Strings\<close>

fun split_on :: "char \<Rightarrow> string \<Rightarrow> string list" where
  "split_on c [] = [[]]"
| "split_on c (x # xs) =
     (if x = c then [] # split_on c xs
      else case split_on c xs of [] \<Rightarrow> [[x]] | y # ys \<Rightarrow> (x # y) # ys)"

fun join :: "char \<Rightarrow> string list \<Rightarrow> string" where
  "join c [] = []"
| "join c [x] = x"
| "join c (x # y # ys) = x @ c # join c (y # ys)"

lemma split_on_nonempty [simp]: "split_on c s \<noteq> []"
  by (induction s) (auto split: list.splits)

lemma join_split_on: "join c (split_on c s) = s"
proof (induction s)
  case Nil
  show ?case by simp
next
  case (Cons x xs)
  then show ?case
    by (cases "split_on c xs"; cases "tl (split_on c xs)") auto
qed

lemma split_on_free: "c \<notin> set s \<Longrightarrow> split_on c s = [s]"
  by (induction s) auto

lemma split_on_append: "c \<notin> set x \<Longrightarrow> split_on c (x @ c # s) = x # split_on c s"
  by (induction x) (auto split: list.splits)

lemma split_on_join: "xs \<noteq> [] \<Longrightarrow> \<forall>x \<in> set xs. c \<notin> set x \<Longrightarrow> split_on c (join c xs) = xs"
  by (induction c xs rule: join.induct) (simp_all add: split_on_free split_on_append)

lemma split_on_parts_free: "x \<in> set (split_on c s) \<Longrightarrow> c \<notin> set x"
  by (induction s arbitrary: x) (auto split: if_splits list.splits)

definition to_lower :: "char \<Rightarrow> char" where
  "to_lower c = (if 65 \<le> (of_char c :: nat) \<and> (of_char c :: nat) \<le> 90
     then char_of ((of_char c :: nat) + 32) else c)"

definition ToLower :: "string \<Rightarrow> string" where
  "ToLower s = map to_lower s"

definition EqualFold :: "string \<Rightarrow> string \<Rightarrow> bool" where
  "EqualFold s t \<longleftrightarrow> ToLower s = ToLower t"

lemma EqualFold_refl [simp]: "EqualFold s s"
  by (simp add: EqualFold_def)

lemma EqualFold_sym: "EqualFold s t \<Longrightarrow> EqualFold t s"
  by (simp add: EqualFold_def)

lemma EqualFold_trans: "EqualFold s t \<Longrightarrow> EqualFold t u \<Longrightarrow> EqualFold s u"
  by (simp add: EqualFold_def)

lemma EqualFold_length: "EqualFold s t \<Longrightarrow> length s = length t"
  by (metis EqualFold_def ToLower_def length_map)

lemma EqualFold_Nil [simp]: "EqualFold [] t \<longleftrightarrow> t = []" "EqualFold s [] \<longleftrightarrow> s = []"
  by (auto simp: EqualFold_def ToLower_def)

text \<open>The verb \<^verbatim>\<open>%q\<close> on a string of printable ASCII: double quotes, with the quote and the backslash escaped.\<close>

definition quote :: "string \<Rightarrow> string" where
  "quote s = CHR 0x22 # concat (map (\<lambda>c. if c = CHR 0x22 \<or> c = CHR 0x5C then [CHR 0x5C, c] else [c]) s)
     @ [CHR 0x22]"

end
