(* ===== verification/Go_Value.thy ===== *)
theory Go_Value
  imports Go_Lib
begin

text \<open>
  The dynamic values (Go's \<^verbatim>\<open>any\<close>) that ticket fields, routing conditions and step
  outputs hold, and \<^verbatim>\<open>toString\<close> of engine/util.go, which renders them for loose
  comparison. A finite float is \<open>Fin m e\<close>, the number \<open>m * 2 ^ e\<close>; its decimal form is the
  shortest one that reads back as the same float, as strconv prints it.
\<close>

datatype gofloat = Fin int int | PosInf | NegInf | NaN

datatype goany =
    VNil
  | VString string
  | VBool bool
  | VInt int
  | VInt64 int
  | VFloat64 gofloat
  | VFloat32 gofloat
  | VList "goany list"
  | VMap "(string \<times> goany) list"

type_synonym goobj = "(string \<times> goany) list"

section \<open>Floats in decimal\<close>

fun bit_len :: "nat \<Rightarrow> nat" where
  "bit_len n = (if n = 0 then 0 else Suc (bit_len (n div 2)))"

declare bit_len.simps [simp del]

definition float_val :: "int \<Rightarrow> int \<Rightarrow> rat" where
  "float_val m e = of_int m * 2 powi e"

text \<open>
  The position \<open>q\<close> of the last digit goes down until a multiple of \<open>10 ^ q\<close> lies in the
  interval of numbers that round to the float (its ends count when the mantissa is even).
\<close>

primrec shortest :: "nat \<Rightarrow> int \<Rightarrow> rat \<Rightarrow> rat \<Rightarrow> rat \<Rightarrow> bool \<Rightarrow> int \<times> int" where
  "shortest 0 q x lo hi inc = (\<lfloor>x / 10 powi q\<rfloor>, q)"
| "shortest (Suc n) q x lo hi inc =
     (let u = 10 powi q; k = \<lfloor>x / u\<rfloor>;
          inside = (\<lambda>y. lo < y \<and> y < hi \<or> inc \<and> (y = lo \<or> y = hi));
          dn = inside (of_int k * u); up = inside (of_int (k + 1) * u);
          d = x - of_int k * u; d' = of_int (k + 1) * u - x
      in if dn \<and> up then (if d < d' \<or> d = d' \<and> even k then (k, q) else (k + 1, q))
         else if dn then (k, q)
         else if up then (k + 1, q)
         else shortest n (q - 1) x lo hi inc)"

text \<open>
  Digits and exponent of a positive float: \<open>p\<close> bits of mantissa, least exponent \<open>emin\<close>.
  The number is below \<open>2 ^ b\<close>, so no multiple of a higher power of ten than the first one
  tried is in the interval; seventeen digits are enough for 53 bits, so 25 rounds are.
\<close>

definition float_digits :: "int \<Rightarrow> int \<Rightarrow> nat \<Rightarrow> int \<Rightarrow> int \<times> int" where
  "float_digits p emin m e =
     (let b = int (bit_len m) + e; E = max (b - p) emin; x = float_val (int m) e;
          u = 2 powi E; mant = \<lfloor>x / u\<rfloor>;
          lo = (if mant = 2 ^ nat (p - 1) \<and> emin < E then x - u / 4 else x - u / 2)
      in shortest 25 (b * 30103 div 100000 + 1) x lo (x + u / 2) (even mant))"

definition fixed_form :: "int \<times> int \<Rightarrow> string" where
  "fixed_form kq = (case kq of (k, q) \<Rightarrow>
     let ds = nat_digits (nat k); p = nat (- q) in
     if 0 \<le> q then ds @ replicate (nat q) (CHR ''0'')
     else if p < length ds then take (length ds - p) ds @ CHR ''.'' # drop (length ds - p) ds
     else ''0.'' @ replicate (p - length ds) (CHR ''0'') @ ds)"

definition exp_form :: "int \<times> int \<Rightarrow> string" where
  "exp_form kq = (case kq of (k, q) \<Rightarrow>
     let ds = nat_digits (nat k); x = q + int (length ds) - 1;
         xs = nat_digits (nat \<bar>x\<bar>) in
     hd ds # (if tl ds = [] then [] else CHR ''.'' # tl ds) @ CHR ''e''
       # (if x < 0 then CHR ''-'' else CHR ''+'')
       # (if length xs < 2 then CHR ''0'' # xs else xs))"

text \<open>\<^verbatim>\<open>strconv.FormatFloat(x, 'f', -1, bits)\<close> and the verb \<^verbatim>\<open>%v\<close>, which is \<^verbatim>\<open>'g'\<close> with the shortest digits.\<close>

fun FormatFloat :: "int \<Rightarrow> int \<Rightarrow> gofloat \<Rightarrow> string" where
  "FormatFloat p emin (Fin m e) =
     (if m = 0 then ''0''
      else (if m < 0 then ''-'' else []) @ fixed_form (float_digits p emin (nat \<bar>m\<bar>) e))"
| "FormatFloat p emin PosInf = ''+Inf''"
| "FormatFloat p emin NegInf = ''-Inf''"
| "FormatFloat p emin NaN = ''NaN''"

fun FormatFloat_g :: "int \<Rightarrow> int \<Rightarrow> gofloat \<Rightarrow> string" where
  "FormatFloat_g p emin (Fin m e) =
     (if m = 0 then ''0''
      else let kq = float_digits p emin (nat \<bar>m\<bar>) e;
               x = snd kq + int (length (nat_digits (nat (fst kq)))) - 1
           in (if m < 0 then ''-'' else []) @
              (if x < -4 \<or> 6 \<le> x then exp_form kq else fixed_form kq))"
| "FormatFloat_g p emin PosInf = ''+Inf''"
| "FormatFloat_g p emin NegInf = ''-Inf''"
| "FormatFloat_g p emin NaN = ''NaN''"

definition FormatFloat64 :: "gofloat \<Rightarrow> string" where
  "FormatFloat64 = FormatFloat 53 (-1074)"

definition FormatFloat32 :: "gofloat \<Rightarrow> string" where
  "FormatFloat32 = FormatFloat 24 (-149)"

text \<open>The number of an integral float in the range of int64, and nothing otherwise.\<close>

fun float_int :: "gofloat \<Rightarrow> int option" where
  "float_int (Fin m e) =
     (let x = float_val m e in
      if x = of_int \<lfloor>x\<rfloor> \<and> in_int64 \<lfloor>x\<rfloor> then Some \<lfloor>x\<rfloor> else None)"
| "float_int _ = None"

section \<open>\<^verbatim>\<open>fmt.Sprintf("%v", x)\<close>\<close>

definition spaced :: "string list \<Rightarrow> string" where
  "spaced = join (CHR '' '')"

primrec sprint_v :: "goany \<Rightarrow> string" where
  "sprint_v VNil = ''<nil>''"
| "sprint_v (VString s) = s"
| "sprint_v (VBool b) = FormatBool b"
| "sprint_v (VInt i) = FormatInt i"
| "sprint_v (VInt64 i) = FormatInt i"
| "sprint_v (VFloat64 x) = FormatFloat_g 53 (-1074) x"
| "sprint_v (VFloat32 x) = FormatFloat_g 24 (-149) x"
| "sprint_v (VList xs) = ''['' @ spaced (map sprint_v xs) @ '']''"
| "sprint_v (VMap m) = ''map['' @
     spaced (map (\<lambda>(k, t). k @ '':'' @ t) (sort_key fst (map (map_prod id sprint_v) m))) @ '']''"

section \<open>\<^verbatim>\<open>toString\<close> and \<^verbatim>\<open>equal\<close>\<close>

fun toString :: "goany \<Rightarrow> string" where
  "toString VNil = []"
| "toString (VString s) = s"
| "toString (VBool b) = FormatBool b"
| "toString (VFloat64 x) =
     (case float_int x of Some i \<Rightarrow> FormatInt i | None \<Rightarrow> FormatFloat64 x)"
| "toString (VFloat32 x) = FormatFloat32 x"
| "toString (VInt i) = FormatInt i"
| "toString (VInt64 i) = FormatInt i"
| "toString v = sprint_v v"

definition equal :: "goany \<Rightarrow> goany \<Rightarrow> bool" where
  "equal a b \<longleftrightarrow> toString a = toString b"

lemma equal_refl [simp]: "equal a a"
  by (simp add: equal_def)

lemma equal_sym: "equal a b \<Longrightarrow> equal b a"
  by (simp add: equal_def)

lemma equal_trans: "equal a b \<Longrightarrow> equal b c \<Longrightarrow> equal a c"
  by (simp add: equal_def)

lemma float_int_Fin_int [simp]: "in_int64 i \<Longrightarrow> float_int (Fin i 0) = Some i"
  by (simp add: float_val_def)

end
