(* ===== verification/Model.thy ===== *)
theory Model
  imports Go_Value
begin

text \<open>
  The domain model of engine/model.go: statuses, tickets, workflow definitions, events with
  their payloads, and the derived state of a run. Field names carry a prefix for their
  struct (\<open>SD_Next\<close> is the field Next of StepDef). A pointer that may be nil, a map that may
  be nil and an omitted JSON field are options. A time is the number of nanoseconds since
  Go's zero time, so \<open>0\<close> is the zero time; a duration is a number of nanoseconds.
\<close>

type_synonym time = int
type_synonym duration = int
type_synonym run_id = string
type_synonym ticket_id = string

abbreviation (input) zero_time :: time where
  "zero_time \<equiv> 0"

section \<open>Statuses and kinds\<close>

datatype RunStatus =
    RunStatusNone
  | RunStatusActive
  | RunStatusWaiting
  | RunStatusCompleted
  | RunStatusFailed
  | RunStatusCancelled

datatype StepStatus =
    StepPending
  | StepRunning
  | StepCompleted
  | StepFailed
  | StepWaiting
  | StepSkipped

text \<open>A kind is a string in the source; any other string than the three constants is \<open>KindOther\<close>.\<close>

datatype StepKind = KindTask | KindApproval | KindDelay | KindOther string

section \<open>Tickets and workflow definitions\<close>

record Ticket =
  T_ID :: ticket_id
  T_Workflow :: string
  T_WorkflowVer :: string
  T_Title :: string
  T_Fields :: "goobj option"
  T_Assignee :: string
  T_Queue :: string
  T_Priority :: string
  T_CreatedAt :: time
  T_UpdatedAt :: time

record RetryPolicy =
  RP_MaxAttempts :: int
  RP_Delay :: duration

record Approver =
  A_Role :: string
  A_User :: string

record ApprovalDef =
  AD_Chain :: "Approver list"

record DelayDef =
  DD_Duration :: duration

record StepDef =
  SD_Name :: string
  SD_Kind :: StepKind
  SD_Task :: string
  SD_Approval :: "ApprovalDef option"
  SD_Delay :: "DelayDef option"
  SD_Next :: string
  SD_OnError :: string
  SD_AssignTo :: string
  SD_Retry :: RetryPolicy

record SLADef =
  SLA_Name :: string
  SLA_Duration :: duration
  SLA_OnBreach :: string

record RoutingRule =
  RR_If :: goobj
  RR_Queue :: string
  RR_Assignee :: string
  RR_Priority :: string

record WorkflowDef =
  W_Name :: string
  W_Version :: string
  W_Description :: string
  W_Initial :: string
  W_Steps :: "StepDef list"
  W_SLAs :: "SLADef list"
  W_Routing :: "RoutingRule list"

text \<open>\<^verbatim>\<open>stepMap\<close>: later steps overwrite earlier ones of the same name. \<^verbatim>\<open>Step\<close>: the first of the name.\<close>

fun stepMap_loop :: "StepDef list \<Rightarrow> (string \<rightharpoonup> StepDef) \<Rightarrow> (string \<rightharpoonup> StepDef)" where
  "stepMap_loop [] m = m"
| "stepMap_loop (s # ss) m = stepMap_loop ss (m(SD_Name s \<mapsto> s))"

definition stepMap :: "WorkflowDef \<Rightarrow> (string \<rightharpoonup> StepDef)" where
  "stepMap w = stepMap_loop (W_Steps w) Map.empty"

fun find_step :: "StepDef list \<Rightarrow> string \<Rightarrow> StepDef option" where
  "find_step [] name = None"
| "find_step (s # ss) name = (if SD_Name s = name then Some s else find_step ss name)"

definition Step :: "WorkflowDef \<Rightarrow> string \<Rightarrow> StepDef option" where
  "Step w name = find_step (W_Steps w) name"

definition approvalChain :: "WorkflowDef \<Rightarrow> string \<Rightarrow> Approver list" where
  "approvalChain w step =
     (case Step w step of
        Some sd \<Rightarrow> (case SD_Approval sd of Some a \<Rightarrow> AD_Chain a | None \<Rightarrow> [])
      | None \<Rightarrow> [])"

lemma find_step_SomeD: "find_step ss n = Some s \<Longrightarrow> s \<in> set ss \<and> SD_Name s = n"
  by (induction ss) (auto split: if_splits)

lemma Step_SomeD: "Step w n = Some s \<Longrightarrow> s \<in> set (W_Steps w) \<and> SD_Name s = n"
  by (simp add: Step_def find_step_SomeD)

lemma find_step_None_iff: "find_step ss n = None \<longleftrightarrow> n \<notin> SD_Name ` set ss"
  by (induction ss) auto

lemma Step_None_iff: "Step w n = None \<longleftrightarrow> n \<notin> SD_Name ` set (W_Steps w)"
  by (simp add: Step_def find_step_None_iff)

lemma find_step_distinct:
  "distinct (map SD_Name ss) \<Longrightarrow> s \<in> set ss \<Longrightarrow> find_step ss (SD_Name s) = Some s"
  by (induction ss) auto

lemma stepMap_loop_apply:
  "distinct (map SD_Name ss) \<Longrightarrow>
    stepMap_loop ss m n = (case find_step ss n of Some s \<Rightarrow> Some s | None \<Rightarrow> m n)"
proof (induction ss arbitrary: m)
  case Nil
  then show ?case by simp
next
  case (Cons s ss)
  then show ?case
    using find_step_None_iff [of ss "SD_Name s"] by (auto split: option.splits)
qed

section \<open>Events\<close>

text \<open>
  The type of an event and its JSON payload are one value: the engine writes each type with
  its own payload struct and reads it back with the same one. The arguments are the
  payload's fields in order.
\<close>

datatype EventType =
    EventTicketCreated
  | EventRunStarted
  | EventStepScheduled
  | EventStepStarted
  | EventStepCompleted
  | EventStepFailed
  | EventTimerFired
  | EventApprovalRequested
  | EventApprovalGranted
  | EventApprovalRejected
  | EventSLABreached
  | EventTicketAssigned
  | EventRunCompleted
  | EventRunFailed
  | EventRunCancelled
  | EventRunFailing

datatype payload =
    TicketCreated Ticket
  | RunStarted run_id string \<comment> \<open>run, first step\<close>
  | StepScheduled string StepKind time \<comment> \<open>step, kind, due at\<close>
  | StepStarted string
  | StepCompletedP string "goobj option" \<comment> \<open>step, output\<close>
  | StepFailedP string string int \<comment> \<open>step, reason, attempt\<close>
  | TimerFired string
  | ApprovalRequested string int string string int \<comment> \<open>step, index, role, user, chain length\<close>
  | ApprovalGranted string int string \<comment> \<open>step, index, by\<close>
  | ApprovalRejected string int string string \<comment> \<open>step, index, by, reason\<close>
  | SLABreached string string \<comment> \<open>name, step\<close>
  | TicketAssigned string string string int \<comment> \<open>queue, assignee, priority, rule\<close>
  | RunCompleted string
  | RunFailed string string \<comment> \<open>last step, reason\<close>
  | RunCancelled string
  | RunFailing string string

fun event_type :: "payload \<Rightarrow> EventType" where
  "event_type (TicketCreated t) = EventTicketCreated"
| "event_type (RunStarted r f) = EventRunStarted"
| "event_type (StepScheduled s k d) = EventStepScheduled"
| "event_type (StepStarted s) = EventStepStarted"
| "event_type (StepCompletedP s out) = EventStepCompleted"
| "event_type (StepFailedP s r a) = EventStepFailed"
| "event_type (TimerFired s) = EventTimerFired"
| "event_type (ApprovalRequested s i r u n) = EventApprovalRequested"
| "event_type (ApprovalGranted s i b) = EventApprovalGranted"
| "event_type (ApprovalRejected s i b r) = EventApprovalRejected"
| "event_type (SLABreached n s) = EventSLABreached"
| "event_type (TicketAssigned q a p r) = EventTicketAssigned"
| "event_type (RunCompleted s) = EventRunCompleted"
| "event_type (RunFailed s r) = EventRunFailed"
| "event_type (RunCancelled r) = EventRunCancelled"
| "event_type (RunFailing s r) = EventRunFailing"

record Event =
  E_ID :: int
  E_RunID :: run_id
  E_TicketID :: ticket_id
  E_Seq :: int
  E_At :: time
  E_Payload :: payload
  E_ScheduleAt :: "time option"

section \<open>The derived state of a run\<close>

datatype ApprovalStatus = Pending | Granted | Rejected

record ApprovalState =
  AS_Chain :: "Approver list"
  AS_Index :: int
  AS_Status :: ApprovalStatus
  AS_DecidedBy :: string

record StepState =
  SS_Name :: string
  SS_Kind :: StepKind
  SS_Status :: StepStatus
  SS_Attempt :: int
  SS_Output :: "goobj option"
  SS_Error :: string
  SS_DueAt :: "time option"
  SS_Approval :: "ApprovalState option"

text \<open>The map of step states is an association list in the order the steps were first seen.\<close>

record WorkflowRun =
  R_ID :: run_id
  R_TicketID :: ticket_id
  R_Workflow :: string
  R_WorkflowVer :: string
  R_Status :: RunStatus
  R_Current :: string
  R_Steps :: "(string \<times> StepState) list"
  R_Output :: "goobj option"
  R_Failed :: bool
  R_CreatedAt :: time
  R_UpdatedAt :: time

definition step_of :: "WorkflowRun \<Rightarrow> string \<Rightarrow> StepState option" where
  "step_of run name = map_of (R_Steps run) name"

definition terminal :: "RunStatus \<Rightarrow> bool" where
  "terminal s \<longleftrightarrow> s = RunStatusCompleted \<or> s = RunStatusFailed \<or> s = RunStatusCancelled"

end
