(* ===== verification/EventLog.thy ===== *)
theory EventLog
  imports Model
begin

text \<open>
  The append-only event log (engine/eventlog.go). The locale \<open>event_log\<close> is the contract
  that the interface EventLog documents: Append adds one event at the end of its run's
  history and hands out the next sequence number of that run, History returns a run's events
  in order, Runs returns the known runs. The in-memory log is the reference implementation.
  Every method holds the log's mutex from start to end, so each is one atomic step here.
\<close>

section \<open>The in-memory log\<close>

text \<open>Reading a missing key of a Go map gives the zero value, so seq and events are total.\<close>

record InMemoryEventLog =
  L_seq :: "run_id \<Rightarrow> int"
  L_events :: "run_id \<Rightarrow> Event list"
  L_runs :: "run_id list"

definition NewInMemoryEventLog :: InMemoryEventLog where
  "NewInMemoryEventLog = \<lparr>L_seq = (\<lambda>_. 0), L_events = (\<lambda>_. []), L_runs = []\<rparr>"

text \<open>\<open>wall\<close> is what time.Now returns; it is used when the event has no time of its own.\<close>

definition Append :: "time \<Rightarrow> Event \<Rightarrow> InMemoryEventLog \<Rightarrow> Event \<times> InMemoryEventLog" where
  "Append wall e l =
     (let r = E_RunID e;
          e = e\<lparr>E_Seq := L_seq l r + 1\<rparr>;
          l = l\<lparr>L_seq := (L_seq l)(r := L_seq l r + 1)\<rparr>;
          e = (if E_At e = zero_time then e\<lparr>E_At := wall\<rparr> else e);
          e = (if E_ID e = 0 then e\<lparr>E_ID := E_Seq e\<rparr> else e);
          l = l\<lparr>L_events := (L_events l)(r := L_events l r @ [e])\<rparr>;
          l = l\<lparr>L_runs := List.insert r (L_runs l)\<rparr>
      in (e, l))"

definition History :: "InMemoryEventLog \<Rightarrow> run_id \<Rightarrow> Event list" where
  "History l r = L_events l r"

definition Runs :: "InMemoryEventLog \<Rightarrow> run_id list" where
  "Runs l = L_runs l"

section \<open>The contract\<close>

text \<open>An event as the log keeps it: numbered, with a time, and with its number as identifier if it has none.\<close>

definition stamped :: "time \<Rightarrow> Event \<Rightarrow> int \<Rightarrow> Event" where
  "stamped wall e n =
     e\<lparr>E_Seq := n, E_At := (if E_At e = zero_time then wall else E_At e),
       E_ID := (if E_ID e = 0 then n else E_ID e)\<rparr>"

fun stamp_all :: "int \<Rightarrow> (time \<times> Event) list \<Rightarrow> Event list" where
  "stamp_all n [] = []"
| "stamp_all n ((w, e) # es) = stamped w e n # stamp_all (n + 1) es"

lemma stamp_all_nth:
  "length (stamp_all n es) = length es"
  "i < length es \<Longrightarrow> es ! i = (w, e) \<Longrightarrow> stamp_all n es ! i = stamped w e (n + int i)"
proof -
  show "length (stamp_all n es) = length es" by (induction n es rule: stamp_all.induct) simp_all
  show "i < length es \<Longrightarrow> es ! i = (w, e) \<Longrightarrow> stamp_all n es ! i = stamped w e (n + int i)"
    by (induction n es arbitrary: i rule: stamp_all.induct)
       (auto simp: nth_Cons add.assoc split: nat.split)
qed

locale event_log =
  fixes empty :: 'l
    and append :: "time \<Rightarrow> Event \<Rightarrow> 'l \<Rightarrow> Event \<times> 'l"
    and history :: "'l \<Rightarrow> run_id \<Rightarrow> Event list"
    and runs :: "'l \<Rightarrow> run_id list"
    and invar :: "'l \<Rightarrow> bool"
  assumes history_empty: "history empty r = []"
    and runs_empty: "runs empty = []"
    and invar_empty: "invar empty"
    and history_append: "invar l \<Longrightarrow> append w e l = (e', l') \<Longrightarrow>
          history l' r = (if r = E_RunID e then history l r @ [e'] else history l r)"
    and append_seq: "invar l \<Longrightarrow> append w e l = (e', l') \<Longrightarrow>
          E_Seq e' = int (length (history l (E_RunID e))) + 1"
    and append_same: "append w e l = (e', l') \<Longrightarrow>
          e' = stamped w e (E_Seq e')"
    and runs_append: "invar l \<Longrightarrow> append w e l = (e', l') \<Longrightarrow>
          set (runs l') = insert (E_RunID e) (set (runs l)) \<and> distinct (runs l')"
    and invar_append: "invar l \<Longrightarrow> append w e l = (e', l') \<Longrightarrow> invar l'"
begin

text \<open>A log that has taken a list of appends, each with the wall clock it saw.\<close>

fun append_all :: "(time \<times> Event) list \<Rightarrow> 'l \<Rightarrow> 'l" where
  "append_all [] l = l"
| "append_all ((w, e) # es) l = append_all es (snd (append w e l))"

lemma invar_append_all: "invar l \<Longrightarrow> invar (append_all es l)"
  by (induction es l rule: append_all.induct) (simp_all, metis invar_append prod.collapse)

lemma history_stamped:
  "invar l \<Longrightarrow> history (append_all es l) r =
     history l r @ stamp_all (int (length (history l r)) + 1) (filter (\<lambda>(w, e). E_RunID e = r) es)"
proof (induction es l rule: append_all.induct)
  case (1 l)
  show ?case by simp
next
  case (2 w e es l)
  obtain e' l' where ap: "append w e l = (e', l')" by fastforce
  have e': "e' = stamped w e (int (length (history l (E_RunID e))) + 1)"
    using append_same [OF ap] append_seq [OF 2(2) ap] by simp
  note step = history_append [OF 2(2) ap]
  have IH: "history (append_all es l') r =
      history l' r @ stamp_all (int (length (history l' r)) + 1) (filter (\<lambda>(w, e). E_RunID e = r) es)"
    using 2(1) invar_append [OF 2(2) ap] ap by simp
  show ?case using IH step ap e' by (cases "r = E_RunID e") (simp_all add: add.commute)
qed

lemma history_append_all:
  "invar l \<Longrightarrow> \<exists>new. history (append_all es l) r = history l r @ new \<and>
     map E_Payload new = map (E_Payload \<circ> snd) (filter (\<lambda>(w, e). E_RunID e = r) es) \<and>
     map E_Seq new = [int (length (history l r)) + 1 .. int (length (history l r) + length new)]"
proof -
  have "map E_Payload (stamp_all n xs) = map (E_Payload \<circ> snd) xs \<and>
      map E_Seq (stamp_all n xs) = [n .. n + int (length xs) - 1]" for n xs
    by (induction n xs rule: stamp_all.induct) (auto simp: stamped_def upto_rec1)
  then show "invar l \<Longrightarrow> ?thesis" by (simp add: history_stamped stamp_all_nth(1) add.commute)
qed

lemma runs_append_all:
  "invar l \<Longrightarrow> set (runs (append_all es l)) = set (runs l) \<union> (E_RunID \<circ> snd) ` set es"
proof (induction es l rule: append_all.induct)
  case (1 l)
  show ?case by simp
next
  case (2 w e es l)
  obtain e' l' where ap: "append w e l = (e', l')" by fastforce
  with 2 show ?case using invar_append [OF 2(2) ap] runs_append [OF 2(2) ap] by simp
qed

lemma seqs_from_empty:
  "map E_Seq (history (append_all es empty) r) = [1 .. int (length (history (append_all es empty) r))]"
  using history_append_all [OF invar_empty, of es r] history_empty by force

lemma stamped_from_empty:
  "history (append_all es empty) r = stamp_all 1 (filter (\<lambda>(w, e). E_RunID e = r) es)"
  by (simp add: history_stamped invar_empty history_empty)

end

section \<open>The in-memory log keeps the contract\<close>

definition log_ok :: "InMemoryEventLog \<Rightarrow> bool" where
  "log_ok l \<longleftrightarrow> distinct (L_runs l) \<and> (\<forall>r.
     L_seq l r = int (length (L_events l r)) \<and>
     map E_Seq (L_events l r) = [1 .. int (length (L_events l r))] \<and>
     (\<forall>e \<in> set (L_events l r). E_RunID e = r) \<and>
     (r \<in> set (L_runs l) \<longleftrightarrow> L_events l r \<noteq> []))"

lemma Append_eq:
  "Append wall e l =
    (stamped wall e (L_seq l (E_RunID e) + 1),
     \<lparr>L_seq = (L_seq l)(E_RunID e := L_seq l (E_RunID e) + 1),
      L_events = (L_events l)(E_RunID e := L_events l (E_RunID e) @ [stamped wall e (L_seq l (E_RunID e) + 1)]),
      L_runs = List.insert (E_RunID e) (L_runs l)\<rparr>)"
  by (simp add: Append_def Let_def stamped_def)

lemma stamped_simps [simp]:
  "E_RunID (stamped w e n) = E_RunID e" "E_TicketID (stamped w e n) = E_TicketID e"
  "E_Payload (stamped w e n) = E_Payload e" "E_ScheduleAt (stamped w e n) = E_ScheduleAt e"
  "E_Seq (stamped w e n) = n"
  "E_At (stamped w e n) = (if E_At e = zero_time then w else E_At e)"
  by (simp_all add: stamped_def)

lemma log_ok_new: "log_ok NewInMemoryEventLog"
  by (simp add: log_ok_def NewInMemoryEventLog_def)

lemma upto_snoc: "0 \<le> n \<Longrightarrow> [1 .. n + 1] = [1 .. n] @ [n + 1 :: int]"
  by (simp add: upto_rec2)

lemma log_ok_Append: "log_ok l \<Longrightarrow> log_ok (snd (Append w e l))"
  unfolding log_ok_def Append_eq
  by (auto simp: upto_snoc add.commute [of 1])

interpretation mem: event_log NewInMemoryEventLog Append History Runs log_ok
proof
  fix l w e e' l' r
  assume inv: "log_ok l" and ap: "Append w e l = (e', l')"
  from inv ap show "E_Seq e' = int (length (History l (E_RunID e))) + 1"
    by (auto simp: Append_eq History_def log_ok_def)
  from ap show "History l' r = (if r = E_RunID e then History l r @ [e'] else History l r)"
    by (auto simp: Append_eq History_def)
  from inv ap show "set (Runs l') = insert (E_RunID e) (set (Runs l)) \<and> distinct (Runs l')"
    by (auto simp: Append_eq Runs_def log_ok_def)
  from log_ok_Append [OF inv] ap show "log_ok l'" by (metis snd_conv)
next
  show "log_ok NewInMemoryEventLog" by (rule log_ok_new)
qed (auto simp: NewInMemoryEventLog_def History_def Runs_def Append_eq)

section \<open>Properties\<close>

text \<open>
  (C31) Whatever is appended, in whatever interleaving of runs, the history of each run
  carries the sequence numbers 1, 2, ..., n without gap or repetition.
\<close>

theorem History_seq_contiguous:
  "map E_Seq (History (mem.append_all es NewInMemoryEventLog) r) =
    [1 .. int (length (History (mem.append_all es NewInMemoryEventLog) r))]"
  by (rule mem.seqs_from_empty)

text \<open>
  (C32) The history of a run holds exactly the events that were appended for that run, in the
  order of the appends, with everything they carried: no event is lost, repeated, reordered,
  altered or filed under another run. Only the number is the log's, the identifier too where the
  event had none, and the time where it had none. The runs listed for recovery are the runs that
  have an event.
\<close>

theorem History_is_appends:
  "length (History (mem.append_all es NewInMemoryEventLog) r) = length (filter (\<lambda>(w, e). E_RunID e = r) es) \<and>
   (\<forall>i < length (filter (\<lambda>(w, e). E_RunID e = r) es).
      case filter (\<lambda>(w, e). E_RunID e = r) es ! i of (w, e) \<Rightarrow>
        History (mem.append_all es NewInMemoryEventLog) r ! i =
          \<lparr>E_ID = (if E_ID e = 0 then int i + 1 else E_ID e), E_RunID = r, E_TicketID = E_TicketID e,
           E_Seq = int i + 1, E_At = (if E_At e = zero_time then w else E_At e),
           E_Payload = E_Payload e, E_ScheduleAt = E_ScheduleAt e\<rparr>) \<and>
   (r \<in> set (Runs (mem.append_all es NewInMemoryEventLog)) \<longleftrightarrow>
      History (mem.append_all es NewInMemoryEventLog) r \<noteq> [])"
proof (intro conjI allI impI)
  let ?es = "filter (\<lambda>(w, e). E_RunID e = r) es" and ?l = "mem.append_all es NewInMemoryEventLog"
  show "length (History ?l r) = length ?es" by (simp add: mem.stamped_from_empty stamp_all_nth(1))
  fix i assume i: "i < length ?es"
  obtain w e where e: "?es ! i = (w, e)" by fastforce
  with nth_mem [OF i] have "E_RunID e = r" by auto
  with stamp_all_nth(2) [OF i e, of 1] show "case ?es ! i of (w, e) \<Rightarrow> History ?l r ! i =
      \<lparr>E_ID = (if E_ID e = 0 then int i + 1 else E_ID e), E_RunID = r, E_TicketID = E_TicketID e,
       E_Seq = int i + 1, E_At = (if E_At e = zero_time then w else E_At e),
       E_Payload = E_Payload e, E_ScheduleAt = E_ScheduleAt e\<rparr>"
    by (simp add: e mem.stamped_from_empty stamped_def add.commute)
next
  have "log_ok (mem.append_all es NewInMemoryEventLog)"
    by (rule mem.invar_append_all [OF log_ok_new])
  then show "r \<in> set (Runs (mem.append_all es NewInMemoryEventLog)) \<longleftrightarrow>
       History (mem.append_all es NewInMemoryEventLog) r \<noteq> []"
    by (simp add: log_ok_def Runs_def History_def)
qed

theorem History_is_appends_witness:
  "History (mem.append_all
      [(7, \<lparr>E_ID = 0, E_RunID = ''a'', E_TicketID = ''t'', E_Seq = 9, E_At = 0, E_Payload = RunCancelled ''x'',
          E_ScheduleAt = Some 3\<rparr>),
       (8, \<lparr>E_ID = 0, E_RunID = ''b'', E_TicketID = ''u'', E_Seq = 0, E_At = 4, E_Payload = RunCancelled ''y'',
          E_ScheduleAt = None\<rparr>)] NewInMemoryEventLog) ''a'' ! 0 =
    \<lparr>E_ID = 1, E_RunID = ''a'', E_TicketID = ''t'', E_Seq = 1, E_At = 7, E_Payload = RunCancelled ''x'',
      E_ScheduleAt = Some 3\<rparr>"
  using History_is_appends [of "[(7, \<lparr>E_ID = 0, E_RunID = ''a'', E_TicketID = ''t'', E_Seq = 9, E_At = 0,
      E_Payload = RunCancelled ''x'', E_ScheduleAt = Some 3\<rparr>),
      (8, \<lparr>E_ID = 0, E_RunID = ''b'', E_TicketID = ''u'', E_Seq = 0, E_At = 4, E_Payload = RunCancelled ''y'',
          E_ScheduleAt = None\<rparr>)]" "''a''"]
  by simp

end
