(* ===== verification/Store.thy ===== *)
theory Store
  imports Model
begin

text \<open>
  The projection store (engine/store.go): tickets by identifier and workflow definitions by
  name and version. The locale \<open>store\<close> is the contract of the interface Store that the
  engine relies on; the in-memory store is its model. Go's maps are association lists here,
  so that the listing operations can enumerate them; their order is the order of first
  insertion, one of the orders that Go's iteration may take.
\<close>

section \<open>The in-memory store\<close>

record InMemoryStore =
  S_tickets :: "(ticket_id \<times> Ticket) list"
  S_workflows :: "(string \<times> (string \<times> WorkflowDef) list) list"

definition NewInMemoryStore :: InMemoryStore where
  "NewInMemoryStore = \<lparr>S_tickets = [], S_workflows = []\<rparr>"

definition SaveTicket :: "Ticket \<Rightarrow> InMemoryStore \<Rightarrow> InMemoryStore" where
  "SaveTicket t s = s\<lparr>S_tickets := AList.update (T_ID t) t (S_tickets s)\<rparr>"

definition GetTicket :: "InMemoryStore \<Rightarrow> ticket_id \<Rightarrow> error + Ticket" where
  "GetTicket s i =
     (case map_of (S_tickets s) i of None \<Rightarrow> Inl ErrNotFound | Some t \<Rightarrow> Inr t)"

definition RegisterWorkflow :: "WorkflowDef \<Rightarrow> InMemoryStore \<Rightarrow> InMemoryStore" where
  "RegisterWorkflow w s =
     (let versions = (case map_of (S_workflows s) (W_Name w) of None \<Rightarrow> [] | Some vs \<Rightarrow> vs)
      in s\<lparr>S_workflows := AList.update (W_Name w) (AList.update (W_Version w) w versions) (S_workflows s)\<rparr>)"

definition GetWorkflow :: "InMemoryStore \<Rightarrow> string \<Rightarrow> string \<Rightarrow> error + WorkflowDef" where
  "GetWorkflow s name version =
     (case map_of (S_workflows s) name of
        None \<Rightarrow> Inl ErrNotFound
      | Some versions \<Rightarrow> (case map_of versions version of None \<Rightarrow> Inl ErrNotFound | Some w \<Rightarrow> Inr w))"

definition ListTickets :: "InMemoryStore \<Rightarrow> Ticket list" where
  "ListTickets s = map snd (S_tickets s)"

definition ListWorkflows :: "InMemoryStore \<Rightarrow> WorkflowDef list" where
  "ListWorkflows s = concat (map (\<lambda>(name, versions). map snd versions) (S_workflows s))"

definition WorkflowVersions :: "InMemoryStore \<Rightarrow> string \<Rightarrow> error + string list" where
  "WorkflowVersions s name =
     (case map_of (S_workflows s) name of
        None \<Rightarrow> Inl ErrNotFound
      | Some versions \<Rightarrow> Inr (map fst versions))"

section \<open>The contract\<close>

locale store =
  fixes empty :: 's
    and save_ticket :: "Ticket \<Rightarrow> 's \<Rightarrow> 's"
    and get_ticket :: "'s \<Rightarrow> ticket_id \<Rightarrow> error + Ticket"
    and register :: "WorkflowDef \<Rightarrow> 's \<Rightarrow> 's"
    and get_workflow :: "'s \<Rightarrow> string \<Rightarrow> string \<Rightarrow> error + WorkflowDef"
  assumes get_ticket_empty: "get_ticket empty i = Inl ErrNotFound"
    and get_workflow_empty: "get_workflow empty n v = Inl ErrNotFound"
    and get_save_ticket: "get_ticket (save_ticket t s) i = (if i = T_ID t then Inr t else get_ticket s i)"
    and get_ticket_register: "get_ticket (register w s) i = get_ticket s i"
    and get_workflow_save: "get_workflow (save_ticket t s) n v = get_workflow s n v"
    and get_workflow_register: "get_workflow (register w s) n v =
          (if n = W_Name w \<and> v = W_Version w then Inr w else get_workflow s n v)"
begin

fun deploy_all :: "WorkflowDef list \<Rightarrow> 's \<Rightarrow> 's" where
  "deploy_all [] s = s"
| "deploy_all (w # ws) s = deploy_all ws (register w s)"

lemma deploy_all_other:
  "\<forall>w \<in> set ws. \<not> (n = W_Name w \<and> v = W_Version w) \<Longrightarrow>
    get_workflow (deploy_all ws s) n v = get_workflow s n v"
  by (induction ws s rule: deploy_all.induct) (auto simp: get_workflow_register)

lemma deploy_all_get:
  "w \<in> set ws \<Longrightarrow> distinct (map (\<lambda>w. (W_Name w, W_Version w)) ws) \<Longrightarrow>
    get_workflow (deploy_all ws s) (W_Name w) (W_Version w) = Inr w"
proof (induction ws s rule: deploy_all.induct)
  case (1 s)
  then show ?case by simp
next
  case (2 x ws s)
  show ?case
  proof (cases "w = x")
    case True
    with 2(3) have "\<forall>w' \<in> set ws. \<not> (W_Name w = W_Name w' \<and> W_Version w = W_Version w')" by force
    with True show ?thesis by (simp add: deploy_all_other get_workflow_register)
  next
    case False
    with 2 show ?thesis by simp
  qed
qed

end

section \<open>The in-memory store keeps the contract\<close>

lemma GetTicket_SaveTicket [simp]:
  "GetTicket (SaveTicket t s) i = (if i = T_ID t then Inr t else GetTicket s i)"
  by (simp add: GetTicket_def SaveTicket_def)

lemma GetWorkflow_RegisterWorkflow [simp]:
  "GetWorkflow (RegisterWorkflow w s) n v =
    (if n = W_Name w \<and> v = W_Version w then Inr w else GetWorkflow s n v)"
  by (auto simp: GetWorkflow_def RegisterWorkflow_def Let_def split: option.splits)

lemma GetTicket_RegisterWorkflow [simp]: "GetTicket (RegisterWorkflow w s) i = GetTicket s i"
  by (simp add: GetTicket_def RegisterWorkflow_def Let_def)

lemma GetWorkflow_SaveTicket [simp]: "GetWorkflow (SaveTicket t s) n v = GetWorkflow s n v"
  by (simp add: GetWorkflow_def SaveTicket_def)

interpretation memstore: store NewInMemoryStore SaveTicket GetTicket RegisterWorkflow GetWorkflow
  by unfold_locales (simp_all add: NewInMemoryStore_def GetTicket_def GetWorkflow_def
      SaveTicket_def RegisterWorkflow_def Let_def split: option.split)

text \<open>The keys of the two maps stay distinct, so that a listing enumerates each entry once.\<close>

definition versions_ok :: "string \<Rightarrow> (string \<times> WorkflowDef) list \<Rightarrow> bool" where
  "versions_ok n vs \<longleftrightarrow> distinct (map fst vs) \<and>
     (\<forall>v w. map_of vs v = Some w \<longrightarrow> W_Name w = n \<and> W_Version w = v)"

definition store_ok :: "InMemoryStore \<Rightarrow> bool" where
  "store_ok s \<longleftrightarrow> distinct (map fst (S_tickets s)) \<and> distinct (map fst (S_workflows s)) \<and>
     (\<forall>i t. map_of (S_tickets s) i = Some t \<longrightarrow> T_ID t = i) \<and>
     (\<forall>n vs. map_of (S_workflows s) n = Some vs \<longrightarrow> versions_ok n vs)"

lemma store_okD:
  assumes "store_ok s"
  shows "distinct (map fst (S_tickets s))" "distinct (map fst (S_workflows s))"
    and "map_of (S_tickets s) i = Some t \<Longrightarrow> T_ID t = i"
    and "map_of (S_workflows s) n = Some vs \<Longrightarrow> versions_ok n vs"
  using assms unfolding store_ok_def by blast+

lemma store_ok_new: "store_ok NewInMemoryStore"
  by (simp add: store_ok_def NewInMemoryStore_def)

lemma store_ok_SaveTicket: "store_ok s \<Longrightarrow> store_ok (SaveTicket t s)"
  by (simp add: store_ok_def SaveTicket_def)

lemma versions_ok_update:
  "versions_ok (W_Name w) vs \<Longrightarrow> versions_ok (W_Name w) (AList.update (W_Version w) w vs)"
  unfolding versions_ok_def by simp

lemma store_ok_RegisterWorkflow:
  assumes "store_ok s"
  shows "store_ok (RegisterWorkflow w s)"
proof -
  let ?vs = "case map_of (S_workflows s) (W_Name w) of None \<Rightarrow> [] | Some vs \<Rightarrow> vs"
  have "versions_ok (W_Name w) ?vs"
    using assms by (cases "map_of (S_workflows s) (W_Name w)") (simp_all add: store_ok_def versions_ok_def)
  then have "versions_ok (W_Name w) (AList.update (W_Version w) w ?vs)"
    by (rule versions_ok_update)
  with assms show ?thesis
    by (simp add: store_ok_def RegisterWorkflow_def Let_def)
qed

lemma distinct_keys_map_of: "distinct (map fst m) \<Longrightarrow> (k, v) \<in> set m \<longleftrightarrow> map_of m k = Some v"
  using map_of_is_SomeI map_of_SomeD by metis

lemma ListTickets_iff:
  assumes "store_ok s"
  shows "t \<in> set (ListTickets s) \<longleftrightarrow> GetTicket s (T_ID t) = Inr t"
proof -
  have "t \<in> set (ListTickets s) \<longleftrightarrow> (\<exists>i. (i, t) \<in> set (S_tickets s))"
    by (force simp: ListTickets_def)
  also have "\<dots> \<longleftrightarrow> (\<exists>i. map_of (S_tickets s) i = Some t)"
    by (simp only: distinct_keys_map_of [OF store_okD(1) [OF assms]])
  also have "\<dots> \<longleftrightarrow> map_of (S_tickets s) (T_ID t) = Some t"
    using store_okD(3) [OF assms] by blast
  also have "\<dots> \<longleftrightarrow> GetTicket s (T_ID t) = Inr t"
    by (simp add: GetTicket_def split: option.split)
  finally show ?thesis .
qed

lemma ListWorkflows_iff:
  assumes "store_ok s"
  shows "w \<in> set (ListWorkflows s) \<longleftrightarrow> GetWorkflow s (W_Name w) (W_Version w) = Inr w"
proof
  assume "w \<in> set (ListWorkflows s)"
  then obtain n vs v where in_s: "(n, vs) \<in> set (S_workflows s)" "(v, w) \<in> set vs"
    by (auto simp: ListWorkflows_def)
  then have vs: "map_of (S_workflows s) n = Some vs"
    by (simp only: distinct_keys_map_of [OF store_okD(2) [OF assms]])
  with assms have ok: "versions_ok n vs"
    by (rule store_okD(4))
  with in_s(2) have "map_of vs v = Some w"
    by (simp add: versions_ok_def map_of_is_SomeI)
  moreover from this ok have "W_Name w = n" "W_Version w = v"
    unfolding versions_ok_def by blast+
  ultimately show "GetWorkflow s (W_Name w) (W_Version w) = Inr w"
    using vs by (simp add: GetWorkflow_def)
next
  assume "GetWorkflow s (W_Name w) (W_Version w) = Inr w"
  then obtain vs where "map_of (S_workflows s) (W_Name w) = Some vs" "map_of vs (W_Version w) = Some w"
    by (auto simp: GetWorkflow_def split: option.splits)
  then have "(W_Name w, vs) \<in> set (S_workflows s)" "(W_Version w, w) \<in> set vs"
    by (simp_all add: map_of_SomeD)
  then show "w \<in> set (ListWorkflows s)"
    by (force simp: ListWorkflows_def)
qed

lemma versions_registered:
  assumes "store_ok s"
  shows "case WorkflowVersions s n of
      Inl e \<Rightarrow> e = ErrNotFound \<and> (\<forall>v. GetWorkflow s n v = Inl ErrNotFound)
    | Inr vs \<Rightarrow> distinct vs \<and> (\<forall>v. v \<in> set vs \<longleftrightarrow> (\<exists>w. GetWorkflow s n v = Inr w))"
proof (cases "map_of (S_workflows s) n")
  case (Some vs)
  then have ok: "distinct (map fst vs)" using store_okD(4) [OF assms] by (simp add: versions_ok_def)
  have "v \<in> fst ` set vs \<longleftrightarrow> (\<exists>w. map_of vs v = Some w)" for v
    using dom_map_of_conv_image_fst [of vs] by blast
  with Some ok show ?thesis by (auto simp: WorkflowVersions_def GetWorkflow_def split: option.split)
qed (simp add: WorkflowVersions_def GetWorkflow_def)

text \<open>What a store can be: the new one, and what saving and registering make of it.\<close>

inductive store_reached :: "InMemoryStore \<Rightarrow> bool" where
  fresh: "store_reached NewInMemoryStore"
| save: "store_reached s \<Longrightarrow> store_reached (SaveTicket t s)"
| register: "store_reached s \<Longrightarrow> store_reached (RegisterWorkflow w s)"

lemma store_reached_ok: "store_reached s \<Longrightarrow> store_ok s"
  by (induction rule: store_reached.induct) (simp_all add: store_ok_new store_ok_SaveTicket store_ok_RegisterWorkflow)

section \<open>Properties\<close>

text \<open>
  (C35) The listings agree with the lookups in every state the store can reach: a ticket is
  listed exactly when its identifier looks it up, and once; a definition exactly when its name and
  version do; and the versions listed for a name are those under which a definition is found, each
  once, while for an unknown name no version finds one.
\<close>

theorem listings_match_lookups:
  assumes "store_reached s"
  shows "(t \<in> set (ListTickets s) \<longleftrightarrow> GetTicket s (T_ID t) = Inr t) \<and> distinct (map T_ID (ListTickets s)) \<and>
    (w \<in> set (ListWorkflows s) \<longleftrightarrow> GetWorkflow s (W_Name w) (W_Version w) = Inr w) \<and>
    (case WorkflowVersions s n of
       Inl e \<Rightarrow> e = ErrNotFound \<and> (\<forall>v. GetWorkflow s n v = Inl ErrNotFound)
     | Inr vs \<Rightarrow> distinct vs \<and> (\<forall>v. v \<in> set vs \<longleftrightarrow> (\<exists>w. GetWorkflow s n v = Inr w)))"
proof -
  note ok = store_reached_ok [OF assms]
  have "T_ID (snd p) = fst p" if "p \<in> set (S_tickets s)" for p
    using that store_okD(1) [OF ok] store_okD(3) [OF ok, of "fst p" "snd p"] by simp
  then have "map T_ID (ListTickets s) = map fst (S_tickets s)" by (simp add: ListTickets_def)
  with store_okD(1) [OF ok] show ?thesis
    using ListTickets_iff [OF ok] ListWorkflows_iff [OF ok] versions_registered [OF ok] by simp
qed

definition store_demo :: InMemoryStore where
  "store_demo = RegisterWorkflow \<lparr>W_Name = ''wf'', W_Version = ''2'', W_Description = [], W_Initial = [],
      W_Steps = [], W_SLAs = [], W_Routing = []\<rparr> (RegisterWorkflow \<lparr>W_Name = ''wf'', W_Version = ''1'',
      W_Description = [], W_Initial = [], W_Steps = [], W_SLAs = [], W_Routing = []\<rparr> NewInMemoryStore)"

theorem listings_match_lookups_witness:
  "\<exists>vs. WorkflowVersions store_demo ''wf'' = Inr vs \<and> ''1'' \<in> set vs \<and> ''2'' \<in> set vs \<and> ''3'' \<notin> set vs \<and> distinct vs"
proof -
  have "store_reached store_demo" unfolding store_demo_def by (intro store_reached.intros)
  from listings_match_lookups [OF this, of undefined undefined "''wf''"]
  have "case WorkflowVersions store_demo ''wf'' of
      Inl e \<Rightarrow> e = ErrNotFound \<and> (\<forall>v. GetWorkflow store_demo ''wf'' v = Inl ErrNotFound)
    | Inr vs \<Rightarrow> distinct vs \<and> (\<forall>v. v \<in> set vs \<longleftrightarrow> (\<exists>w. GetWorkflow store_demo ''wf'' v = Inr w))"
    by blast
  moreover have "\<exists>w. GetWorkflow store_demo ''wf'' ''1'' = Inr w" "\<exists>w. GetWorkflow store_demo ''wf'' ''2'' = Inr w"
    "GetWorkflow store_demo ''wf'' ''3'' = Inl ErrNotFound"
    by (simp_all add: store_demo_def memstore.get_workflow_empty)
  ultimately show ?thesis by (auto split: sum.splits)
qed

end
