(* ===== verification/WorkerPool.thy ===== *)
theory WorkerPool
  imports Model
begin

text \<open>
  The in-process task queue (engine/worker.go): a channel of capacity 1024 that Submit sends
  to and the workers receive from, and a channel that Stop closes. Where a select statement
  has two ready cases Go takes either, so the choice is an argument.
\<close>

record taskItem =
  TI_RunID :: run_id
  TI_TicketID :: ticket_id
  TI_Step :: string

record WorkerPool =
  P_tasks :: "taskItem list"
  P_workers :: nat
  P_closed :: bool

definition pool_capacity :: nat where
  "pool_capacity = 1024"

definition NewWorkerPool :: "int \<Rightarrow> WorkerPool" where
  "NewWorkerPool workers =
     (let workers = (if workers < 0 then 0 else workers)
      in \<lparr>P_tasks = [], P_workers = nat workers, P_closed = False\<rparr>)"

text \<open>No result: the sender blocks, because the channel is full and the pool is not closed.\<close>

definition Submit :: "bool \<Rightarrow> taskItem \<Rightarrow> WorkerPool \<Rightarrow> WorkerPool option" where
  "Submit prefer_close t p =
     (let room = length (P_tasks p) < pool_capacity; sent = p\<lparr>P_tasks := P_tasks p @ [t]\<rparr>
      in if room \<and> P_closed p then Some (if prefer_close then p else sent)
         else if room then Some sent
         else if P_closed p then Some p
         else None)"

text \<open>One turn of a worker's loop: it returns, waits, or takes the oldest task.\<close>

datatype turn = Return | Wait | Run taskItem

definition loop_turn :: "bool \<Rightarrow> WorkerPool \<Rightarrow> turn \<times> WorkerPool" where
  "loop_turn prefer_close p =
     (case P_tasks p of
        [] \<Rightarrow> (if P_closed p then Return else Wait, p)
      | t # ts \<Rightarrow> if P_closed p \<and> prefer_close then (Return, p)
                   else (Run t, p\<lparr>P_tasks := ts\<rparr>))"

definition Stop :: "WorkerPool \<Rightarrow> WorkerPool" where
  "Stop p = p\<lparr>P_closed := True\<rparr>"

section \<open>Properties\<close>

text \<open>\<open>queued p\<close> is what the pool promises to run; the contract of a bounded first-in first-out queue.\<close>

locale bounded_queue =
  fixes queued :: "'q \<Rightarrow> 'a list"
    and send :: "'a \<Rightarrow> 'q \<Rightarrow> 'q option"
    and receive :: "'q \<Rightarrow> ('a \<times> 'q) option"
    and capacity :: nat
    and open_q :: "'q \<Rightarrow> bool"
  assumes send_some: "open_q q \<Longrightarrow> send x q = Some q' \<Longrightarrow> queued q' = queued q @ [x] \<and> open_q q'"
    and send_full: "open_q q \<Longrightarrow> send x q = None \<longleftrightarrow> capacity \<le> length (queued q)"
    and receive_open: "open_q q \<Longrightarrow> queued q = x # xs \<Longrightarrow>
          \<exists>q'. receive q = Some (x, q') \<and> queued q' = xs \<and> open_q q'"
begin

fun send_all :: "'a list \<Rightarrow> 'q \<Rightarrow> 'q option" where
  "send_all [] q = Some q"
| "send_all (x # xs) q = (case send x q of None \<Rightarrow> None | Some q' \<Rightarrow> send_all xs q')"

fun receive_n :: "nat \<Rightarrow> 'q \<Rightarrow> 'a list" where
  "receive_n 0 q = []"
| "receive_n (Suc n) q = (case receive q of None \<Rightarrow> [] | Some (x, q') \<Rightarrow> x # receive_n n q')"

lemma send_all_queued:
  "open_q q \<Longrightarrow> send_all xs q = Some q' \<Longrightarrow> queued q' = queued q @ xs \<and> open_q q'"
proof (induction xs arbitrary: q)
  case Nil
  then show ?case by simp
next
  case (Cons x xs)
  then obtain q1 where "send x q = Some q1" "send_all xs q1 = Some q'"
    by (auto split: option.splits)
  with Cons.IH [of q1] send_some [OF Cons.prems(1), of x q1] show ?case by auto
qed

lemma send_all_iff:
  "open_q q \<Longrightarrow> (\<exists>q'. send_all xs q = Some q') \<longleftrightarrow>
    xs = [] \<or> length (queued q) + length xs \<le> capacity"
proof (induction xs arbitrary: q)
  case Nil
  then show ?case by simp
next
  case (Cons x xs)
  show ?case
  proof (cases "send x q")
    case None
    with Cons.prems send_full [of q x] show ?thesis by simp
  next
    case (Some q1)
    with send_some [OF Cons.prems Some] send_full [OF Cons.prems, of x] Cons.IH [of q1]
    show ?thesis by auto
  qed
qed

lemma receive_n_queued: "open_q q \<Longrightarrow> receive_n (length (queued q)) q = queued q"
proof (induction "queued q" arbitrary: q)
  case Nil
  then show ?case by (simp add: Nil.hyps [symmetric])
next
  case (Cons x xs)
  then obtain q' where q': "receive q = Some (x, q')" "queued q' = xs" "open_q q'"
    using receive_open [of q x xs] by auto
  with Cons.hyps(1) [of q'] show ?case by (simp add: Cons.hyps(2) [symmetric])
qed

end

definition pool_receive :: "WorkerPool \<Rightarrow> (taskItem \<times> WorkerPool) option" where
  "pool_receive p = (case loop_turn False p of (Run t, p') \<Rightarrow> Some (t, p') | _ \<Rightarrow> None)"

interpretation pool: bounded_queue P_tasks "Submit False" pool_receive pool_capacity "\<lambda>p. \<not> P_closed p"
  by unfold_locales (auto simp: Submit_def pool_receive_def loop_turn_def Let_def split: if_splits)

text \<open>
  (C37) The task queue is first-in first-out and bounded: an open pool takes any number of
  submissions up to its capacity of 1024 and blocks the sender exactly beyond it, and its
  workers then receive the tasks in the order they were submitted.
\<close>

theorem pool_fifo_bounded:
  assumes "\<not> P_closed p"
  shows "((\<exists>q. pool.send_all ts p = Some q) \<longleftrightarrow>
       ts = [] \<or> length (P_tasks p) + length ts \<le> 1024) \<and>
    (\<forall>q. pool.send_all ts p = Some q \<longrightarrow>
       pool.receive_n (length (P_tasks p) + length ts) q = P_tasks p @ ts)"
proof (intro conjI allI impI)
  show "(\<exists>q. pool.send_all ts p = Some q) \<longleftrightarrow> ts = [] \<or> length (P_tasks p) + length ts \<le> 1024"
    using pool.send_all_iff [OF assms] by (simp add: pool_capacity_def)
  fix q
  assume "pool.send_all ts p = Some q"
  with pool.send_all_queued [OF assms] have "P_tasks q = P_tasks p @ ts" "\<not> P_closed q" by auto
  with pool.receive_n_queued [of q]
  show "pool.receive_n (length (P_tasks p) + length ts) q = P_tasks p @ ts" by simp
qed

theorem pool_fifo_bounded_witness:
  "\<exists>q. pool.send_all [\<lparr>TI_RunID = ''r'', TI_TicketID = ''t'', TI_Step = ''a''\<rparr>,
      \<lparr>TI_RunID = ''r'', TI_TicketID = ''t'', TI_Step = ''b''\<rparr>] (NewWorkerPool 4) = Some q"
  using pool_fifo_bounded [of "NewWorkerPool 4"
      "[\<lparr>TI_RunID = ''r'', TI_TicketID = ''t'', TI_Step = ''a''\<rparr>,
        \<lparr>TI_RunID = ''r'', TI_TicketID = ''t'', TI_Step = ''b''\<rparr>]"]
  by (simp add: NewWorkerPool_def)

text \<open>
  Stopping the pool abandons queued work: a worker that turns to a closed pool may return
  with every queued task still in the channel, and every later submission may be dropped, so
  what was queued is recovered from the event log only.
\<close>

lemma stop_abandons_queue:
  "loop_turn True (Stop p) = (Return, Stop p) \<and> Submit True t (Stop p) = Some (Stop p)"
  by (simp add: loop_turn_def Stop_def Submit_def Let_def split: list.split)

end
