(* ===== verification/Replay.thy ===== *)
theory Replay
  imports Model
begin

text \<open>
  Deriving a run's state from its events (\<open>applyAll\<close>, \<open>applyOne\<close> and \<open>ensureStep\<close> of
  engine/engine.go). The abstract specification is a family of small machines that do not
  interact: one per step (\<open>step_upd\<close>), one for the run's status, one for its failure flag;
  replay is shown to run them side by side.
\<close>

section \<open>The code\<close>

definition step_kind :: "WorkflowDef \<Rightarrow> string \<Rightarrow> StepKind" where
  "step_kind def name = (case Step def name of Some sd \<Rightarrow> SD_Kind sd | None \<Rightarrow> KindTask)"

definition new_step :: "WorkflowDef \<Rightarrow> string \<Rightarrow> StepStatus \<Rightarrow> StepState" where
  "new_step def name status =
     \<lparr>SS_Name = name, SS_Kind = step_kind def name, SS_Status = status, SS_Attempt = 0,
      SS_Output = None, SS_Error = [], SS_DueAt = None, SS_Approval = None\<rparr>"

definition put_step :: "string \<Rightarrow> StepState \<Rightarrow> WorkflowRun \<Rightarrow> WorkflowRun" where
  "put_step name st run = run\<lparr>R_Steps := AList.update name st (R_Steps run)\<rparr>"

text \<open>The step state, created with the given status if new, and the run that holds it.\<close>

definition ensureStep :: "WorkflowRun \<Rightarrow> string \<Rightarrow> WorkflowDef \<Rightarrow> StepStatus \<Rightarrow> StepState \<times> WorkflowRun" where
  "ensureStep run name def status =
     (case step_of run name of
        Some st \<Rightarrow> (st, run)
      | None \<Rightarrow> (let st = new_step def name status in (st, put_step name st run)))"

text \<open>Writing through the pointer that ensureStep returns.\<close>

definition with_step ::
  "WorkflowRun \<Rightarrow> string \<Rightarrow> WorkflowDef \<Rightarrow> StepStatus \<Rightarrow> (StepState \<Rightarrow> StepState) \<Rightarrow> WorkflowRun" where
  "with_step run name def status f =
     (case ensureStep run name def status of (st, run) \<Rightarrow> put_step name (f st) run)"

definition merge_output :: "goobj option \<Rightarrow> goobj option \<Rightarrow> goobj option" where
  "merge_output out p =
     (let out = (case out of None \<Rightarrow> [] | Some m \<Rightarrow> m)
      in Some (fold (\<lambda>(k, v) m. AList.update k v m) (case p of None \<Rightarrow> [] | Some m \<Rightarrow> m) out))"

fun apply_payload :: "WorkflowDef \<Rightarrow> time \<Rightarrow> payload \<Rightarrow> WorkflowRun \<Rightarrow> WorkflowRun" where
  "apply_payload def tm (TicketCreated t) run =
     (let run = run\<lparr>R_TicketID := T_ID t, R_Workflow := T_Workflow t, R_WorkflowVer := T_WorkflowVer t\<rparr>
      in if R_CreatedAt run = zero_time \<or> tm < R_CreatedAt run then run\<lparr>R_CreatedAt := tm\<rparr> else run)"
| "apply_payload def tm (RunStarted r first) run =
     (let run = run\<lparr>R_Status := RunStatusActive, R_Current := first\<rparr>
      in snd (ensureStep run first def StepPending))"
| "apply_payload def tm (StepScheduled step kind due) run =
     with_step run step def StepPending (\<lambda>st.
       let st = st\<lparr>SS_Status := (case kind of KindApproval \<Rightarrow> StepWaiting
                                  | KindDelay \<Rightarrow> StepWaiting | _ \<Rightarrow> StepPending)\<rparr>
       in if due \<noteq> zero_time then st\<lparr>SS_DueAt := Some due\<rparr> else st)"
| "apply_payload def tm (StepStarted step) run =
     with_step run step def StepRunning (\<lambda>st.
       st\<lparr>SS_Status := StepRunning, SS_Attempt := SS_Attempt st + 1\<rparr>)"
| "apply_payload def tm (StepCompletedP step out) run =
     (let run = with_step run step def StepCompleted (\<lambda>st.
          let st = st\<lparr>SS_Status := StepCompleted\<rparr>
          in if out \<noteq> None then st\<lparr>SS_Output := out\<rparr> else st)
      in run\<lparr>R_Output := merge_output (R_Output run) out\<rparr>)"
| "apply_payload def tm (StepFailedP step reason att) run =
     with_step run step def StepFailed (\<lambda>st. st\<lparr>SS_Status := StepFailed, SS_Error := reason\<rparr>)"
| "apply_payload def tm (TimerFired step) run = run"
| "apply_payload def tm (ApprovalRequested step idx role user chain_len) run =
     with_step run step def StepWaiting (\<lambda>st.
       (case SS_Approval st of
          None \<Rightarrow> st\<lparr>SS_Approval := Some \<lparr>AS_Chain = approvalChain def step, AS_Index = idx,
                     AS_Status = Pending, AS_DecidedBy = []\<rparr>\<rparr>
        | Some a \<Rightarrow> st\<lparr>SS_Approval := Some (a\<lparr>AS_Index := idx, AS_Status := Pending\<rparr>)\<rparr>)
       \<lparr>SS_Status := StepWaiting\<rparr>)"
| "apply_payload def tm (ApprovalGranted step idx who) run =
     with_step run step def StepWaiting (\<lambda>st.
       case SS_Approval st of
          None \<Rightarrow> st
        | Some a \<Rightarrow> st\<lparr>SS_Approval := Some (a\<lparr>AS_Status := Granted, AS_DecidedBy := who\<rparr>)\<rparr>)"
| "apply_payload def tm (ApprovalRejected step idx who reason) run =
     with_step run step def StepWaiting (\<lambda>st.
       (case SS_Approval st of
          None \<Rightarrow> st
        | Some a \<Rightarrow> st\<lparr>SS_Approval := Some (a\<lparr>AS_Status := Rejected, AS_DecidedBy := who\<rparr>)\<rparr>)
       \<lparr>SS_Status := StepFailed, SS_Error := ''rejected: '' @ reason\<rparr>)"
| "apply_payload def tm (SLABreached name step) run = run"
| "apply_payload def tm (TicketAssigned queue assignee prio rule) run = run"
| "apply_payload def tm (RunCompleted last_step) run = run\<lparr>R_Status := RunStatusCompleted\<rparr>"
| "apply_payload def tm (RunFailed last_step reason) run =
     run\<lparr>R_Status := RunStatusFailed, R_Failed := True\<rparr>"
| "apply_payload def tm (RunCancelled reason) run = run\<lparr>R_Status := RunStatusCancelled\<rparr>"
| "apply_payload def tm (RunFailing last_step reason) run = run\<lparr>R_Failed := True\<rparr>"

definition applyOne :: "WorkflowDef \<Rightarrow> WorkflowRun \<Rightarrow> Event \<Rightarrow> WorkflowRun" where
  "applyOne def run ev =
     (let run = apply_payload def (E_At ev) (E_Payload ev) run
      in if R_UpdatedAt run < E_At ev then run\<lparr>R_UpdatedAt := E_At ev\<rparr> else run)"

fun applyAll :: "WorkflowRun \<Rightarrow> WorkflowDef \<Rightarrow> Event list \<Rightarrow> WorkflowRun" where
  "applyAll run def [] = run"
| "applyAll run def (ev # events) = applyAll (applyOne def run ev) def events"

text \<open>The run that GetRun starts from.\<close>

definition new_run :: "run_id \<Rightarrow> ticket_id \<Rightarrow> WorkflowRun" where
  "new_run r t = \<lparr>R_ID = r, R_TicketID = t, R_Workflow = [], R_WorkflowVer = [],
     R_Status = RunStatusNone, R_Current = [], R_Steps = [], R_Output = None, R_Failed = False,
     R_CreatedAt = zero_time, R_UpdatedAt = zero_time\<rparr>"

section \<open>Lookups after an event\<close>

lemma applyAll_append: "applyAll run def (xs @ ys) = applyAll (applyAll run def xs) def ys"
  by (induction xs arbitrary: run) simp_all

lemma step_of_put_step [simp]:
  "step_of (put_step n st run) m = (if m = n then Some st else step_of run m)"
  by (simp add: step_of_def put_step_def)

lemma put_step_fields [simp]:
  "R_ID (put_step n st run) = R_ID run" "R_TicketID (put_step n st run) = R_TicketID run"
  "R_Workflow (put_step n st run) = R_Workflow run"
  "R_WorkflowVer (put_step n st run) = R_WorkflowVer run"
  "R_Status (put_step n st run) = R_Status run" "R_Current (put_step n st run) = R_Current run"
  "R_Output (put_step n st run) = R_Output run" "R_Failed (put_step n st run) = R_Failed run"
  "R_CreatedAt (put_step n st run) = R_CreatedAt run"
  "R_UpdatedAt (put_step n st run) = R_UpdatedAt run"
  by (simp_all add: put_step_def)

lemma ensureStep_fields [simp]:
  "R_ID (snd (ensureStep run n def s)) = R_ID run"
  "R_TicketID (snd (ensureStep run n def s)) = R_TicketID run"
  "R_Workflow (snd (ensureStep run n def s)) = R_Workflow run"
  "R_WorkflowVer (snd (ensureStep run n def s)) = R_WorkflowVer run"
  "R_Status (snd (ensureStep run n def s)) = R_Status run"
  "R_Current (snd (ensureStep run n def s)) = R_Current run"
  "R_Output (snd (ensureStep run n def s)) = R_Output run"
  "R_Failed (snd (ensureStep run n def s)) = R_Failed run"
  "R_CreatedAt (snd (ensureStep run n def s)) = R_CreatedAt run"
  "R_UpdatedAt (snd (ensureStep run n def s)) = R_UpdatedAt run"
  by (simp_all add: ensureStep_def Let_def split: option.split)

lemma with_step_eq:
  "with_step run n def s f = put_step n (f (fst (ensureStep run n def s))) (snd (ensureStep run n def s))"
  by (simp add: with_step_def split: prod.split)

definition ensured :: "WorkflowDef \<Rightarrow> string \<Rightarrow> StepStatus \<Rightarrow> StepState option \<Rightarrow> StepState" where
  "ensured def n s st = (case st of None \<Rightarrow> new_step def n s | Some st \<Rightarrow> st)"

lemma ensured_simps [simp]: "ensured def n s None = new_step def n s" "ensured def n s (Some st) = st"
  by (simp_all add: ensured_def)

lemma fst_ensureStep [simp]: "fst (ensureStep run n def s) = ensured def n s (step_of run n)"
  by (simp add: ensureStep_def ensured_def Let_def split: option.split)

lemma step_of_ensureStep [simp]:
  "step_of (snd (ensureStep run n def s)) m =
    (if m = n then Some (ensured def n s (step_of run n)) else step_of run m)"
  by (simp add: ensureStep_def ensured_def Let_def split: option.split)

lemma step_of_with_step [simp]:
  "step_of (with_step run n def s f) m =
    (if m = n then Some (f (ensured def n s (step_of run n))) else step_of run m)"
  by (simp add: with_step_eq)

lemma with_step_fields [simp]:
  "R_ID (with_step run n def s f) = R_ID run" "R_TicketID (with_step run n def s f) = R_TicketID run"
  "R_Workflow (with_step run n def s f) = R_Workflow run"
  "R_WorkflowVer (with_step run n def s f) = R_WorkflowVer run"
  "R_Status (with_step run n def s f) = R_Status run"
  "R_Current (with_step run n def s f) = R_Current run"
  "R_Output (with_step run n def s f) = R_Output run" "R_Failed (with_step run n def s f) = R_Failed run"
  "R_CreatedAt (with_step run n def s f) = R_CreatedAt run"
  "R_UpdatedAt (with_step run n def s f) = R_UpdatedAt run"
  by (simp_all add: with_step_eq)

lemma step_of_update [simp]:
  "step_of (run\<lparr>R_TicketID := x1\<rparr>) m = step_of run m" "step_of (run\<lparr>R_Workflow := x2\<rparr>) m = step_of run m"
  "step_of (run\<lparr>R_WorkflowVer := x3\<rparr>) m = step_of run m" "step_of (run\<lparr>R_Status := x4\<rparr>) m = step_of run m"
  "step_of (run\<lparr>R_Current := x5\<rparr>) m = step_of run m" "step_of (run\<lparr>R_Output := x6\<rparr>) m = step_of run m"
  "step_of (run\<lparr>R_Failed := x7\<rparr>) m = step_of run m" "step_of (run\<lparr>R_CreatedAt := x8\<rparr>) m = step_of run m"
  "step_of (run\<lparr>R_UpdatedAt := x9\<rparr>) m = step_of run m"
  by (simp_all add: step_of_def)

section \<open>One machine per step\<close>

definition due_upd :: "time \<Rightarrow> StepState \<Rightarrow> StepState" where
  "due_upd due st = (if due \<noteq> zero_time then st\<lparr>SS_DueAt := Some due\<rparr> else st)"

fun scheduled_status :: "StepKind \<Rightarrow> StepStatus" where
  "scheduled_status KindApproval = StepWaiting"
| "scheduled_status KindDelay = StepWaiting"
| "scheduled_status _ = StepPending"

definition decide :: "ApprovalStatus \<Rightarrow> string \<Rightarrow> StepState \<Rightarrow> StepState" where
  "decide s who st = st\<lparr>SS_Approval :=
     map_option (\<lambda>a. a\<lparr>AS_Status := s, AS_DecidedBy := who\<rparr>) (SS_Approval st)\<rparr>"

definition request :: "WorkflowDef \<Rightarrow> string \<Rightarrow> int \<Rightarrow> StepState \<Rightarrow> StepState" where
  "request def n idx st = st\<lparr>SS_Status := StepWaiting, SS_Approval := Some
     (case SS_Approval st of
        None \<Rightarrow> \<lparr>AS_Chain = approvalChain def n, AS_Index = idx, AS_Status = Pending, AS_DecidedBy = []\<rparr>
      | Some a \<Rightarrow> a\<lparr>AS_Index := idx, AS_Status := Pending\<rparr>)\<rparr>"

fun step_upd :: "WorkflowDef \<Rightarrow> string \<Rightarrow> payload \<Rightarrow> StepState option \<Rightarrow> StepState option" where
  "step_upd def n (RunStarted r first) st =
     (if first = n then Some (ensured def n StepPending st) else st)"
| "step_upd def n (StepScheduled m kind due) st =
     (if m = n then Some (due_upd due ((ensured def n StepPending st)
        \<lparr>SS_Status := scheduled_status kind\<rparr>)) else st)"
| "step_upd def n (StepStarted m) st =
     (if m = n then Some ((ensured def n StepRunning st)
        \<lparr>SS_Status := StepRunning, SS_Attempt := SS_Attempt (ensured def n StepRunning st) + 1\<rparr>) else st)"
| "step_upd def n (StepCompletedP m out) st =
     (if m = n then Some ((ensured def n StepCompleted st)\<lparr>SS_Status := StepCompleted,
        SS_Output := (if out = None then SS_Output (ensured def n StepCompleted st) else out)\<rparr>) else st)"
| "step_upd def n (StepFailedP m reason att) st =
     (if m = n then Some ((ensured def n StepFailed st)
        \<lparr>SS_Status := StepFailed, SS_Error := reason\<rparr>) else st)"
| "step_upd def n (ApprovalRequested m idx role user chain_len) st =
     (if m = n then Some (request def n idx (ensured def n StepWaiting st)) else st)"
| "step_upd def n (ApprovalGranted m idx who) st =
     (if m = n then Some (decide Granted who (ensured def n StepWaiting st)) else st)"
| "step_upd def n (ApprovalRejected m idx who reason) st =
     (if m = n then Some ((decide Rejected who (ensured def n StepWaiting st))
        \<lparr>SS_Status := StepFailed, SS_Error := ''rejected: '' @ reason\<rparr>) else st)"
| "step_upd def n _ st = st"

lemma step_of_apply_payload:
  "step_of (apply_payload def tm p run) n = step_upd def n p (step_of run n)"
proof (cases p)
  case (StepScheduled m kind due)
  then show ?thesis
    by (cases kind) (simp_all add: Let_def due_upd_def)
qed (auto simp: Let_def decide_def request_def split: option.split)

lemma step_of_applyOne: "step_of (applyOne def run ev) n = step_upd def n (E_Payload ev) (step_of run n)"
  by (simp add: applyOne_def Let_def step_of_apply_payload)

definition payloads :: "Event list \<Rightarrow> payload list" where
  "payloads es = map E_Payload es"

lemma payloads_simps [simp]:
  "payloads [] = []" "payloads (e # es) = E_Payload e # payloads es"
  "payloads (xs @ ys) = payloads xs @ payloads ys" "length (payloads es) = length es"
  by (simp_all add: payloads_def)

lemma step_of_applyAll:
  "step_of (applyAll run def es) n = fold (step_upd def n) (payloads es) (step_of run n)"
  by (induction es arbitrary: run) (simp_all add: step_of_applyOne)

section \<open>Status, failure flag and the other fields\<close>

fun status_upd :: "payload \<Rightarrow> RunStatus \<Rightarrow> RunStatus" where
  "status_upd (RunStarted r f) s = RunStatusActive"
| "status_upd (RunCompleted l) s = RunStatusCompleted"
| "status_upd (RunFailed l r) s = RunStatusFailed"
| "status_upd (RunCancelled r) s = RunStatusCancelled"
| "status_upd _ s = s"

fun failing :: "payload \<Rightarrow> bool" where
  "failing (RunFailed l r) = True"
| "failing (RunFailing l r) = True"
| "failing _ = False"

lemma R_Status_apply_payload: "R_Status (apply_payload def tm p run) = status_upd p (R_Status run)"
  by (cases p) (simp_all add: Let_def)

lemma R_Status_applyAll: "R_Status (applyAll run def es) = fold status_upd (payloads es) (R_Status run)"
  by (induction es arbitrary: run) (simp_all add: applyOne_def Let_def R_Status_apply_payload)

lemma R_Failed_apply_payload: "R_Failed (apply_payload def tm p run) \<longleftrightarrow> R_Failed run \<or> failing p"
  by (cases p) (simp_all add: Let_def)

lemma R_Failed_applyAll:
  "R_Failed (applyAll run def es) \<longleftrightarrow> R_Failed run \<or> (\<exists>p \<in> set (payloads es). failing p)"
  by (induction es arbitrary: run) (auto simp: applyOne_def Let_def R_Failed_apply_payload)

lemma R_ID_apply_payload [simp]: "R_ID (apply_payload def tm p run) = R_ID run"
  by (cases p) (simp_all add: Let_def)

lemma R_ID_applyAll [simp]: "R_ID (applyAll run def es) = R_ID run"
  by (induction es arbitrary: run) (simp_all add: applyOne_def Let_def)

lemma R_UpdatedAt_apply_payload [simp]: "R_UpdatedAt (apply_payload def tm p run) = R_UpdatedAt run"
  by (cases p) (simp_all add: Let_def)

lemma R_UpdatedAt_applyOne: "R_UpdatedAt (applyOne def run ev) = max (R_UpdatedAt run) (E_At ev)"
  by (simp add: applyOne_def Let_def)

lemma R_UpdatedAt_applyAll:
  "R_UpdatedAt (applyAll run def es) = fold max (map E_At es) (R_UpdatedAt run)"
  by (induction es arbitrary: run) (simp_all add: R_UpdatedAt_applyOne max.commute)

definition ticket_ident :: "WorkflowRun \<Rightarrow> ticket_id \<times> string \<times> string" where
  "ticket_ident run = (R_TicketID run, R_Workflow run, R_WorkflowVer run)"

fun ident_upd :: "payload \<Rightarrow> ticket_id \<times> string \<times> string \<Rightarrow> ticket_id \<times> string \<times> string" where
  "ident_upd (TicketCreated t) i = (T_ID t, T_Workflow t, T_WorkflowVer t)"
| "ident_upd _ i = i"

lemma ticket_ident_applyAll:
  "ticket_ident (applyAll run def es) = fold ident_upd (payloads es) (ticket_ident run)"
proof (induction es arbitrary: run)
  case Nil
  show ?case by simp
next
  case (Cons e es)
  have "ticket_ident (applyOne def run e) = ident_upd (E_Payload e) (ticket_ident run)"
    by (cases "E_Payload e") (simp_all add: applyOne_def ticket_ident_def Let_def)
  with Cons show ?case by simp
qed

text \<open>The identity of the run is that of the last ticket created.\<close>

fun created_tickets :: "payload list \<Rightarrow> Ticket list" where
  "created_tickets [] = []"
| "created_tickets (TicketCreated t # ps) = t # created_tickets ps"
| "created_tickets (_ # ps) = created_tickets ps"

lemma fold_ident_upd:
  "fold ident_upd ps i = (case created_tickets ps of [] \<Rightarrow> i
     | tks \<Rightarrow> (T_ID (last tks), T_Workflow (last tks), T_WorkflowVer (last tks)))"
  by (induction ps arbitrary: i rule: created_tickets.induct) (simp_all split: list.split)

section \<open>Well-formed runs\<close>

text \<open>
  Keys are distinct, each step state carries its own key as its name and the kind its
  definition declares, and attempts are counted from zero.
\<close>

definition run_ok :: "WorkflowDef \<Rightarrow> WorkflowRun \<Rightarrow> bool" where
  "run_ok def run \<longleftrightarrow> distinct (map fst (R_Steps run)) \<and>
     (\<forall>n st. step_of run n = Some st \<longrightarrow>
        SS_Name st = n \<and> SS_Kind st = step_kind def n \<and> 0 \<le> SS_Attempt st)"

definition step_ok :: "WorkflowDef \<Rightarrow> string \<Rightarrow> StepState \<Rightarrow> bool" where
  "step_ok def n st \<longleftrightarrow> SS_Name st = n \<and> SS_Kind st = step_kind def n \<and> 0 \<le> SS_Attempt st"

lemma run_ok_step_ok:
  "run_ok def run \<longleftrightarrow> distinct (map fst (R_Steps run)) \<and>
     (\<forall>n. pred_option (step_ok def n) (step_of run n))"
  by (auto simp: run_ok_def step_ok_def pred_option_def split: option.splits)

lemma step_ok_ensured: "pred_option (step_ok def n) st \<Longrightarrow> step_ok def n (ensured def n s st)"
  by (cases st) (simp_all add: step_ok_def new_step_def)

lemma step_ok_upd: "pred_option (step_ok def n) st \<Longrightarrow> pred_option (step_ok def n) (step_upd def n p st)"
  using step_ok_ensured [of def n st]
  by (cases p) (auto simp: step_ok_def decide_def request_def due_upd_def)

lemma distinct_with_step:
  "distinct (map fst (R_Steps run)) \<Longrightarrow> distinct (map fst (R_Steps (with_step run n def s f)))"
  by (simp add: with_step_def ensureStep_def put_step_def Let_def split: option.split prod.split)

lemma distinct_ensureStep:
  "distinct (map fst (R_Steps run)) \<Longrightarrow> distinct (map fst (R_Steps (snd (ensureStep run n def s))))"
  by (simp add: ensureStep_def put_step_def Let_def split: option.split)

lemma run_ok_applyOne: "run_ok def run \<Longrightarrow> run_ok def (applyOne def run ev)"
proof -
  assume ok: "run_ok def run"
  then have d: "distinct (map fst (R_Steps run))" by (simp add: run_ok_def)
  have "distinct (map fst (R_Steps (apply_payload def (E_At ev) (E_Payload ev) run)))"
    using d distinct_with_step [OF d] distinct_ensureStep
    by (cases "E_Payload ev") (simp_all add: Let_def)
  then have "distinct (map fst (R_Steps (applyOne def run ev)))"
    by (simp add: applyOne_def Let_def)
  moreover have "pred_option (step_ok def n) (step_of (applyOne def run ev) n)" for n
    using ok by (simp add: step_of_applyOne run_ok_step_ok step_ok_upd)
  ultimately show ?thesis by (simp add: run_ok_step_ok)
qed

lemma run_ok_applyAll: "run_ok def run \<Longrightarrow> run_ok def (applyAll run def es)"
  by (induction es arbitrary: run) (simp_all add: run_ok_applyOne)

lemma run_ok_new: "run_ok def (new_run r t)"
  by (simp add: run_ok_def new_run_def step_of_def)

lemma new_run_fields [simp]:
  "R_ID (new_run r t) = r" "R_TicketID (new_run r t) = t" "R_Status (new_run r t) = RunStatusNone"
  "R_Failed (new_run r t) = False" "R_Output (new_run r t) = None"
  "R_CreatedAt (new_run r t) = 0" "R_UpdatedAt (new_run r t) = 0" "step_of (new_run r t) n = None"
  by (simp_all add: new_run_def step_of_def)

section \<open>Properties\<close>

text \<open>
  (C11) Replay is the product of independent machines: the state of a step depends only on the
  events of that step, run through the machine \<open>step_upd\<close>; the status of the run is decided by
  its life-cycle events alone; the run is on a failure path exactly when its history
  holds a RUN_FAILED or a RUN_FAILING event; its identifier is the one it was asked for, and its
  ticket and workflow are those of the last TICKET_CREATED event, or as given when there is none.
\<close>

theorem replay_refines_machines:
  "step_of (applyAll (new_run r t) def es) n = fold (step_upd def n) (payloads es) None \<and>
   R_Status (applyAll (new_run r t) def es) = fold status_upd (payloads es) RunStatusNone \<and>
   (R_Failed (applyAll (new_run r t) def es) \<longleftrightarrow> (\<exists>p. p \<in> set (payloads es) \<and> failing p)) \<and>
   R_ID (applyAll (new_run r t) def es) = r \<and>
   (case created_tickets (payloads es) of
      [] \<Rightarrow> ticket_ident (applyAll (new_run r t) def es) = (t, [], [])
    | tks \<Rightarrow> ticket_ident (applyAll (new_run r t) def es) =
        (T_ID (last tks), T_Workflow (last tks), T_WorkflowVer (last tks)))"
proof -
  have "ticket_ident (new_run r t) = (t, [], [])" by (simp add: ticket_ident_def new_run_def)
  then show ?thesis
    by (auto simp: step_of_applyAll R_Status_applyAll R_Failed_applyAll ticket_ident_applyAll fold_ident_upd
        split: list.split)
qed

definition attempts :: "WorkflowRun \<Rightarrow> string \<Rightarrow> int" where
  "attempts run n = (case step_of run n of None \<Rightarrow> 0 | Some st \<Rightarrow> SS_Attempt st)"

lemma attempts_step_upd:
  "(case step_upd def n p st of None \<Rightarrow> 0 | Some st \<Rightarrow> SS_Attempt st) =
    (case st of None \<Rightarrow> 0 | Some st \<Rightarrow> SS_Attempt st) + (if p = StepStarted n then 1 else 0)"
  by (cases p; cases st) (auto simp: new_step_def due_upd_def decide_def request_def)

lemma attempts_applyAll:
  "attempts (applyAll run def es) n =
    attempts run n + int (length (filter (\<lambda>p. p = StepStarted n) (payloads es)))"
proof (induction es arbitrary: run)
  case Nil
  show ?case by simp
next
  case (Cons e es)
  have "attempts (applyOne def run e) n = attempts run n + (if E_Payload e = StepStarted n then 1 else 0)"
    by (simp add: attempts_def step_of_applyOne attempts_step_upd)
  with Cons show ?case by simp
qed

text \<open>
  (C36) The attempt counter of a step is the number of STEP_STARTED events of that step in the
  history, whatever other events are interleaved; failures and reschedulings do not count.
\<close>

theorem attempts_count_starts:
  "attempts (applyAll (new_run r t) def es) n =
    int (length (filter (\<lambda>p. p = StepStarted n) (payloads es)))"
  by (simp add: attempts_applyAll attempts_def [of "new_run r t"])

lemma fold_max_Max: "fold max xs (a :: int) = Max (insert a (set xs))"
  by (simp only: Max.set_eq_fold [symmetric] list.set)

text \<open>
  The updated time of a run is the latest time of its events, in whatever order the
  events carry their times.
\<close>

lemma replay_updated_at:
  "R_UpdatedAt (applyAll (new_run r t) def es) = Max (insert 0 (E_At ` set es))"
  by (simp add: R_UpdatedAt_applyAll fold_max_Max)

end
