(* ===== verification/Routing.thy ===== *)
theory Routing
  imports Model
begin

text \<open>
  Rule-based ticket assignment (engine/routing.go): \<open>Apply\<close> takes the first rule whose
  condition the ticket's fields match and sets queue, assignee and priority from it.
  \<open>first_match\<close> is the abstract specification: the index of the first matching rule.
\<close>

section \<open>The code\<close>

definition fields_of :: "goobj option \<Rightarrow> goobj" where
  "fields_of f = (case f of None \<Rightarrow> [] | Some m \<Rightarrow> m)"

fun matchRule_loop :: "goobj \<Rightarrow> goobj \<Rightarrow> bool" where
  "matchRule_loop flds [] = True"
| "matchRule_loop flds ((k, want) # cond) =
     (case map_of flds k of
        None \<Rightarrow> False
      | Some got \<Rightarrow> if \<not> equal got want then False else matchRule_loop flds cond)"

definition matchRule :: "goobj \<Rightarrow> goobj \<Rightarrow> bool" where
  "matchRule flds cond = (if length cond = 0 then False else matchRule_loop flds cond)"

definition apply_rule :: "Ticket \<Rightarrow> nat \<Rightarrow> RoutingRule \<Rightarrow> Ticket" where
  "apply_rule t i rule =
     (let t = (if RR_Queue rule \<noteq> [] then t\<lparr>T_Queue := RR_Queue rule\<rparr> else t);
          t = (if RR_Assignee rule \<noteq> [] then t\<lparr>T_Assignee := RR_Assignee rule\<rparr> else t);
          t = (if RR_Priority rule \<noteq> [] then t\<lparr>T_Priority := RR_Priority rule\<rparr> else t)
      in t\<lparr>T_Fields := Some (AList.update ''_routed_by'' (VInt (int i)) (fields_of (T_Fields t)))\<rparr>)"

fun Apply_loop :: "nat \<Rightarrow> Ticket \<Rightarrow> RoutingRule list \<Rightarrow> Ticket" where
  "Apply_loop i t [] = t"
| "Apply_loop i t (rule # rules) =
     (if matchRule (fields_of (T_Fields t)) (RR_If rule) then apply_rule t i rule
      else Apply_loop (Suc i) t rules)"

definition Apply :: "Ticket \<Rightarrow> RoutingRule list \<Rightarrow> Ticket" where
  "Apply t rules = Apply_loop 0 t rules"

section \<open>Conditions\<close>

lemma matchRule_loop_iff:
  "matchRule_loop flds cond \<longleftrightarrow>
    (\<forall>(k, want) \<in> set cond. \<exists>got. map_of flds k = Some got \<and> equal got want)"
  by (induction flds cond rule: matchRule_loop.induct) (auto split: option.splits)

lemma matchRule_iff:
  "matchRule flds cond \<longleftrightarrow> cond \<noteq> [] \<and>
    (\<forall>(k, want) \<in> set cond. \<exists>got. map_of flds k = Some got \<and> equal got want)"
  by (simp add: matchRule_def matchRule_loop_iff)

lemma matchRule_set_cong: "set cond = set cond' \<Longrightarrow> matchRule flds cond = matchRule flds cond'"
  by (auto simp: matchRule_iff)

lemma matchRule_fields_cong:
  "(\<And>k. k \<in> fst ` set cond \<Longrightarrow> map_of flds k = map_of flds' k) \<Longrightarrow>
    matchRule flds cond = matchRule flds' cond"
  by (force simp: matchRule_iff)

lemma equal_int_float: "in_int64 i \<Longrightarrow> equal (VInt i) (VFloat64 (Fin j 0)) \<longleftrightarrow> in_int64 j \<and> i = j \<or>
    \<not> in_int64 j \<and> FormatInt i = FormatFloat64 (Fin j 0)"
  by (auto simp: equal_def FormatInt_inject float_val_def)

lemma equal_int_int: "equal (VInt i) (VInt j) \<longleftrightarrow> i = j"
  by (simp add: equal_def FormatInt_inject)

section \<open>The first matching rule\<close>

fun first_match :: "goobj \<Rightarrow> RoutingRule list \<Rightarrow> nat option" where
  "first_match flds [] = None"
| "first_match flds (r # rs) =
     (if matchRule flds (RR_If r) then Some 0 else map_option Suc (first_match flds rs))"

lemma first_match_Some_iff:
  "first_match flds rs = Some i \<longleftrightarrow>
    i < length rs \<and> matchRule flds (RR_If (rs ! i)) \<and>
    (\<forall>j < i. \<not> matchRule flds (RR_If (rs ! j)))"
proof (induction rs arbitrary: i)
  case Nil
  show ?case by simp
next
  case (Cons r rs)
  then show ?case
    by (cases i) (auto simp: All_less_Suc2)
qed

lemma first_match_None_iff:
  "first_match flds rs = None \<longleftrightarrow> (\<forall>r \<in> set rs. \<not> matchRule flds (RR_If r))"
  by (induction rs) auto

lemma first_match_cong:
  "(\<And>r. r \<in> set rs \<Longrightarrow> matchRule f (RR_If r) = matchRule g (RR_If r)) \<Longrightarrow>
    first_match f rs = first_match g rs"
  by (induction rs) auto

lemma Apply_loop_first_match:
  "Apply_loop n t rules =
    (case first_match (fields_of (T_Fields t)) rules of
       None \<Rightarrow> t | Some i \<Rightarrow> apply_rule t (n + i) (rules ! i))"
  by (induction n t rules rule: Apply_loop.induct) (auto split: option.splits)

lemma Apply_first_match:
  "Apply t rules =
    (case first_match (fields_of (T_Fields t)) rules of
       None \<Rightarrow> t | Some i \<Rightarrow> apply_rule t i (rules ! i))"
  by (simp add: Apply_def Apply_loop_first_match split: option.split)

lemma apply_rule_fields:
  "T_Queue (apply_rule t i r) = (if RR_Queue r = [] then T_Queue t else RR_Queue r)"
  "T_Assignee (apply_rule t i r) = (if RR_Assignee r = [] then T_Assignee t else RR_Assignee r)"
  "T_Priority (apply_rule t i r) = (if RR_Priority r = [] then T_Priority t else RR_Priority r)"
  "T_Fields (apply_rule t i r) =
     Some (AList.update ''_routed_by'' (VInt (int i)) (fields_of (T_Fields t)))"
  "T_ID (apply_rule t i r) = T_ID t"
  "T_Workflow (apply_rule t i r) = T_Workflow t"
  "T_WorkflowVer (apply_rule t i r) = T_WorkflowVer t"
  "T_Title (apply_rule t i r) = T_Title t"
  "T_CreatedAt (apply_rule t i r) = T_CreatedAt t"
  "T_UpdatedAt (apply_rule t i r) = T_UpdatedAt t"
  by (simp_all add: apply_rule_def Let_def)

lemma Apply_frame [simp]:
  "T_ID (Apply t rules) = T_ID t"
  "T_Workflow (Apply t rules) = T_Workflow t"
  "T_WorkflowVer (Apply t rules) = T_WorkflowVer t"
  "T_Title (Apply t rules) = T_Title t"
  "T_CreatedAt (Apply t rules) = T_CreatedAt t"
  "T_UpdatedAt (Apply t rules) = T_UpdatedAt t"
  by (simp_all add: Apply_first_match apply_rule_fields split: option.splits)

lemma apply_rule_twice: "apply_rule (apply_rule t i r) i r = apply_rule t i r"
  by (simp add: apply_rule_def Let_def fields_of_def update_triv)

section \<open>Properties\<close>

text \<open>
  (C33) Routing assigns by the first matching rule, and by no other: queue, assignee and
  priority come from the first rule whose condition holds for the ticket's fields (an empty
  value in the rule leaves the ticket's), its index is recorded under _routed_by, every other
  field of the ticket and every other part of it stay, and a ticket that no rule matches is
  returned as it was.
\<close>

theorem Apply_first_rule:
  "(case first_match (fields_of (T_Fields t)) rules of
      None \<Rightarrow> Apply t rules = t
    | Some i \<Rightarrow>
        Apply t rules = t\<lparr>
          T_Queue := (if RR_Queue (rules ! i) = [] then T_Queue t else RR_Queue (rules ! i)),
          T_Assignee := (if RR_Assignee (rules ! i) = [] then T_Assignee t else RR_Assignee (rules ! i)),
          T_Priority := (if RR_Priority (rules ! i) = [] then T_Priority t else RR_Priority (rules ! i)),
          T_Fields := Some (AList.update ''_routed_by'' (VInt (int i)) (fields_of (T_Fields t)))\<rparr>)
   \<and> (first_match (fields_of (T_Fields t)) rules = None \<longleftrightarrow>
        \<not> (\<exists>r. r \<in> set rules \<and> matchRule (fields_of (T_Fields t)) (RR_If r)))"
  (is "?assign \<and> ?none")
proof
  show ?assign
    by (simp add: Apply_first_match apply_rule_def Let_def split: option.split)
  show ?none
    by (auto simp: first_match_None_iff)
qed

text \<open>
  Routing is stable under replay: when no rule tests the synthetic field _routed_by,
  routing an already routed ticket changes nothing, so the second pass takes the same rule
  and records the same index.
\<close>

lemma Apply_idempotent:
  assumes "\<forall>r \<in> set rules. ''_routed_by'' \<notin> fst ` set (RR_If r)"
  shows "Apply (Apply t rules) rules = Apply t rules"
proof (cases "first_match (fields_of (T_Fields t)) rules")
  case None
  then show ?thesis by (simp add: Apply_first_match)
next
  case (Some i)
  let ?f = "fields_of (T_Fields t)"
  let ?g = "fields_of (T_Fields (apply_rule t i (rules ! i)))"
  have "map_of ?g k = map_of ?f k" if "k \<noteq> ''_routed_by''" for k
    using that by (simp add: apply_rule_fields fields_of_def [of "Some _"])
  then have "matchRule ?g (RR_If r) = matchRule ?f (RR_If r)" if "r \<in> set rules" for r
    using assms that by (metis matchRule_fields_cong)
  then have "first_match ?g rules = Some i"
    using Some first_match_cong [of rules ?g ?f] by simp
  with Some show ?thesis by (simp add: Apply_first_match apply_rule_twice)
qed

lemma Apply_idempotent_example:
  "Apply (Apply
       \<lparr>T_ID = ''t'', T_Workflow = ''w'', T_WorkflowVer = ''1'', T_Title = ''x'',
        T_Fields = Some [(''category'', VString ''access'')], T_Assignee = [], T_Queue = [],
        T_Priority = ''normal'', T_CreatedAt = 5, T_UpdatedAt = 5\<rparr>
       [\<lparr>RR_If = [(''category'', VString ''access'')], RR_Queue = ''it-security'',
         RR_Assignee = [], RR_Priority = ''high''\<rparr>])
       [\<lparr>RR_If = [(''category'', VString ''access'')], RR_Queue = ''it-security'',
         RR_Assignee = [], RR_Priority = ''high''\<rparr>] =
   \<lparr>T_ID = ''t'', T_Workflow = ''w'', T_WorkflowVer = ''1'', T_Title = ''x'',
    T_Fields = Some [(''category'', VString ''access''), (''_routed_by'', VInt 0)],
    T_Assignee = [], T_Queue = ''it-security'', T_Priority = ''high'',
    T_CreatedAt = 5, T_UpdatedAt = 5\<rparr>"
  by (subst Apply_idempotent)
     (simp_all add: Apply_def apply_rule_def fields_of_def matchRule_def)

end
