(* ===== verification/Json.thy ===== *)
theory Json
  imports Go_Value
begin

text \<open>
  What encoding/json does to a dynamic value on its way through an event payload: it is
  written as JSON text and read back into \<^verbatim>\<open>any\<close>, so every number comes back as a float64
  (the nearest one), an omitted field comes back as nil, and a float that is not finite cannot
  be written at all (\<^verbatim>\<open>mustJSON\<close> panics). Strings are taken to be valid UTF-8.
\<close>

definition round_even :: "rat \<Rightarrow> int" where
  "round_even x =
     (let k = \<lfloor>x\<rfloor>; d = x - of_int k
      in if d < 1 / 2 \<or> d = 1 / 2 \<and> even k then k else k + 1)"

text \<open>The float64 nearest to a positive number.\<close>

definition nearest_float :: "rat \<Rightarrow> gofloat" where
  "nearest_float x =
     (let (n, d) = quotient_of x;
          b = int (bit_len (nat n)) - int (bit_len (nat d));
          L = (if 2 powi b \<le> x then b else b - 1);
          E = max (L - 52) (-1074)
      in Fin (round_even (x / 2 powi E)) E)"

fun negate_float :: "gofloat \<Rightarrow> gofloat" where
  "negate_float (Fin m e) = Fin (- m) e"
| "negate_float x = x"

definition float64_of_rat :: "rat \<Rightarrow> gofloat" where
  "float64_of_rat x =
     (if x = 0 then Fin 0 0 else if x < 0 then negate_float (nearest_float (- x)) else nearest_float x)"

text \<open>Integers of at most 53 bits are floats as they are.\<close>

definition json_int :: "int \<Rightarrow> gofloat" where
  "json_int i = (if \<bar>i\<bar> \<le> 2 ^ 53 then Fin i 0 else float64_of_rat (of_int i))"

fun json_float32 :: "gofloat \<Rightarrow> gofloat" where
  "json_float32 (Fin m e) =
     (if m = 0 then Fin 0 0
      else case float_digits 24 (-149) (nat \<bar>m\<bar>) e of
        (k, q) \<Rightarrow> float64_of_rat (of_int (sgn m * k) * 10 powi q))"
| "json_float32 x = x"

fun finite_float :: "gofloat \<Rightarrow> bool" where
  "finite_float (Fin m e) = True"
| "finite_float _ = False"

primrec marshals :: "goany \<Rightarrow> bool" where
  "marshals VNil = True"
| "marshals (VString s) = True"
| "marshals (VBool b) = True"
| "marshals (VInt i) = True"
| "marshals (VInt64 i) = True"
| "marshals (VFloat64 x) = finite_float x"
| "marshals (VFloat32 x) = finite_float x"
| "marshals (VList xs) = list_all id (map marshals xs)"
| "marshals (VMap m) = list_all snd (map (map_prod id marshals) m)"

primrec json_any :: "goany \<Rightarrow> goany" where
  "json_any VNil = VNil"
| "json_any (VString s) = VString s"
| "json_any (VBool b) = VBool b"
| "json_any (VInt i) = VFloat64 (json_int i)"
| "json_any (VInt64 i) = VFloat64 (json_int i)"
| "json_any (VFloat64 x) = VFloat64 x"
| "json_any (VFloat32 x) = VFloat64 (json_float32 x)"
| "json_any (VList xs) = VList (map json_any xs)"
| "json_any (VMap m) = VMap (map (map_prod id json_any) m)"

text \<open>
  A map-valued field with the option \<^verbatim>\<open>omitempty\<close>: a nil or empty map is left out and read
  back as nil.
\<close>

definition json_obj :: "goobj option \<Rightarrow> goobj option" where
  "json_obj out =
     (case out of None \<Rightarrow> None
      | Some m \<Rightarrow> if m = [] then None else Some (map (map_prod id json_any) m))"

definition marshals_obj :: "goobj option \<Rightarrow> bool" where
  "marshals_obj out = (case out of None \<Rightarrow> True | Some m \<Rightarrow> list_all (marshals \<circ> snd) m)"

fun scalar :: "goany \<Rightarrow> bool" where
  "scalar (VInt i) = (\<bar>i\<bar> \<le> 2 ^ 53)"
| "scalar (VInt64 i) = (\<bar>i\<bar> \<le> 2 ^ 53)"
| "scalar (VFloat32 x) = False"
| "scalar (VList xs) = False"
| "scalar (VMap m) = False"
| "scalar _ = True"

lemma small_in_int64: "\<bar>i\<bar> \<le> 2 ^ 53 \<Longrightarrow> in_int64 i"
  unfolding in_int64_def by auto

lemma toString_json_scalar: "scalar v \<Longrightarrow> toString (json_any v) = toString v"
  by (cases v) (auto simp: json_int_def small_in_int64 simp del: float_int.simps)

end
