(* ===== verification/Engine_State.thy ===== *)
theory Engine_State
  imports EventLog Store WorkerPool Replay Routing Json
begin

text \<open>
  The state of the engine (struct Engine of engine/engine.go) and its contact with the outside
  world. Everything the source asks from outside is an argument of the model, indexed by the
  number of questions asked before: the clock, whether a call of the event log or the store
  fails, the order of a map iteration, the choice of a select, fresh random bytes. A state is
  a whole process; a program over it is one goroutine's call, run to its end.
\<close>

section \<open>The world outside\<close>

record World =
  clock :: "nat \<Rightarrow> time"
  wall :: "nat \<Rightarrow> time"
  backend :: "nat \<Rightarrow> outcome"
  order :: "nat \<Rightarrow> string list \<Rightarrow> string list"
  coin :: "nat \<Rightarrow> bool"
  entropy :: "nat \<Rightarrow> string + string"

text \<open>
  A task handler sees the run, the step and the ticket's fields, and the number of questions
  asked so far, since real handlers need not be deterministic; it returns an error text or an
  output.
\<close>

type_synonym TaskHandler = "nat \<Rightarrow> WorkflowRun \<Rightarrow> string \<Rightarrow> goobj option \<Rightarrow> string + goobj option"

record Engine =
  G_log :: InMemoryEventLog
  G_store :: InMemoryStore
  G_workflows :: "string \<rightharpoonup> WorkflowDef"
  G_handlers :: "string \<rightharpoonup> TaskHandler"
  G_pool :: WorkerPool
  G_closed :: bool
  G_world :: World
  G_ticks :: nat

type_synonym 'a eng = "(Engine, 'a) prog"

definition NewEngine :: "InMemoryEventLog \<Rightarrow> InMemoryStore \<Rightarrow> int \<Rightarrow> World \<Rightarrow> Engine" where
  "NewEngine evlog tstore workers world =
     \<lparr>G_log = evlog, G_store = tstore, G_workflows = Map.empty, G_handlers = Map.empty,
      G_pool = NewWorkerPool workers, G_closed = False, G_world = world, G_ticks = 0\<rparr>"

definition sample :: "(World \<Rightarrow> nat \<Rightarrow> 'a) \<Rightarrow> 'a eng" where
  "sample f = (\<lambda>s. (Ok (f (G_world s) (G_ticks s)), s\<lparr>G_ticks := Suc (G_ticks s)\<rparr>))"

text \<open>\<^verbatim>\<open>e.now()\<close>\<close>

definition now :: "time eng" where
  "now = sample clock"

text \<open>A reading call, and a writing call that takes effect when it is \<open>Up\<close> or \<open>Lost\<close>.\<close>

definition reading :: "'a eng \<Rightarrow> 'a eng" where
  "reading m = bnd (sample backend) (\<lambda>up. if up = Up then m else fail Backend)"

definition writing :: "'a eng \<Rightarrow> 'a eng" where
  "writing m = bnd (sample backend) (\<lambda>up.
     case up of Up \<Rightarrow> m | Down \<Rightarrow> fail Backend | Lost \<Rightarrow> bnd m (\<lambda>_. fail Backend))"

definition lift_sum :: "(Engine \<Rightarrow> error + 'a) \<Rightarrow> 'a eng" where
  "lift_sum f = bnd (get f) (\<lambda>r. case r of Inl e \<Rightarrow> fail e | Inr x \<Rightarrow> ret x)"

section \<open>Calls of the event log, the store and the pool\<close>

definition do_append :: "time \<Rightarrow> Event \<Rightarrow> Event eng" where
  "do_append w ev = (\<lambda>s. case Append w ev (G_log s) of (e, l) \<Rightarrow> (Ok e, s\<lparr>G_log := l\<rparr>))"

definition log_Append :: "Event \<Rightarrow> Event eng" where
  "log_Append ev = bnd (sample wall) (\<lambda>w. writing (do_append w ev))"

definition log_History :: "run_id \<Rightarrow> Event list eng" where
  "log_History r = reading (get (\<lambda>s. History (G_log s) r))"

text \<open>The order of a Go map iteration is the world's.\<close>

definition in_map_order :: "string list \<Rightarrow> string list eng" where
  "in_map_order ks = bnd (sample order) (\<lambda>f. ret (f ks))"

definition log_Runs :: "run_id list eng" where
  "log_Runs = bnd (reading (get (\<lambda>s. Runs (G_log s)))) in_map_order"

definition store_SaveTicket :: "Ticket \<Rightarrow> unit eng" where
  "store_SaveTicket t = writing (put (\<lambda>s. s\<lparr>G_store := SaveTicket t (G_store s)\<rparr>))"

definition store_GetTicket :: "ticket_id \<Rightarrow> Ticket eng" where
  "store_GetTicket i = reading (lift_sum (\<lambda>s. GetTicket (G_store s) i))"

definition store_RegisterWorkflow :: "WorkflowDef \<Rightarrow> unit eng" where
  "store_RegisterWorkflow w = writing (put (\<lambda>s. s\<lparr>G_store := RegisterWorkflow w (G_store s)\<rparr>))"

definition store_GetWorkflow :: "string \<Rightarrow> string \<Rightarrow> WorkflowDef eng" where
  "store_GetWorkflow name version = reading (lift_sum (\<lambda>s. GetWorkflow (G_store s) name version))"

definition store_ListTickets :: "Ticket list eng" where
  "store_ListTickets = reading (get (\<lambda>s. ListTickets (G_store s)))"

definition store_ListWorkflows :: "WorkflowDef list eng" where
  "store_ListWorkflows = reading (get (\<lambda>s. ListWorkflows (G_store s)))"

definition pool_Submit :: "taskItem \<Rightarrow> unit eng" where
  "pool_Submit t = bnd (sample coin) (\<lambda>c s.
     case Submit c t (G_pool s) of None \<Rightarrow> (Crash Blocked, s) | Some p \<Rightarrow> (Ok (), s\<lparr>G_pool := p\<rparr>))"

text \<open>\<^verbatim>\<open>newID\<close>: 8 random bytes in hex, or one byte of the time when reading randomness fails.\<close>

definition newID :: "string \<Rightarrow> string eng" where
  "newID prefix = bnd (sample entropy) (\<lambda>r.
     case r of Inr h \<Rightarrow> ret (prefix @ ''_'' @ h) | Inl h \<Rightarrow> ret (prefix @ h))"

section \<open>Relations that every call keeps\<close>

text \<open>
  \<open>only_ticks\<close>: nothing but the question counter moved. \<open>reads s t\<close>: the log, the store, the
  handlers and the pool are the same; the cache of workflows may have grown.
\<close>

definition reads :: "Engine \<Rightarrow> Engine \<Rightarrow> bool" where
  "reads s t \<longleftrightarrow> G_log t = G_log s \<and> G_store t = G_store s \<and> G_handlers t = G_handlers s \<and>
     G_pool t = G_pool s \<and> G_closed t = G_closed s \<and> G_world t = G_world s"

interpretation rd: frame reads
  by unfold_locales (simp_all add: reads_def)

lemma keeps_sample_reads: "keeps reads (sample f)"
  by (simp add: keeps_def sample_def reads_def)

lemma keeps_reading_reads: "keeps reads m \<Longrightarrow> keeps reads (reading m)"
  by (simp add: reading_def rd.keeps_bnd keeps_sample_reads rd.keeps_fail)

lemma keeps_lift_sum_reads: "keeps reads (lift_sum f)"
  unfolding lift_sum_def by (intro rd.keeps_bnd rd.keeps_get rd.keeps_sum rd.keeps_fail rd.keeps_ret)

end
