(* ===== verification/Engine.thy ===== *)
theory Engine
  imports Engine_State
begin

text \<open>
  The operations of the engine (engine/engine.go and engine/sla.go), each as one program that
  makes the same calls in the same order as the source and returns at the same places.
  Dispatching recurses through timers, escalations and approvals; the functions between take
  the recursive call as the argument \<open>disp\<close>, and \<open>dispatch\<close> ties the knot with a bound on the
  depth of the recursion. What depth is enough is shown in Engine_Termination.
\<close>

section \<open>Workflow definitions\<close>

definition wfKey :: "string \<Rightarrow> string \<Rightarrow> string" where
  "wfKey name version = name @ ''@'' @ version"

definition cache_workflow :: "WorkflowDef \<Rightarrow> string \<Rightarrow> string \<Rightarrow> unit eng" where
  "cache_workflow w name version =
     put (\<lambda>s. s\<lparr>G_workflows := (G_workflows s)(wfKey name version \<mapsto> w)\<rparr>)"

definition Engine_RegisterWorkflow :: "WorkflowDef \<Rightarrow> unit eng" where
  "Engine_RegisterWorkflow def =
     (if W_Name def = [] \<or> W_Version def = [] then fail NameVersionRequired
      else
        let def = (if W_Initial def = [] \<and> 0 < length (W_Steps def)
                   then def\<lparr>W_Initial := SD_Name (hd (W_Steps def))\<rparr> else def)
        in if Step def (W_Initial def) = None then fail (InitialNotFound (W_Initial def) (W_Name def))
           else bnd (cache_workflow def (W_Name def) (W_Version def))
                  (\<lambda>_. store_RegisterWorkflow def))"

definition RegisterTask :: "string \<Rightarrow> TaskHandler \<Rightarrow> unit eng" where
  "RegisterTask key h = put (\<lambda>s. s\<lparr>G_handlers := (G_handlers s)(key \<mapsto> h)\<rparr>)"

definition workflow :: "Engine \<Rightarrow> string \<Rightarrow> string \<Rightarrow> WorkflowDef option" where
  "workflow s name version = G_workflows s (wfKey name version)"

definition loadWorkflow :: "string \<Rightarrow> string \<Rightarrow> WorkflowDef eng" where
  "loadWorkflow name version =
     bnd (get (\<lambda>s. workflow s name version)) (\<lambda>cached.
       case cached of
         Some w \<Rightarrow> ret w
       | None \<Rightarrow> bnd (store_GetWorkflow name version) (\<lambda>w.
                   bnd (cache_workflow w name version) (\<lambda>_. ret w)))"

section \<open>Appending events\<close>

definition event :: "ticket_id \<Rightarrow> run_id \<Rightarrow> payload \<Rightarrow> Event" where
  "event t r p = \<lparr>E_ID = 0, E_RunID = r, E_TicketID = t, E_Seq = 0, E_At = zero_time,
     E_Payload = p, E_ScheduleAt = None\<rparr>"

definition append_event :: "Event \<Rightarrow> Event eng" where
  "append_event ev =
     (if E_At ev = zero_time then bnd now (\<lambda>t. log_Append (ev\<lparr>E_At := t\<rparr>)) else log_Append ev)"

definition emit :: "WorkflowRun \<Rightarrow> payload \<Rightarrow> Event eng" where
  "emit run p = append_event (event (R_TicketID run) (R_ID run) p)"

definition scheduleStep :: "run_id \<Rightarrow> ticket_id \<Rightarrow> WorkflowDef \<Rightarrow> string \<Rightarrow> Event eng" where
  "scheduleStep runID ticketID def stepName =
     (case Step def stepName of
        None \<Rightarrow> fail (StepNotFound stepName)
      | Some sd \<Rightarrow> bnd now (\<lambda>t.
          let ev = (event ticketID runID (StepScheduled stepName (SD_Kind sd) zero_time))\<lparr>E_At := t\<rparr>
          in case SD_Kind sd of
               KindDelay \<Rightarrow>
                 (case SD_Delay sd of
                    None \<Rightarrow> fail (DelayMissing stepName)
                  | Some d \<Rightarrow>
                      (let due = t + DD_Duration d
                       in append_event (ev\<lparr>E_ScheduleAt := Some due,
                                           E_Payload := StepScheduled stepName (SD_Kind sd) due\<rparr>)))
             | KindApproval \<Rightarrow>
                 (case SD_Approval sd of
                    None \<Rightarrow> fail (ChainMissing stepName)
                  | Some a \<Rightarrow>
                      (case AD_Chain a of
                         [] \<Rightarrow> fail (ChainMissing stepName)
                       | first # _ \<Rightarrow>
                           bnd (append_event (event ticketID runID
                                  (ApprovalRequested stepName 0 (A_Role first) (A_User first)
                                     (int (length (AD_Chain a))))))
                             (\<lambda>_. append_event ev)))
             | _ \<Rightarrow> append_event ev))"

section \<open>Deriving the state of a run\<close>

definition defForRun :: "Event list \<Rightarrow> WorkflowDef eng" where
  "defForRun events =
     bnd (attempt (store_GetTicket (E_TicketID (hd events)))) (\<lambda>r.
       case r of Inr t \<Rightarrow> loadWorkflow (T_Workflow t) (T_WorkflowVer t)
       | Inl _ \<Rightarrow> fail ErrNotFound)"

definition GetRun :: "run_id \<Rightarrow> WorkflowRun eng" where
  "GetRun runID =
     bnd (log_History runID) (\<lambda>events.
       if length events = 0 then fail ErrNotFound
       else bnd (defForRun events) (\<lambda>def.
              ret (applyAll (new_run runID (E_TicketID (hd events))) def events)))"

section \<open>Moving a run forward\<close>

text \<open>\<^verbatim>\<open>!due.After(e.now())\<close>\<close>

definition is_due :: "time \<Rightarrow> bool eng" where
  "is_due due = bnd now (\<lambda>t. ret (due \<le> t))"

definition advance ::
  "(WorkflowRun \<Rightarrow> WorkflowDef \<Rightarrow> unit eng) \<Rightarrow> WorkflowRun \<Rightarrow> WorkflowDef \<Rightarrow> string \<Rightarrow> bool \<Rightarrow> unit eng" where
  "advance disp run def completedStep succeeded =
     (let nxt = (case Step def completedStep of
                   None \<Rightarrow> []
                 | Some sd \<Rightarrow> if succeeded then SD_Next sd else SD_OnError sd)
      in if nxt = [] then
           if succeeded \<and> \<not> R_Failed run then bnd (emit run (RunCompleted completedStep)) (\<lambda>_. ret ())
           else (case step_of run completedStep of
                   None \<Rightarrow> crash NilDeref
                 | Some st \<Rightarrow> bnd (emit run (RunFailed completedStep (SS_Error st))) (\<lambda>_. ret ()))
         else bnd (scheduleStep (R_ID run) (R_TicketID run) def nxt) (\<lambda>_.
                bnd (GetRun (R_ID run)) (\<lambda>nr. disp nr def)))"

definition fireTimer ::
  "(WorkflowRun \<Rightarrow> WorkflowDef \<Rightarrow> unit eng) \<Rightarrow> WorkflowRun \<Rightarrow> WorkflowDef \<Rightarrow> string \<Rightarrow> unit eng" where
  "fireTimer disp run def step =
     bnd (emit run (TimerFired step)) (\<lambda>_.
     bnd (emit run (StepCompletedP step None)) (\<lambda>_.
     advance disp run def step True))"

definition advanceApproval ::
  "(WorkflowRun \<Rightarrow> WorkflowDef \<Rightarrow> unit eng) \<Rightarrow> WorkflowRun \<Rightarrow> WorkflowDef \<Rightarrow> string \<Rightarrow> unit eng" where
  "advanceApproval disp run def step =
     (case step_of run step of
        None \<Rightarrow> crash NilDeref
      | Some st \<Rightarrow>
          (case SS_Approval st of
             None \<Rightarrow> ret ()
           | Some a \<Rightarrow>
               if AS_Status a \<noteq> Granted then ret ()
               else if AS_Index a + 1 < int (length (AS_Chain a)) then
                 (let nxt = AS_Index a + 1
                  in if nxt < 0 then crash IndexOutOfRange
                     else let link = AS_Chain a ! nat nxt
                          in bnd (emit run (ApprovalRequested step nxt (A_Role link) (A_User link)
                                    (int (length (AS_Chain a))))) (\<lambda>_. ret ()))
               else bnd (emit run (StepCompletedP step None)) (\<lambda>_.
                      advance disp run def step True)))"

definition jumpTo ::
  "(WorkflowRun \<Rightarrow> WorkflowDef \<Rightarrow> unit eng) \<Rightarrow> WorkflowRun \<Rightarrow> WorkflowDef \<Rightarrow> string \<Rightarrow> unit eng" where
  "jumpTo disp run def step =
     (if (case step_of run step of
            None \<Rightarrow> False
          | Some st \<Rightarrow> SS_Status st = StepPending \<or> SS_Status st = StepRunning \<or> SS_Status st = StepWaiting)
      then ret ()
      else bnd (scheduleStep (R_ID run) (R_TicketID run) def step) (\<lambda>_.
             bnd (attempt (GetRun (R_ID run))) (\<lambda>r.
               case r of Inl _ \<Rightarrow> ret () | Inr nr \<Rightarrow> disp nr def)))"

fun breach_name :: "payload \<Rightarrow> string option" where
  "breach_name (SLABreached name step) = Some name"
| "breach_name _ = None"

definition breached_names :: "Event list \<Rightarrow> string list" where
  "breached_names events = List.map_filter breach_name (payloads events)"

definition CheckSLA ::
  "(WorkflowRun \<Rightarrow> WorkflowDef \<Rightarrow> unit eng) \<Rightarrow> WorkflowRun \<Rightarrow> WorkflowDef \<Rightarrow> unit eng" where
  "CheckSLA disp run def =
     (if length (W_SLAs def) = 0 then ret ()
      else if R_Status run \<noteq> RunStatusActive \<and> R_Status run \<noteq> RunStatusWaiting then ret ()
      else bnd (attempt (log_History (R_ID run))) (\<lambda>r.
        case r of
          Inl _ \<Rightarrow> ret ()
        | Inr events \<Rightarrow>
            bnd now (\<lambda>t. for_each (W_SLAs def) (\<lambda>sla.
              if SLA_Name sla \<in> set (breached_names events) then ret ()
              else
                let deadline = R_CreatedAt run + SLA_Duration sla
                in if deadline < t then
                     bnd (ignore (emit run (SLABreached (SLA_Name sla) (R_Current run)))) (\<lambda>_.
                       if SLA_OnBreach sla \<noteq> [] then ignore (jumpTo disp run def (SLA_OnBreach sla))
                       else ret ())
                   else ret ()))))"

definition submit_step :: "WorkflowRun \<Rightarrow> string \<Rightarrow> unit eng" where
  "submit_step run name =
     pool_Submit \<lparr>TI_RunID = R_ID run, TI_TicketID = R_TicketID run, TI_Step = name\<rparr>"

text \<open>One turn of the first loop of dispatch, for the step of that name in the run.\<close>

definition dispatch_step ::
  "(WorkflowRun \<Rightarrow> WorkflowDef \<Rightarrow> unit eng) \<Rightarrow> WorkflowRun \<Rightarrow> WorkflowDef \<Rightarrow> string \<Rightarrow> unit eng" where
  "dispatch_step disp run def name =
     (case step_of run name of
        None \<Rightarrow> ret ()
      | Some st \<Rightarrow>
          (case SS_Kind st of
             KindTask \<Rightarrow>
               if SS_Status st = StepPending then
                 bnd (case SS_DueAt st of None \<Rightarrow> ret True | Some due \<Rightarrow> is_due due) (\<lambda>ready.
                   if ready then submit_step run name else ret ())
               else ret ()
           | KindDelay \<Rightarrow>
               if SS_Status st = StepWaiting then
                 (case SS_DueAt st of
                    None \<Rightarrow> ret ()
                  | Some due \<Rightarrow> bnd (is_due due) (\<lambda>ready.
                      if ready then ignore (fireTimer disp run def name) else ret ()))
               else ret ()
           | _ \<Rightarrow> ret ()))"

definition dispatch_approval ::
  "(WorkflowRun \<Rightarrow> WorkflowDef \<Rightarrow> unit eng) \<Rightarrow> WorkflowRun \<Rightarrow> WorkflowDef \<Rightarrow> string \<Rightarrow> unit eng" where
  "dispatch_approval disp run def name =
     (case step_of run name of
        None \<Rightarrow> ret ()
      | Some st \<Rightarrow>
          if SS_Kind st = KindApproval \<and> SS_Status st = StepWaiting \<and> SS_Approval st \<noteq> None
          then ignore (advanceApproval disp run def name) else ret ())"

definition dispatch_body ::
  "(WorkflowRun \<Rightarrow> WorkflowDef \<Rightarrow> unit eng) \<Rightarrow> WorkflowRun \<Rightarrow> WorkflowDef \<Rightarrow> unit eng" where
  "dispatch_body disp run def =
     (if terminal (R_Status run) then ret ()
      else bnd (CheckSLA disp run def) (\<lambda>_.
           bnd (in_map_order (map fst (R_Steps run))) (\<lambda>names.
           bnd (for_each names (dispatch_step disp run def)) (\<lambda>_.
           bnd (in_map_order (map fst (R_Steps run))) (\<lambda>names.
           for_each names (dispatch_approval disp run def))))))"

fun dispatch :: "nat \<Rightarrow> WorkflowRun \<Rightarrow> WorkflowDef \<Rightarrow> unit eng" where
  "dispatch 0 run def = crash OutOfFuel"
| "dispatch (Suc n) run def = dispatch_body (dispatch n) run def"

text \<open>The loop of dispatchAfter: it does not look at the due time of a task.\<close>

definition dispatchAfter_step ::
  "(WorkflowRun \<Rightarrow> WorkflowDef \<Rightarrow> unit eng) \<Rightarrow> WorkflowRun \<Rightarrow> WorkflowDef \<Rightarrow> string \<Rightarrow> unit eng" where
  "dispatchAfter_step disp run def name =
     (case step_of run name of
        None \<Rightarrow> ret ()
      | Some st \<Rightarrow>
          bnd (if SS_Kind st = KindTask \<and> SS_Status st = StepPending then submit_step run name else ret ())
            (\<lambda>_. if SS_Kind st = KindDelay \<and> SS_Status st = StepWaiting then
                    (case SS_DueAt st of
                       None \<Rightarrow> ret ()
                     | Some due \<Rightarrow> bnd (is_due due) (\<lambda>ready.
                         if ready then ignore (fireTimer disp run def name) else ret ()))
                  else ret ()))"

definition dispatchAfter :: "nat \<Rightarrow> WorkflowRun \<Rightarrow> WorkflowDef \<Rightarrow> unit eng" where
  "dispatchAfter n run def =
     (if terminal (R_Status run) then ret ()
      else bnd (in_map_order (map fst (R_Steps run))) (\<lambda>names.
             for_each names (dispatchAfter_step (dispatch n) run def)))"

end
