(* ===== verification/Engine_Ops.thy ===== *)
theory Engine_Ops
  imports Engine
begin

text \<open>
  The entry points of the engine: creating a ticket, executing a task, the decisions on an
  approval, cancellation, recovery, the timer sweep and shutdown. Each takes the bound on the
  depth of dispatching as its first argument. The context argument of the source is left out:
  it only cancels calls, which the outcome of the call covers.
\<close>

section \<open>Creating a ticket\<close>

definition json_ticket :: "Ticket \<Rightarrow> Ticket" where
  "json_ticket t = t\<lparr>T_Fields := map_option (map (map_prod id json_any)) (T_Fields t)\<rparr>"

text \<open>\<^verbatim>\<open>mustJSON\<close> panics on a value that encoding/json cannot write.\<close>

definition mustJSON :: "bool \<Rightarrow> 'a \<Rightarrow> 'a eng" where
  "mustJSON can_marshal x = (if can_marshal then ret x else crash JsonPanic)"

definition wrap_error :: "(error \<Rightarrow> error) \<Rightarrow> 'a eng \<Rightarrow> 'a eng" where
  "wrap_error f m = bnd (attempt m) (\<lambda>r. case r of Inl e \<Rightarrow> fail (f e) | Inr x \<Rightarrow> ret x)"

definition CreateTicket ::
  "nat \<Rightarrow> string \<Rightarrow> string \<Rightarrow> string \<Rightarrow> goobj option \<Rightarrow> (Ticket \<times> WorkflowRun) eng" where
  "CreateTicket n workflowName version title flds =
     bnd (wrap_error LoadWorkflow (loadWorkflow workflowName version)) (\<lambda>def.
     let flds = (case flds of None \<Rightarrow> Some [] | Some m \<Rightarrow> Some m) in
     bnd now (\<lambda>t0.
     bnd (newID ''tkt'') (\<lambda>i.
     let t = Apply \<lparr>T_ID = i, T_Workflow = W_Name def, T_WorkflowVer = W_Version def,
               T_Title = title, T_Fields = flds, T_Assignee = [], T_Queue = [],
               T_Priority = ''normal'', T_CreatedAt = t0, T_UpdatedAt = t0\<rparr> (W_Routing def) in
     bnd (newID ''run'') (\<lambda>runID.
     bnd (wrap_error SaveTicketFailed (store_SaveTicket t)) (\<lambda>_.
     bnd (mustJSON (marshals_obj (T_Fields t)) (json_ticket t)) (\<lambda>jt.
     bnd (append_event (event i runID (TicketCreated jt))) (\<lambda>_.
     bnd (append_event (event i runID (RunStarted runID (W_Initial def)))) (\<lambda>_.
     bnd (scheduleStep runID i def (W_Initial def)) (\<lambda>_.
     bnd (if T_Assignee t \<noteq> [] \<or> T_Queue t \<noteq> [] \<or> T_Priority t \<noteq> []
          then bnd (append_event (event i runID
                 (TicketAssigned (T_Queue t) (T_Assignee t) (T_Priority t) 0))) (\<lambda>_. ret ())
          else ret ()) (\<lambda>_.
     bnd (GetRun runID) (\<lambda>run.
     bnd (dispatch n run def) (\<lambda>_.
     ret (t, run)))))))))))))"

section \<open>Executing a task\<close>

definition failStep :: "nat \<Rightarrow> WorkflowRun \<Rightarrow> WorkflowDef \<Rightarrow> string \<Rightarrow> string \<Rightarrow> unit eng" where
  "failStep n run def step reason =
     (case step_of run step of
        None \<Rightarrow> crash NilDeref
      | Some st \<Rightarrow>
          bnd (emit run (StepFailedP step reason (SS_Attempt st))) (\<lambda>_.
          bnd (emit run (RunFailing step reason)) (\<lambda>_.
          advance (dispatch n) run def step False)))"

definition handleTaskFailure ::
  "nat \<Rightarrow> WorkflowRun \<Rightarrow> WorkflowDef \<Rightarrow> string \<Rightarrow> StepDef \<Rightarrow> string \<Rightarrow> unit eng" where
  "handleTaskFailure n run def step sd herr =
     (case step_of run step of
        None \<Rightarrow> crash NilDeref
      | Some st \<Rightarrow>
          (let maxAttempts = (if RP_MaxAttempts (SD_Retry sd) \<le> 0 then 1 else RP_MaxAttempts (SD_Retry sd));
               delay = RP_Delay (SD_Retry sd)
           in if SS_Attempt st < maxAttempts then
                bnd (emit run (StepFailedP step herr (SS_Attempt st))) (\<lambda>_.
                bnd now (\<lambda>t.
                let due = (if 0 < delay then Some (t + delay) else None) in
                bnd (append_event ((event (R_TicketID run) (R_ID run)
                       (StepScheduled step KindTask (case due of None \<Rightarrow> zero_time | Some d \<Rightarrow> d)))
                       \<lparr>E_At := t, E_ScheduleAt := due\<rparr>)) (\<lambda>_.
                bnd (attempt (GetRun (R_ID run))) (\<lambda>r.
                  case r of Inl _ \<Rightarrow> ret () | Inr nr \<Rightarrow> dispatch n nr def))))
              else failStep n run def step herr))"

definition call_handler :: "TaskHandler \<Rightarrow> WorkflowRun \<Rightarrow> string \<Rightarrow> goobj option \<Rightarrow> (string + goobj option) eng" where
  "call_handler h run step flds = bnd (sample (\<lambda>w n. n)) (\<lambda>n. ret (h n run step flds))"

definition executeTask :: "nat \<Rightarrow> taskItem \<Rightarrow> unit eng" where
  "executeTask n t =
     bnd (GetRun (TI_RunID t)) (\<lambda>run.
     bnd (loadWorkflow (R_Workflow run) (R_WorkflowVer run)) (\<lambda>def.
     case Step def (TI_Step t) of
       None \<Rightarrow> fail (StepNotFound (TI_Step t))
     | Some sd \<Rightarrow>
         bnd (store_GetTicket (R_TicketID run)) (\<lambda>ticket.
         bnd (get (\<lambda>s. G_handlers s (SD_Task sd))) (\<lambda>h.
         case h of
           None \<Rightarrow> failStep n run def (TI_Step t) (''no handler for task '' @ quote (SD_Task sd))
         | Some h \<Rightarrow>
             bnd (emit run (StepStarted (TI_Step t))) (\<lambda>_.
             bnd (call_handler h run (TI_Step t) (T_Fields ticket)) (\<lambda>res.
             case res of
               Inl herr \<Rightarrow>
                 bnd (attempt (GetRun (R_ID run))) (\<lambda>fr.
                   handleTaskFailure n (case fr of Inr r \<Rightarrow> r | Inl _ \<Rightarrow> run) def (TI_Step t) sd herr)
             | Inr out \<Rightarrow>
                 bnd (mustJSON (marshals_obj out) (json_obj out)) (\<lambda>jout.
                 bnd (emit run (StepCompletedP (TI_Step t) jout)) (\<lambda>_.
                 advance (dispatch n) run def (TI_Step t) True))))))))"

text \<open>One turn of a worker: it takes the oldest task, runs it and drops the error.\<close>

definition take_task :: "turn eng" where
  "take_task = bnd (sample coin) (\<lambda>c s.
     case loop_turn c (G_pool s) of (t, p) \<Rightarrow> (Ok t, s\<lparr>G_pool := p\<rparr>))"

definition worker_turn :: "nat \<Rightarrow> unit eng" where
  "worker_turn n = bnd take_task (\<lambda>t.
     case t of Run item \<Rightarrow> ignore (executeTask n item) | _ \<Rightarrow> ret ())"

section \<open>Decisions of people\<close>

definition authorizeApprover :: "Approver list \<Rightarrow> int \<Rightarrow> string \<Rightarrow> error option" where
  "authorizeApprover chain idx who =
     (if idx < 0 \<or> int (length chain) \<le> idx then Some (InvalidChainIndex idx)
      else if who = [] then Some ByRequired
      else
        let link = chain ! nat idx
        in if A_User link \<noteq> [] then
             (if \<not> EqualFold who (A_User link) then Some (NotAuthorizedUser who (A_User link)) else None)
           else if \<not> EqualFold who (A_Role link) then Some (NotAuthorizedRole who (A_Role link))
           else None)"

definition check :: "error option \<Rightarrow> unit eng" where
  "check e = (case e of None \<Rightarrow> ret () | Some e \<Rightarrow> fail e)"

fun status_text :: "ApprovalStatus \<Rightarrow> string" where
  "status_text Pending = ''pending''"
| "status_text Granted = ''granted''"
| "status_text Rejected = ''rejected''"

text \<open>The pending approval of a step, or the error that Approve and Reject return without one.\<close>

definition pending_approval :: "WorkflowRun \<Rightarrow> string \<Rightarrow> bool \<Rightarrow> ApprovalState eng" where
  "pending_approval run step show_status =
     (case step_of run step of
        None \<Rightarrow> fail (NotPendingApproval step)
      | Some st \<Rightarrow>
          (case SS_Approval st of
             None \<Rightarrow> fail (NotPendingApproval step)
           | Some a \<Rightarrow>
               if AS_Status a \<noteq> Pending
               then fail (NotAwaiting step (if show_status then status_text (AS_Status a) else []))
               else ret a))"

definition Approve :: "nat \<Rightarrow> run_id \<Rightarrow> string \<Rightarrow> string \<Rightarrow> string \<Rightarrow> unit eng" where
  "Approve n runID step who comment =
     bnd (GetRun runID) (\<lambda>run.
     bnd (loadWorkflow (R_Workflow run) (R_WorkflowVer run)) (\<lambda>def.
     bnd (pending_approval run step True) (\<lambda>a.
     bnd (check (authorizeApprover (AS_Chain a) (AS_Index a) who)) (\<lambda>_.
     bnd (emit run (ApprovalGranted step (AS_Index a) who)) (\<lambda>_.
     bnd (attempt (GetRun runID)) (\<lambda>r.
       case r of
         Inl _ \<Rightarrow> ret ()
       | Inr nr \<Rightarrow> bnd (ignore (advanceApproval (dispatch n) nr def step)) (\<lambda>_.
                    dispatchAfter n nr def)))))))"

definition Reject :: "run_id \<Rightarrow> string \<Rightarrow> string \<Rightarrow> string \<Rightarrow> unit eng" where
  "Reject runID step who reason =
     bnd (GetRun runID) (\<lambda>run.
     bnd (pending_approval run step False) (\<lambda>a.
     bnd (check (authorizeApprover (AS_Chain a) (AS_Index a) who)) (\<lambda>_.
     bnd (emit run (ApprovalRejected step (AS_Index a) who reason)) (\<lambda>_.
     bnd (emit run (RunFailed step (''approval rejected: '' @ reason))) (\<lambda>_. ret ())))))"

definition Cancel :: "run_id \<Rightarrow> string \<Rightarrow> unit eng" where
  "Cancel runID reason =
     bnd (GetRun runID) (\<lambda>run.
     if terminal (R_Status run) then ret ()
     else bnd (emit run (RunCancelled reason)) (\<lambda>_. ret ()))"

section \<open>Recovery, the timer sweep, shutdown\<close>

definition Recover :: "nat \<Rightarrow> unit eng" where
  "Recover n =
     bnd log_Runs (\<lambda>runIDs. for_each runIDs (\<lambda>i.
       bnd (GetRun i) (\<lambda>run.
       bnd (attempt (loadWorkflow (R_Workflow run) (R_WorkflowVer run))) (\<lambda>r.
         case r of Inl _ \<Rightarrow> ret () | Inr def \<Rightarrow> dispatch n run def))))"

definition sweep :: "nat \<Rightarrow> unit eng" where
  "sweep n =
     bnd (attempt log_Runs) (\<lambda>ids.
       case ids of
         Inl _ \<Rightarrow> ret ()
       | Inr ids \<Rightarrow> for_each ids (\<lambda>i.
           bnd (attempt (GetRun i)) (\<lambda>r.
             case r of
               Inl _ \<Rightarrow> ret ()
             | Inr run \<Rightarrow>
                 bnd (attempt (loadWorkflow (R_Workflow run) (R_WorkflowVer run))) (\<lambda>d.
                   case d of Inl _ \<Rightarrow> ret () | Inr def \<Rightarrow> dispatch n run def))))"

text \<open>The loop of the timer, over what its select chooses each time; a closed channel ends it.\<close>

datatype timer_case = CloseCh | TickerC

fun timerLoop :: "nat \<Rightarrow> timer_case list \<Rightarrow> Engine \<Rightarrow> Engine" where
  "timerLoop n [] s = s"
| "timerLoop n (CloseCh # cs) s = s"
| "timerLoop n (TickerC # cs) s = timerLoop n cs (snd (sweep n s))"

definition Close :: "unit eng" where
  "Close = bnd (get G_closed) (\<lambda>closed.
     if closed then ret () else put (\<lambda>s. s\<lparr>G_closed := True, G_pool := Stop (G_pool s)\<rparr>))"

definition SetClock :: "(nat \<Rightarrow> time) \<Rightarrow> unit eng" where
  "SetClock fn = put (\<lambda>s. s\<lparr>G_world := (G_world s)\<lparr>clock := fn\<rparr>\<rparr>)"

section \<open>Read-only entry points\<close>

definition Engine_GetTicket :: "ticket_id \<Rightarrow> Ticket eng" where
  "Engine_GetTicket i = store_GetTicket i"

definition Engine_ListTickets :: "Ticket list eng" where
  "Engine_ListTickets = store_ListTickets"

definition Engine_ListWorkflows :: "WorkflowDef list eng" where
  "Engine_ListWorkflows = store_ListWorkflows"

definition Engine_GetWorkflow :: "string \<Rightarrow> string \<Rightarrow> WorkflowDef eng" where
  "Engine_GetWorkflow name version = loadWorkflow name version"

definition ListRuns :: "run_id list eng" where
  "ListRuns = log_Runs"

definition Events :: "run_id \<Rightarrow> Event list eng" where
  "Events r = log_History r"

end
