(* ===== verification/Engine_Log.thy ===== *)
theory Engine_Log
  imports Engine_Ops
begin

text \<open>
  What an operation may append. The relation \<open>adds Q s t\<close> says that the log of \<open>t\<close> is the log
  of \<open>s\<close> after a list of appends, each for a run and with a payload that \<open>Q\<close> allows; that tasks
  were queued at the end and only for runs that \<open>Q\<close> lets grow; that the workflow cache only
  grew, by what the store holds; and that the store, the world and the handlers are the same. It is kept on every path,
  error paths and crashes included.
\<close>

definition from_store :: "InMemoryStore \<Rightarrow> (string \<rightharpoonup> WorkflowDef) \<Rightarrow> (string \<rightharpoonup> WorkflowDef) \<Rightarrow> bool" where
  "from_store st m m' \<longleftrightarrow> m \<subseteq>\<^sub>m m' \<and>
     (\<forall>k w. m' k = Some w \<longrightarrow> m k = Some w \<or> (\<exists>n v. k = wfKey n v \<and> GetWorkflow st n v = Inr w))"

lemma from_store_refl [simp]: "from_store st m m"
  by (simp add: from_store_def)

lemma from_store_trans: "from_store st m m' \<Longrightarrow> from_store st m' m'' \<Longrightarrow> from_store st m m''"
  unfolding from_store_def by (meson map_le_trans)

definition adds :: "(run_id \<Rightarrow> payload \<Rightarrow> bool) \<Rightarrow> Engine \<Rightarrow> Engine \<Rightarrow> bool" where
  "adds Q s t \<longleftrightarrow>
     (\<exists>wes. G_log t = mem.append_all wes (G_log s) \<and>
        (\<forall>(w, e) \<in> set wes. Q (E_RunID e) (E_Payload e))) \<and>
     (\<exists>its. G_pool t = (G_pool s)\<lparr>P_tasks := P_tasks (G_pool s) @ its\<rparr> \<and>
        (\<forall>i \<in> set its. \<exists>p. Q (TI_RunID i) p)) \<and>
     from_store (G_store s) (G_workflows s) (G_workflows t) \<and>
     G_store t = G_store s \<and> G_world t = G_world s \<and>
     G_handlers t = G_handlers s \<and> G_closed t = G_closed s"

lemma append_all_append: "mem.append_all (xs @ ys) l = mem.append_all ys (mem.append_all xs l)"
  by (induction xs l rule: mem.append_all.induct) simp_all

lemma addsI:
  assumes "G_log t = mem.append_all wes (G_log s)"
    and "\<forall>(w, e) \<in> set wes. Q (E_RunID e) (E_Payload e)"
    and "G_pool t = (G_pool s)\<lparr>P_tasks := P_tasks (G_pool s) @ its\<rparr>"
    and "\<forall>i \<in> set its. \<exists>p. Q (TI_RunID i) p"
    and "from_store (G_store s) (G_workflows s) (G_workflows t)" "G_store t = G_store s" "G_world t = G_world s"
    and "G_handlers t = G_handlers s" "G_closed t = G_closed s"
  shows "adds Q s t"
  unfolding adds_def using assms by blast

lemma addsE:
  assumes "adds Q s t"
  obtains wes its where "G_log t = mem.append_all wes (G_log s)"
    and "\<forall>(w, e) \<in> set wes. Q (E_RunID e) (E_Payload e)"
    and "G_pool t = (G_pool s)\<lparr>P_tasks := P_tasks (G_pool s) @ its\<rparr>"
    and "\<forall>i \<in> set its. \<exists>p. Q (TI_RunID i) p"
    and "from_store (G_store s) (G_workflows s) (G_workflows t)" "G_store t = G_store s" "G_world t = G_world s"
    and "G_handlers t = G_handlers s" "G_closed t = G_closed s"
  using assms unfolding adds_def by blast

interpretation ad: frame "adds Q" for Q
proof
  fix s t u
  show "adds Q s s" by (rule addsI [of _ "[]" _ _ "[]"]) simp_all
  assume "adds Q s t" "adds Q t u"
  from this(1) show "adds Q s u"
  proof (rule addsE)
    fix xs its
    assume st: "G_log t = mem.append_all xs (G_log s)"
      "\<forall>(w, e) \<in> set xs. Q (E_RunID e) (E_Payload e)"
      "G_pool t = (G_pool s)\<lparr>P_tasks := P_tasks (G_pool s) @ its\<rparr>"
      "\<forall>i \<in> set its. \<exists>p. Q (TI_RunID i) p"
      "from_store (G_store s) (G_workflows s) (G_workflows t)" "G_store t = G_store s" "G_world t = G_world s"
      "G_handlers t = G_handlers s" "G_closed t = G_closed s"
    from \<open>adds Q t u\<close> show "adds Q s u"
    proof (rule addsE)
      fix ys jts
      assume tu: "G_log u = mem.append_all ys (G_log t)"
        "\<forall>(w, e) \<in> set ys. Q (E_RunID e) (E_Payload e)"
        "G_pool u = (G_pool t)\<lparr>P_tasks := P_tasks (G_pool t) @ jts\<rparr>"
        "\<forall>i \<in> set jts. \<exists>p. Q (TI_RunID i) p"
        "from_store (G_store t) (G_workflows t) (G_workflows u)" "G_store u = G_store t" "G_world u = G_world t"
        "G_handlers u = G_handlers t" "G_closed u = G_closed t"
      show "adds Q s u"
        by (rule addsI [of _ "xs @ ys" _ _ "its @ jts"])
           (use st tu in \<open>auto simp: append_all_append intro: from_store_trans\<close>)
    qed
  qed
qed

lemma adds_mono: "adds Q s t \<Longrightarrow> (\<And>r p. Q r p \<Longrightarrow> Q' r p) \<Longrightarrow> adds Q' s t"
  unfolding adds_def by fast

lemma keeps_adds_mono:
  "keeps (adds Q) m \<Longrightarrow> (\<And>r p. Q r p \<Longrightarrow> Q' r p) \<Longrightarrow> keeps (adds Q') m"
  unfolding keeps_def by (blast intro: adds_mono)

lemma append_all_history:
  assumes "log_ok l" "\<forall>(w, e) \<in> set wes. Q (E_RunID e) (E_Payload e)"
  shows "\<exists>new. History (mem.append_all wes l) r = History l r @ new \<and>
    (\<forall>p \<in> set (payloads new). Q r p) \<and> log_ok (mem.append_all wes l)"
proof -
  obtain new where new: "History (mem.append_all wes l) r = History l r @ new"
      "map E_Payload new = map (E_Payload \<circ> snd) (filter (\<lambda>(w, e). E_RunID e = r) wes)"
    using mem.history_append_all [OF assms(1), of wes r] by auto
  have "\<forall>p \<in> set (payloads new). Q r p"
    unfolding payloads_def new(2) using assms(2) by auto
  with new(1) mem.invar_append_all [OF assms(1)] show ?thesis by blast
qed

lemma adds_history:
  assumes "adds Q s t" "log_ok (G_log s)"
  obtains new where "History (G_log t) r = History (G_log s) r @ new"
    and "\<forall>p \<in> set (payloads new). Q r p" and "log_ok (G_log t)"
proof -
  obtain wes where wes: "G_log t = mem.append_all wes (G_log s)"
      "\<forall>(w, e) \<in> set wes. Q (E_RunID e) (E_Payload e)"
    using assms(1) by (auto simp: adds_def)
  from append_all_history [OF assms(2) wes(2), of r] wes(1) that show ?thesis by metis
qed

section \<open>Calls to the outside\<close>

named_theorems adds_intros "programs that keep the relation adds"

lemma adds_same_log:
  assumes "G_log t = G_log s" "G_pool t = G_pool s" "G_workflows t = G_workflows s"
    "G_store t = G_store s" "G_world t = G_world s" "G_handlers t = G_handlers s"
    "G_closed t = G_closed s"
  shows "adds Q s t"
  by (rule addsI [of _ "[]" _ _ "[]"]) (simp_all add: assms)

lemma adds_sample [adds_intros]: "keeps (adds Q) (sample f)"
  by (auto simp: keeps_def sample_def intro: adds_same_log)

lemma adds_now [adds_intros]: "keeps (adds Q) now"
  by (simp add: now_def adds_sample)

lemma adds_reading: "keeps (adds Q) m \<Longrightarrow> keeps (adds Q) (reading m)"
  by (simp add: reading_def ad.keeps_bnd adds_sample ad.keeps_fail)

lemma adds_writing: "keeps (adds Q) m \<Longrightarrow> keeps (adds Q) (writing m)"
  unfolding writing_def
  by (intro ad.keeps_bnd adds_sample) (simp add: ad.keeps_bnd ad.keeps_fail split: outcome.split)

lemma adds_lift_sum: "keeps (adds Q) (lift_sum f)"
  unfolding lift_sum_def by (intro ad.keeps_bnd ad.keeps_get ad.keeps_sum ad.keeps_fail ad.keeps_ret)

lemma adds_do_append: "Q (E_RunID ev) (E_Payload ev) \<Longrightarrow> keeps (adds Q) (do_append w ev)"
  by (rule keepsI, rule addsI [of _ "[(w, ev)]" _ _ "[]"]) (simp_all add: do_append_def split: prod.split)

lemma adds_log_Append: "Q (E_RunID ev) (E_Payload ev) \<Longrightarrow> keeps (adds Q) (log_Append ev)"
  unfolding log_Append_def by (intro ad.keeps_bnd adds_sample adds_writing adds_do_append)

lemma adds_in_map_order [adds_intros]: "keeps (adds Q) (in_map_order ks)"
  unfolding in_map_order_def by (intro ad.keeps_bnd adds_sample ad.keeps_ret)

lemma adds_log_History [adds_intros]: "keeps (adds Q) (log_History r)"
  unfolding log_History_def by (intro adds_reading ad.keeps_get)

lemma adds_log_Runs [adds_intros]: "keeps (adds Q) log_Runs"
  unfolding log_Runs_def by (intro ad.keeps_bnd adds_reading ad.keeps_get adds_in_map_order)

lemma adds_store [adds_intros]:
  "keeps (adds Q) (store_GetTicket i)" "keeps (adds Q) (store_GetWorkflow nm v)"
  "keeps (adds Q) store_ListTickets" "keeps (adds Q) store_ListWorkflows"
  unfolding store_GetTicket_def store_GetWorkflow_def store_ListTickets_def store_ListWorkflows_def
  by (rule adds_reading, rule adds_lift_sum ad.keeps_get)+

lemma Submit_SomeD:
  "Submit c t p = Some q \<Longrightarrow> q = p \<or> q = p\<lparr>P_tasks := P_tasks p @ [t]\<rparr>"
  by (auto simp: Submit_def Let_def split: if_splits)

lemma adds_pool_Submit: "Q (TI_RunID t) p \<Longrightarrow> keeps (adds Q) (pool_Submit t)"
  unfolding pool_Submit_def
proof (intro ad.keeps_bnd adds_sample keepsI)
  fix c s
  assume Q: "Q (TI_RunID t) p"
  show "adds Q s (snd (case Submit c t (G_pool s) of
      None \<Rightarrow> (Crash Blocked, s) | Some p \<Rightarrow> (Ok (), s\<lparr>G_pool := p\<rparr>)))"
  proof (cases "Submit c t (G_pool s)")
    case None
    then show ?thesis by (simp add: ad.refl)
  next
    case (Some q)
    from Submit_SomeD [OF this] show ?thesis
    proof
      assume "q = G_pool s"
      with Some show ?thesis by (auto intro: adds_same_log)
    next
      assume q: "q = (G_pool s)\<lparr>P_tasks := P_tasks (G_pool s) @ [t]\<rparr>"
      show ?thesis
        by (rule addsI [of _ "[]" _ _ "[t]"]) (use Some q Q in auto)
    qed
  qed
qed

lemma adds_newID [adds_intros]: "keeps (adds Q) (newID prefix)"
  unfolding newID_def by (intro ad.keeps_bnd adds_sample ad.keeps_sum ad.keeps_ret)

lemma adds_cache_new:
  "workflow s nm v = None \<Longrightarrow> GetWorkflow (G_store s) nm v = Inr w \<Longrightarrow>
    adds Q s (snd (cache_workflow w nm v s))"
  unfolding cache_workflow_def put_run snd_conv
  by (rule addsI [of _ "[]" _ _ "[]"]) (auto simp: workflow_def map_le_def from_store_def)

lemma store_GetWorkflow_OkD:
  "store_GetWorkflow nm v s = (Ok w, t) \<Longrightarrow>
    GetWorkflow (G_store s) nm v = Inr w \<and> t = s\<lparr>G_ticks := Suc (G_ticks s)\<rparr>"
  by (auto simp: store_GetWorkflow_def reading_def sample_def lift_sum_def bnd_def
      fail_def get_def ret_def split: if_splits sum.splits)

lemma adds_loadWorkflow [adds_intros]: "keeps (adds Q) (loadWorkflow nm v)"
proof (rule keepsI)
  fix s
  show "adds Q s (snd (loadWorkflow nm v s))"
  proof (cases "workflow s nm v")
    case (Some w)
    then show ?thesis by (simp add: loadWorkflow_def ad.refl)
  next
    case None
    show ?thesis
      unfolding loadWorkflow_def get_bnd None option.case
    proof (rule ad.bnd_at)
      show "adds Q s (snd (store_GetWorkflow nm v s))" by (rule adds_store(2) [unfolded keeps_def, rule_format])
      fix w t
      assume "store_GetWorkflow nm v s = (Ok w, t)"
      with None have "workflow t nm v = None" "GetWorkflow (G_store t) nm v = Inr w"
        by (auto simp: workflow_def dest!: store_GetWorkflow_OkD)
      then show "adds Q t (snd (bnd (cache_workflow w nm v) (\<lambda>_. ret w) t))"
        by (intro ad.bnd_at adds_cache_new) (simp_all add: ad.refl)
    qed
  qed
qed

lemma adds_append_event:
  "Q (E_RunID ev) (E_Payload ev) \<Longrightarrow> keeps (adds Q) (append_event ev)"
  unfolding append_event_def by (intro ad.keeps_if ad.keeps_bnd adds_now adds_log_Append) simp_all

lemma event_simps [simp]:
  "E_RunID (event t r p) = r" "E_TicketID (event t r p) = t" "E_Payload (event t r p) = p"
  "E_At (event t r p) = 0" "E_ScheduleAt (event t r p) = None" "E_ID (event t r p) = 0"
  by (simp_all add: event_def)

lemma adds_emit: "Q (R_ID run) p \<Longrightarrow> keeps (adds Q) (emit run p)"
  unfolding emit_def by (intro adds_append_event) simp

lemma adds_defForRun [adds_intros]: "keeps (adds Q) (defForRun es)"
  unfolding defForRun_def
  by (intro ad.keeps_bnd ad.keeps_attempt ad.keeps_sum adds_intros ad.keeps_fail)

lemma adds_GetRun [adds_intros]: "keeps (adds Q) (GetRun r)"
  unfolding GetRun_def
  by (intro ad.keeps_bnd ad.keeps_if adds_intros ad.keeps_fail ad.keeps_ret)

lemma adds_is_due [adds_intros]: "keeps (adds Q) (is_due d)"
  unfolding is_due_def by (intro ad.keeps_bnd adds_intros ad.keeps_ret)

lemma adds_submit_step: "Q (R_ID run) p \<Longrightarrow> keeps (adds Q) (submit_step run nm)"
  unfolding submit_step_def by (rule adds_pool_Submit) simp

text \<open>The run that GetRun returns is the one asked for.\<close>

lemma GetRun_OkD:
  assumes "GetRun r s = (Ok run, t)"
  obtains def where "run = applyAll (new_run r (E_TicketID (hd (History (G_log s) r)))) def (History (G_log s) r)"
    and "History (G_log s) r \<noteq> []"
proof -
  obtain es s1 where h: "log_History r s = (Ok es, s1)"
    and rest: "(if length es = 0 then fail ErrNotFound else bnd (defForRun es) (\<lambda>def.
       ret (applyAll (new_run r (E_TicketID (hd es))) def es))) s1 = (Ok run, t)"
    using assms unfolding GetRun_def by (rule bnd_OkE)
  from h have es: "es = History (G_log s) r"
    by (auto simp: log_History_def reading_def sample_def bnd_def fail_def split: if_splits)
  from rest have "es \<noteq> []" by auto
  with rest have "bnd (defForRun es) (\<lambda>def. ret (applyAll (new_run r (E_TicketID (hd es))) def es)) s1 = (Ok run, t)"
    by simp
  then obtain def s2 where "ret (applyAll (new_run r (E_TicketID (hd es))) def es) s2 = (Ok run, t)"
    by (rule bnd_OkE)
  with \<open>es \<noteq> []\<close> es show ?thesis by (intro that [of def]) simp_all
qed

lemma GetRun_R_ID: "GetRun r s = (Ok run, t) \<Longrightarrow> R_ID run = r"
  by (erule GetRun_OkD) simp

lemma log_Append_OkD:
  "log_Append e s = (Ok ev, t) \<Longrightarrow>
    History (G_log t) (E_RunID e) = History (G_log s) (E_RunID e) @ [ev] \<and> E_Payload ev = E_Payload e"
  by (auto simp: log_Append_def writing_def sample_def bnd_def do_append_def Append_eq History_def
      split: outcome.splits)

lemma emit_OkD:
  "emit run p s = (Ok ev, t) \<Longrightarrow>
    History (G_log t) (R_ID run) = History (G_log s) (R_ID run) @ [ev] \<and> E_Payload ev = p"
  by (auto simp: emit_def append_event_def now_def bnd_def sample_def dest!: log_Append_OkD)

lemma adds_none_log: "adds (\<lambda>_ _. False) s t \<Longrightarrow> G_log t = G_log s"
proof (elim addsE)
  fix wes
  assume "G_log t = mem.append_all wes (G_log s)" "\<forall>(w, e) \<in> set wes. False"
  then show "G_log t = G_log s" by (cases wes) auto
qed

section \<open>Scheduling a step\<close>

text \<open>The payloads of dispatch that change no status.\<close>

fun quiet_payload :: "payload \<Rightarrow> bool" where
  "quiet_payload (StepScheduled s k d) = True"
| "quiet_payload (ApprovalRequested s i r u n) = True"
| "quiet_payload (StepCompletedP s out) = (out = None)"
| "quiet_payload (TimerFired s) = True"
| "quiet_payload (SLABreached n s) = True"
| "quiet_payload _ = False"

lemma adds_scheduleStep:
  assumes Q: "\<And>p. quiet_payload p \<Longrightarrow> Q r p"
  shows "keeps (adds Q) (scheduleStep r i def nm)"
proof (cases "Step def nm")
  case None
  then show ?thesis by (simp add: scheduleStep_def ad.keeps_fail)
next
  case (Some sd)
  have *: "keeps (adds Q) (append_event ev)"
    if "E_RunID ev = r" "quiet_payload (E_Payload ev)" for ev
    using that Q by (intro adds_append_event) simp
  note rules = ad.keeps_bnd ad.keeps_fail adds_now *
  show ?thesis
  proof (cases "SD_Kind sd")
    case KindApproval
    with Some show ?thesis unfolding scheduleStep_def
      by (cases "SD_Approval sd"; cases "AD_Chain (the (SD_Approval sd))") (simp_all add: Let_def rules)
  next
    case KindDelay
    with Some show ?thesis unfolding scheduleStep_def
      by (cases "SD_Delay sd") (simp_all add: Let_def rules)
  qed (use Some in \<open>simp_all add: scheduleStep_def Let_def rules\<close>)
qed

end
