(* ===== verification/Engine_Dispatch.thy ===== *)
theory Engine_Dispatch
  imports Engine_Log
begin

text \<open>
  What dispatching a run may do to the log, for any condition on states that appends keep and
  any condition on runs that GetRun establishes. The locale \<open>dispatching\<close> states what a client
  of dispatch promises about the payloads it accepts, and proves once that every operation
  reached from dispatch stays inside the promise: its interpretations give the frame of
  dispatch (below) and the fate of failing runs (in Engine_Safety).
\<close>

section \<open>Guarded appends\<close>

definition guarded :: "(Engine \<Rightarrow> bool) \<Rightarrow> (run_id \<Rightarrow> payload \<Rightarrow> bool) \<Rightarrow> Engine \<Rightarrow> Engine \<Rightarrow> bool" where
  "guarded J Q s t \<longleftrightarrow> (J s \<longrightarrow> adds Q s t \<and> J t)"

interpretation gd: frame "guarded J Q" for J Q
  by unfold_locales (auto simp: guarded_def ad.refl intro: ad.trans)

locale dispatching =
  fixes r :: run_id
    and J :: "Engine \<Rightarrow> bool"
    and P :: "WorkflowRun \<Rightarrow> bool"
    and Q :: "run_id \<Rightarrow> payload \<Rightarrow> bool"
  assumes J_adds: "J s \<Longrightarrow> adds Q s t \<Longrightarrow> J t"
    and P_GetRun: "J s \<Longrightarrow> GetRun r s = (Ok run, t) \<Longrightarrow> P run"
    and P_ID: "P run \<Longrightarrow> R_ID run = r"
    and Q_quiet: "quiet_payload p \<Longrightarrow> Q r p"
    and Q_completed: "P run \<Longrightarrow> \<not> R_Failed run \<Longrightarrow> Q r (RunCompleted n)"
    and Q_failed: "P run \<Longrightarrow> R_Failed run \<Longrightarrow> Q r (RunFailed n x)"
begin

lemma lift: "keeps (adds Q) m \<Longrightarrow> keeps (guarded J Q) m"
  unfolding keeps_def guarded_def by (blast intro: J_adds)

lemma keeps_GetRun_bnd:
  assumes "\<And>nr. P nr \<Longrightarrow> keeps (guarded J Q) (f nr)"
  shows "keeps (guarded J Q) (bnd (GetRun r) f)"
proof (rule keepsI)
  fix s
  show "guarded J Q s (snd (bnd (GetRun r) f s))"
  proof (cases "J s")
    case True
    show ?thesis
    proof (rule gd.bnd_at)
      show "guarded J Q s (snd (GetRun r s))"
        using lift [OF adds_GetRun] by (simp add: keeps_def)
      fix x t
      assume "GetRun r s = (Ok x, t)"
      with True have "P x" by (rule P_GetRun)
      then show "guarded J Q t (snd (f x t))" using assms by (simp add: keeps_def)
    qed
  qed (simp add: guarded_def)
qed

lemma keeps_attempt_GetRun_bnd:
  assumes "\<And>e. keeps (guarded J Q) (g e)" and "\<And>nr. P nr \<Longrightarrow> keeps (guarded J Q) (f nr)"
  shows "keeps (guarded J Q) (bnd (attempt (GetRun r)) (\<lambda>x. case x of Inl e \<Rightarrow> g e | Inr nr \<Rightarrow> f nr))"
proof (rule keepsI)
  fix s
  let ?k = "\<lambda>x. case x of Inl e \<Rightarrow> g e | Inr nr \<Rightarrow> f nr"
  show "guarded J Q s (snd (bnd (attempt (GetRun r)) ?k s))"
  proof (cases "J s")
    case True
    show ?thesis
    proof (rule gd.bnd_at)
      show "guarded J Q s (snd (attempt (GetRun r) s))"
        using gd.keeps_attempt [OF lift [OF adds_GetRun]] by (simp add: keeps_def)
      fix x t
      assume x: "attempt (GetRun r) s = (Ok x, t)"
      show "guarded J Q t (snd (?k x t))"
      proof (cases x)
        case (Inl e)
        then show ?thesis using assms(1) by (simp add: keeps_def)
      next
        case (Inr nr)
        have "GetRun r s = (Ok nr, t)" by (rule attempt_InrD [OF x [unfolded Inr]])
        with True have "P nr" by (rule P_GetRun)
        with Inr show ?thesis using assms(2) by (simp add: keeps_def)
      qed
    qed
  qed (simp add: guarded_def)
qed

lemma keeps_emit: "P run \<Longrightarrow> Q r p \<Longrightarrow> keeps (guarded J Q) (emit run p)"
  by (rule lift, rule adds_emit) (simp add: P_ID)

lemma keeps_scheduleStep: "keeps (guarded J Q) (scheduleStep r i def nm)"
  by (rule lift, rule adds_scheduleStep) (rule Q_quiet)

section \<open>The operations below dispatch\<close>

definition good :: "(WorkflowRun \<Rightarrow> WorkflowDef \<Rightarrow> unit eng) \<Rightarrow> bool" where
  "good disp \<longleftrightarrow> (\<forall>run def. P run \<longrightarrow> keeps (guarded J Q) (disp run def))"

lemma goodD: "good disp \<Longrightarrow> P run \<Longrightarrow> keeps (guarded J Q) (disp run def)"
  by (simp add: good_def)

lemma keeps_emit_end: "R_ID run = r \<Longrightarrow> Q r p \<Longrightarrow> keeps (guarded J Q) (bnd (emit run p) (\<lambda>_. ret ()))"
  by (intro gd.keeps_bnd gd.keeps_ret lift adds_emit) simp

lemma keeps_follow:
  "good disp \<Longrightarrow> R_ID run = r \<Longrightarrow> keeps (guarded J Q) (bnd (scheduleStep (R_ID run) (R_TicketID run) def nm)
     (\<lambda>_. bnd (GetRun (R_ID run)) (\<lambda>nr. disp nr def)))"
  by (simp only:) (intro gd.keeps_bnd keeps_scheduleStep keeps_GetRun_bnd goodD)

lemma keeps_advance_failed:
  assumes "good disp" "R_ID run = r" "\<And>n x. Q r (RunFailed n x)"
  shows "keeps (guarded J Q) (advance disp run def step False)"
  unfolding advance_def Let_def simp_thms if_False
  by (intro gd.keeps_if gd.keeps_option gd.keeps_crash keeps_emit_end keeps_follow assms)

lemma keeps_advance:
  assumes "good disp" "P run"
  shows "keeps (guarded J Q) (advance disp run def step True)"
  unfolding advance_def Let_def simp_thms if_True
  by (intro gd.keeps_if gd.keeps_option gd.keeps_crash keeps_emit_end keeps_follow)
     (use assms in \<open>auto simp: P_ID Q_completed Q_failed\<close>)

lemma keeps_fireTimer: "good disp \<Longrightarrow> P run \<Longrightarrow> keeps (guarded J Q) (fireTimer disp run def step)"
  unfolding fireTimer_def
  by (intro gd.keeps_bnd keeps_emit keeps_advance) (simp_all add: Q_quiet)

lemma keeps_advanceApproval:
  "good disp \<Longrightarrow> P run \<Longrightarrow> keeps (guarded J Q) (advanceApproval disp run def step)"
  unfolding advanceApproval_def Let_def
  by (intro gd.keeps_option gd.keeps_if gd.keeps_bnd gd.keeps_crash gd.keeps_ret keeps_emit keeps_advance)
     (simp_all add: Q_quiet)

lemma keeps_jumpTo: "good disp \<Longrightarrow> P run \<Longrightarrow> keeps (guarded J Q) (jumpTo disp run def step)"
  unfolding jumpTo_def P_ID [of run]
  by (intro gd.keeps_if gd.keeps_bnd keeps_attempt_GetRun_bnd gd.keeps_ret goodD)
     (simp_all add: keeps_scheduleStep)

lemma keeps_CheckSLA: "good disp \<Longrightarrow> P run \<Longrightarrow> keeps (guarded J Q) (CheckSLA disp run def)"
  unfolding CheckSLA_def Let_def
  by (intro gd.keeps_if gd.keeps_ret gd.keeps_bnd gd.keeps_attempt gd.keeps_sum gd.keeps_for_each
       gd.keeps_ignore lift [OF adds_now] lift [OF adds_log_History] keeps_emit keeps_jumpTo)
     (simp_all add: Q_quiet)

lemma keeps_submit_step: "P run \<Longrightarrow> keeps (guarded J Q) (submit_step run nm)"
  by (rule lift, rule adds_submit_step [of _ _ "TimerFired []"]) (simp add: P_ID Q_quiet)

lemma keeps_is_due: "keeps (guarded J Q) (is_due d)"
  by (rule lift [OF adds_is_due])

lemma keeps_dispatch_step:
  "good disp \<Longrightarrow> P run \<Longrightarrow> keeps (guarded J Q) (dispatch_step disp run def nm)"
  unfolding dispatch_step_def
  by (cases "step_of run nm"; cases "SS_Kind (the (step_of run nm))"; simp)
     (intro conjI impI gd.keeps_bnd gd.keeps_if gd.keeps_option gd.keeps_ret keeps_is_due
        keeps_submit_step gd.keeps_ignore keeps_fireTimer | assumption)+

lemma keeps_dispatch_approval:
  "good disp \<Longrightarrow> P run \<Longrightarrow> keeps (guarded J Q) (dispatch_approval disp run def nm)"
  unfolding dispatch_approval_def
  by (intro gd.keeps_option gd.keeps_if gd.keeps_ret gd.keeps_ignore keeps_advanceApproval)

lemma keeps_order: "keeps (guarded J Q) (in_map_order ks)"
  by (rule lift [OF adds_in_map_order])

lemma good_dispatch_body: "good disp \<Longrightarrow> good (dispatch_body disp)"
  unfolding good_def [of "dispatch_body disp"] dispatch_body_def
  by (intro allI impI gd.keeps_if gd.keeps_ret gd.keeps_bnd keeps_CheckSLA keeps_order
       gd.keeps_for_each keeps_dispatch_step keeps_dispatch_approval)

lemma good_dispatch: "good (dispatch n)"
proof (induction n)
  case 0
  have "dispatch 0 = (\<lambda>run def. crash OutOfFuel)" by (simp add: fun_eq_iff)
  then show ?case by (simp only: good_def gd.keeps_crash simp_thms)
next
  case (Suc n)
  have "dispatch (Suc n) = dispatch_body (dispatch n)" by (simp add: fun_eq_iff)
  with good_dispatch_body [OF Suc] show ?case by simp
qed

lemma keeps_dispatch: "P run \<Longrightarrow> keeps (guarded J Q) (dispatch n run def)"
  by (rule goodD [OF good_dispatch])

lemma keeps_dispatchAfter: "P run \<Longrightarrow> keeps (guarded J Q) (dispatchAfter n run def)"
  unfolding dispatchAfter_def dispatchAfter_step_def
  by (intro gd.keeps_if gd.keeps_ret gd.keeps_bnd keeps_order gd.keeps_for_each gd.keeps_option
       keeps_submit_step keeps_is_due gd.keeps_ignore keeps_fireTimer good_dispatch)

end

end
