(* ===== verification/Engine_Frame.thy ===== *)
theory Engine_Frame
  imports Engine_Dispatch
begin

text \<open>
  The frame of each operation: which runs it may write to, which events it may append there,
  and that the tickets, the other runs and the handlers are left as they were. Then the
  engine as a transition system whose steps are the requests of its callers, the turns of its
  workers and of its timer goroutine, and restarts of the process on the same log and store.
\<close>

section \<open>Dispatch\<close>

definition dispatch_payload :: "payload \<Rightarrow> bool" where
  "dispatch_payload p \<longleftrightarrow> quiet_payload p \<or> (\<exists>n. p = RunCompleted n) \<or> (\<exists>n x. p = RunFailed n x)"

interpretation fr: dispatching r "\<lambda>_. True" "\<lambda>run. R_ID run = r" "\<lambda>r' p. r' = r \<and> dispatch_payload p" for r
  by unfold_locales (auto simp: dispatch_payload_def dest: GetRun_R_ID)

definition on_run :: "run_id \<Rightarrow> (payload \<Rightarrow> bool) \<Rightarrow> run_id \<Rightarrow> payload \<Rightarrow> bool" where
  "on_run r X r' p \<longleftrightarrow> r' = r \<and> (dispatch_payload p \<or> X p)"

lemma on_run_dispatch: "dispatch_payload p \<Longrightarrow> on_run r X r p"
  by (simp add: on_run_def)

lemma on_run_own: "X p \<Longrightarrow> on_run r X r p"
  by (simp add: on_run_def)

lemma adds_from_dispatch:
  assumes "keeps (guarded (\<lambda>_. True) (\<lambda>r' p. r' = r \<and> dispatch_payload p)) m"
  shows "keeps (adds (on_run r X)) m"
  using assms by (rule keeps_mono) (auto simp: guarded_def on_run_def intro: adds_mono)

lemmas adds_dispatch = adds_from_dispatch [OF fr.keeps_dispatch]
lemmas adds_dispatchAfter = adds_from_dispatch [OF fr.keeps_dispatchAfter]
lemmas adds_advanceApproval = adds_from_dispatch [OF fr.keeps_advanceApproval [OF fr.good_dispatch]]

lemmas adds_advance_True = adds_from_dispatch [OF fr.keeps_advance [OF fr.good_dispatch]]

lemma adds_advance_False:
  "R_ID run = r \<Longrightarrow> keeps (adds (on_run r X)) (advance (dispatch n) run def step False)"
  by (intro adds_from_dispatch fr.keeps_advance_failed fr.good_dispatch)
     (simp_all add: dispatch_payload_def)

lemmas adds_advance = adds_advance_True adds_advance_False

lemma adds_emit_own: "R_ID run = r \<Longrightarrow> X p \<Longrightarrow> keeps (adds (on_run r X)) (emit run p)"
  by (rule adds_emit) (simp add: on_run_own)

lemma adds_emit_quiet: "R_ID run = r \<Longrightarrow> dispatch_payload p \<Longrightarrow> keeps (adds (on_run r X)) (emit run p)"
  by (rule adds_emit) (simp add: on_run_dispatch)

lemma adds_GetRun_bnd:
  assumes "\<And>run. R_ID run = r \<Longrightarrow> keeps (adds Q) (f run)"
  shows "keeps (adds Q) (bnd (GetRun r) f)"
  by (rule ad.keeps_bnd_post [OF adds_GetRun]) (auto dest: GetRun_R_ID intro: assms)

lemma adds_attempt_GetRun_bnd:
  assumes "\<And>e. keeps (adds Q) (g e)" and "\<And>run. R_ID run = r \<Longrightarrow> keeps (adds Q) (f run)"
  shows "keeps (adds Q) (bnd (attempt (GetRun r)) (\<lambda>x. case x of Inl e \<Rightarrow> g e | Inr run \<Rightarrow> f run))"
proof (rule ad.keeps_bnd_post [where Q = "\<lambda>x. \<forall>run. x = Inr run \<longrightarrow> R_ID run = r"])
  show "keeps (adds Q) (attempt (GetRun r))" by (intro ad.keeps_attempt adds_GetRun)
  show "\<forall>run. x = Inr run \<longrightarrow> R_ID run = r" if "attempt (GetRun r) s = (Ok x, t)" for x s t
    using that by (auto dest!: attempt_InrD GetRun_R_ID)
  show "keeps (adds Q) (case x of Inl e \<Rightarrow> g e | Inr run \<Rightarrow> f run)"
    if "\<forall>run. x = Inr run \<longrightarrow> R_ID run = r" for x
    using that assms by (auto split: sum.split)
qed

section \<open>Tasks\<close>

fun task_payload :: "payload \<Rightarrow> bool" where
  "task_payload (StepStarted s) = True"
| "task_payload (StepCompletedP s out) = True"
| "task_payload (StepFailedP s r a) = True"
| "task_payload (RunFailing s r) = True"
| "task_payload _ = False"

lemmas adds_task_rules = ad.keeps_bnd ad.keeps_option ad.keeps_if ad.keeps_sum ad.keeps_crash
  ad.keeps_fail ad.keeps_ret ad.keeps_get ad.keeps_attempt adds_now adds_sample adds_emit_own
  adds_advance adds_dispatch adds_loadWorkflow adds_store(1)

lemma adds_failStep: "R_ID run = r \<Longrightarrow> keeps (adds (on_run r task_payload)) (failStep n run def step x)"
  unfolding failStep_def by (intro adds_task_rules) simp_all

lemma adds_handleTaskFailure:
  assumes r: "R_ID run = r"
  shows "keeps (adds (on_run r task_payload)) (handleTaskFailure n run def step sd x)"
proof -
  have resched: "keeps (adds (on_run r task_payload)) (append_event ev)"
    if "E_RunID ev = r" "\<exists>k d. E_Payload ev = StepScheduled step k d" for ev
    using that by (intro adds_append_event) (auto simp: on_run_def dispatch_payload_def)
  show ?thesis
    unfolding handleTaskFailure_def Let_def r
    by (intro adds_task_rules adds_attempt_GetRun_bnd adds_failStep resched) (simp_all add: r)
qed

lemma adds_call_handler: "keeps (adds Q) (call_handler h run step fs)"
  unfolding call_handler_def by (intro adds_task_rules)

lemma adds_mustJSON: "keeps (adds Q) (mustJSON b x)"
  unfolding mustJSON_def by (intro adds_task_rules)

lemma adds_task_failed:
  assumes r: "R_ID (run :: WorkflowRun) = r"
  shows "keeps (adds (on_run r task_payload)) (bnd (attempt (GetRun (R_ID run)))
    (\<lambda>fr. handleTaskFailure n (case fr of Inr r \<Rightarrow> r | Inl _ \<Rightarrow> run) def step sd herr))"
  unfolding r
  by (rule ad.keeps_bnd_post [where Q = "\<lambda>x. \<forall>nr. x = Inr nr \<longrightarrow> R_ID nr = r"])
     (auto intro!: ad.keeps_attempt adds_GetRun adds_handleTaskFailure
        dest!: attempt_InrD GetRun_R_ID simp: r split: sum.split)

lemma adds_executeTask:
  "keeps (adds (on_run (TI_RunID t) task_payload)) (executeTask n t)"
  unfolding executeTask_def
  by (intro adds_GetRun_bnd adds_task_rules adds_failStep adds_call_handler adds_mustJSON
       adds_task_failed) simp_all

section \<open>Decisions and cancellation\<close>

fun grant_payload :: "payload \<Rightarrow> bool" where
  "grant_payload (ApprovalGranted s i w) = True"
| "grant_payload _ = False"

lemma adds_pending_approval: "keeps (adds Q) (pending_approval run step b)"
  unfolding pending_approval_def by (intro adds_task_rules)

lemma adds_check: "keeps (adds Q) (check e)"
  unfolding check_def by (intro adds_task_rules)

lemma adds_Approve: "keeps (adds (on_run r grant_payload)) (Approve n r step who comment)"
  unfolding Approve_def
  by (intro adds_GetRun_bnd adds_attempt_GetRun_bnd adds_task_rules adds_pending_approval adds_check
       ad.keeps_ignore adds_advanceApproval adds_dispatchAfter) simp_all

fun reject_payload :: "payload \<Rightarrow> bool" where
  "reject_payload (ApprovalRejected s i w x) = True"
| "reject_payload (RunFailed s x) = True"
| "reject_payload _ = False"

definition exactly_on :: "run_id \<Rightarrow> (payload \<Rightarrow> bool) \<Rightarrow> run_id \<Rightarrow> payload \<Rightarrow> bool" where
  "exactly_on r X r' p \<longleftrightarrow> r' = r \<and> X p"

lemma adds_emit_exactly: "R_ID run = r \<Longrightarrow> X p \<Longrightarrow> keeps (adds (exactly_on r X)) (emit run p)"
  by (rule adds_emit) (simp add: exactly_on_def)

lemma adds_Reject: "keeps (adds (exactly_on r reject_payload)) (Reject r step who reason)"
  unfolding Reject_def
  by (intro adds_GetRun_bnd ad.keeps_bnd adds_pending_approval adds_check adds_emit_exactly ad.keeps_ret) simp_all

fun cancel_payload :: "payload \<Rightarrow> bool" where
  "cancel_payload (RunCancelled x) = True"
| "cancel_payload _ = False"

lemma adds_Cancel: "keeps (adds (exactly_on r cancel_payload)) (Cancel r reason)"
  unfolding Cancel_def
  by (intro adds_GetRun_bnd ad.keeps_if ad.keeps_bnd adds_emit_exactly ad.keeps_ret) simp_all

section \<open>All runs at once\<close>

definition on_any :: "run_id \<Rightarrow> payload \<Rightarrow> bool" where
  "on_any r p \<longleftrightarrow> dispatch_payload p"

lemma adds_dispatch_any: "keeps (adds on_any) (dispatch n run def)"
  by (rule keeps_mono [OF adds_dispatch [OF HOL.refl, of _ "\<lambda>_. False"]])
     (auto simp: on_any_def on_run_def intro: adds_mono)

lemma adds_Recover: "keeps (adds on_any) (Recover n)"
  unfolding Recover_def
  by (intro ad.keeps_bnd ad.keeps_for_each ad.keeps_sum ad.keeps_attempt ad.keeps_ret
       adds_log_Runs adds_GetRun adds_loadWorkflow adds_dispatch_any)

lemma adds_sweep: "keeps (adds on_any) (sweep n)"
  unfolding sweep_def
  by (intro ad.keeps_bnd ad.keeps_for_each ad.keeps_sum ad.keeps_attempt ad.keeps_ret
       adds_log_Runs adds_GetRun adds_loadWorkflow adds_dispatch_any)

end
