(* ===== verification/Demo.thy ===== *)
theory Demo
  imports Engine_Ops
begin

text \<open>
  Concrete engines on which the theorems' witnesses are evaluated: a world whose clock stands
  at a given time, whose calls all succeed and whose maps iterate in insertion order, and
  small workflow definitions in the style of engine/examples and of the tests under api/.
\<close>

definition calm :: "(nat \<Rightarrow> time) \<Rightarrow> World" where
  "calm c = \<lparr>clock = c, wall = (\<lambda>_. 1), backend = (\<lambda>_. Up), order = (\<lambda>_ ks. ks),
     coin = (\<lambda>_. False), entropy = (\<lambda>_. Inr ''0'')\<rparr>"

definition task_step :: "string \<Rightarrow> string \<Rightarrow> string \<Rightarrow> StepDef" where
  "task_step name nxt on_error = \<lparr>SD_Name = name, SD_Kind = KindTask, SD_Task = ''do'',
     SD_Approval = None, SD_Delay = None, SD_Next = nxt, SD_OnError = on_error, SD_AssignTo = [],
     SD_Retry = \<lparr>RP_MaxAttempts = 0, RP_Delay = 0\<rparr>\<rparr>"

definition delay_step :: "string \<Rightarrow> duration \<Rightarrow> string \<Rightarrow> StepDef" where
  "delay_step name d nxt = \<lparr>SD_Name = name, SD_Kind = KindDelay, SD_Task = [],
     SD_Approval = None, SD_Delay = Some \<lparr>DD_Duration = d\<rparr>, SD_Next = nxt, SD_OnError = [],
     SD_AssignTo = [], SD_Retry = \<lparr>RP_MaxAttempts = 0, RP_Delay = 0\<rparr>\<rparr>"

definition approval_step :: "string \<Rightarrow> string list \<Rightarrow> string \<Rightarrow> StepDef" where
  "approval_step name roles nxt = \<lparr>SD_Name = name, SD_Kind = KindApproval, SD_Task = [],
     SD_Approval = Some \<lparr>AD_Chain = map (\<lambda>r. \<lparr>A_Role = r, A_User = []\<rparr>) roles\<rparr>,
     SD_Delay = None, SD_Next = nxt, SD_OnError = [], SD_AssignTo = [],
     SD_Retry = \<lparr>RP_MaxAttempts = 0, RP_Delay = 0\<rparr>\<rparr>"

definition flow :: "StepDef list \<Rightarrow> SLADef list \<Rightarrow> WorkflowDef" where
  "flow steps slas = \<lparr>W_Name = ''wf'', W_Version = ''1'', W_Description = [],
     W_Initial = SD_Name (hd steps), W_Steps = steps, W_SLAs = slas, W_Routing = []\<rparr>"

definition engine_with :: "World \<Rightarrow> WorkflowDef \<Rightarrow> Engine" where
  "engine_with world def = snd (Engine_RegisterWorkflow def
     (NewEngine NewInMemoryEventLog NewInMemoryStore 4 world))"

definition history_of :: "Engine \<Rightarrow> run_id \<Rightarrow> payload list" where
  "history_of s r = payloads (History (G_log s) r)"

definition handler_ok :: TaskHandler where
  "handler_ok = (\<lambda>n run step flds. Inr (Some [(''ok'', VBool True)]))"

definition handler_fails :: TaskHandler where
  "handler_fails = (\<lambda>n run step flds. Inl ''boom'')"

section \<open>Evaluation by the simplifier\<close>

lemma sample_run: "sample f s = (Ok (f (G_world s) (G_ticks s)), s\<lparr>G_ticks := Suc (G_ticks s)\<rparr>)"
  by (simp add: sample_def)

lemma do_append_run:
  "do_append w ev s =
    (Ok (stamped w ev (L_seq (G_log s) (E_RunID ev) + 1)),
     s\<lparr>G_log := \<lparr>L_seq = (L_seq (G_log s))(E_RunID ev := L_seq (G_log s) (E_RunID ev) + 1),
       L_events = (L_events (G_log s))(E_RunID ev := L_events (G_log s) (E_RunID ev) @
         [stamped w ev (L_seq (G_log s) (E_RunID ev) + 1)]),
       L_runs = List.insert (E_RunID ev) (L_runs (G_log s))\<rparr>\<rparr>)"
  by (simp add: do_append_def Append_eq)

lemma dispatch_numeral:
  "dispatch (numeral k) run def = dispatch_body (dispatch (pred_numeral k)) run def"
  by (simp add: numeral_eq_Suc)

lemmas eval_world = bnd_run attempt_run sample_run do_append_run ignore_def now_def reading_def
  writing_def lift_sum_def log_Append_def log_History_def in_map_order_def log_Runs_def
  store_SaveTicket_def store_GetTicket_def store_RegisterWorkflow_def store_GetWorkflow_def
  pool_Submit_def newID_def Append_eq SaveTicket_def GetTicket_def RegisterWorkflow_def
  GetWorkflow_def History_def Runs_def Submit_def loop_turn_def pool_capacity_def stamped_def

lemmas eval_engine = cache_workflow_def Engine_RegisterWorkflow_def RegisterTask_def workflow_def
  loadWorkflow_def event_def append_event_def emit_def scheduleStep_def defForRun_def GetRun_def
  is_due_def advance_def fireTimer_def advanceApproval_def jumpTo_def breached_names_def
  CheckSLA_def submit_step_def dispatch_step_def dispatch_approval_def dispatch_body_def
  dispatchAfter_step_def dispatchAfter_def wfKey_def dispatch_numeral

lemmas eval_ops = json_ticket_def mustJSON_def wrap_error_def CreateTicket_def failStep_def
  handleTaskFailure_def call_handler_def executeTask_def take_task_def worker_turn_def
  authorizeApprover_def check_def pending_approval_def Approve_def Reject_def Cancel_def
  Recover_def sweep_def Close_def quote_def

lemmas eval_pure = Step_def Apply_def new_run_def applyOne_def step_of_def put_step_def
  ensureStep_def new_step_def step_kind_def approvalChain_def with_step_def merge_output_def
  json_obj_def marshals_obj_def terminal_def EqualFold_def ToLower_def to_lower_def map_filter_simps

lemmas eval_demo = NewEngine_def calm_def task_step_def delay_step_def approval_step_def flow_def
  engine_with_def history_of_def handler_ok_def handler_fails_def NewWorkerPool_def
  NewInMemoryEventLog_def NewInMemoryStore_def

declare eval_world [eval] eval_engine [eval] eval_ops [eval] eval_pure [eval] eval_demo [eval]

declare Let_def [eval]

section \<open>An engine with one run\<close>

definition created :: "TaskHandler \<Rightarrow> WorkflowDef \<Rightarrow> Engine" where
  "created h def = snd (CreateTicket 3 ''wf'' ''1'' ''laptop'' None
     (snd (RegisterTask ''do'' h (engine_with (calm (\<lambda>_. 5)) def))))"

definition demo_ticket :: Ticket where
  "demo_ticket = \<lparr>T_ID = ''tkt_0'', T_Workflow = ''wf'', T_WorkflowVer = ''1'', T_Title = ''laptop'',
     T_Fields = Some [], T_Assignee = [], T_Queue = [], T_Priority = ''normal'',
     T_CreatedAt = 5, T_UpdatedAt = 5\<rparr>"

fun demo_events :: "int \<Rightarrow> payload list \<Rightarrow> Event list" where
  "demo_events n [] = []"
| "demo_events n (p # ps) = \<lparr>E_ID = n, E_RunID = ''run_0'', E_TicketID = ''tkt_0'', E_Seq = n,
     E_At = 5, E_Payload = p, E_ScheduleAt = None\<rparr> # demo_events (n + 1) ps"

definition demo_state :: "TaskHandler \<Rightarrow> WorkflowDef \<Rightarrow> payload list \<Rightarrow> taskItem list \<Rightarrow> nat \<Rightarrow> Engine" where
  "demo_state h def ps ts k =
     \<lparr>G_log = \<lparr>L_seq = (\<lambda>_. 0)(''run_0'' := int (length ps)),
        L_events = (\<lambda>_. [])(''run_0'' := demo_events 1 ps), L_runs = [''run_0'']\<rparr>,
      G_store = \<lparr>S_tickets = [(''tkt_0'', demo_ticket)], S_workflows = [(''wf'', [(''1'', def)])]\<rparr>,
      G_workflows = [''wf@1'' \<mapsto> def], G_handlers = [''do'' \<mapsto> h],
      G_pool = \<lparr>P_tasks = ts, P_workers = 4, P_closed = False\<rparr>, G_closed = False,
      G_world = calm (\<lambda>_. 5), G_ticks = k\<rparr>"

definition approval_flow :: WorkflowDef where
  "approval_flow = flow [approval_step ''ok'' [''mgr'', ''cfo''] []] []"

definition task_flow :: WorkflowDef where
  "task_flow = flow [task_step ''a'' ''b'' [], task_step ''b'' [] []] []"

definition approval_demo :: Engine where
  "approval_demo = demo_state handler_ok approval_flow
     [TicketCreated demo_ticket, RunStarted ''run_0'' ''ok'', ApprovalRequested ''ok'' 0 ''mgr'' [] 2,
      StepScheduled ''ok'' KindApproval 0, TicketAssigned [] [] ''normal'' 0] [] 24"

definition task_demo :: "TaskHandler \<Rightarrow> Engine" where
  "task_demo h = demo_state h task_flow
     [TicketCreated demo_ticket, RunStarted ''run_0'' ''a'', StepScheduled ''a'' KindTask 0,
      TicketAssigned [] [] ''normal'' 0]
     [\<lparr>TI_RunID = ''run_0'', TI_TicketID = ''tkt_0'', TI_Step = ''a''\<rparr>] 22"

lemmas eval_created = created_def demo_ticket_def demo_events.simps demo_state_def approval_flow_def
  task_flow_def approval_demo_def task_demo_def

lemma created_approval: "created handler_ok approval_flow = approval_demo"
  unfolding eval_created by (simp add: eval cong: eval_congs)

lemma created_task: "created h task_flow = task_demo h"
  unfolding eval_created by (simp add: eval cong: eval_congs)

text \<open>Both tasks of the task flow run by the workers.\<close>

definition finished_demo :: Engine where
  "finished_demo = snd (worker_turn 3 (snd (worker_turn 3 (task_demo handler_ok))))"

lemma demo_workers:
  "P_workers (G_pool (task_demo h)) = 4"
  "P_workers (G_pool (snd (worker_turn 3 (task_demo handler_ok)))) = 4"
  unfolding eval_created by (simp add: eval cong: eval_congs)+

lemma finished_history:
  "history_of finished_demo ''run_0'' =
    [TicketCreated demo_ticket, RunStarted ''run_0'' ''a'', StepScheduled ''a'' KindTask 0,
     TicketAssigned [] [] ''normal'' 0, StepStarted ''a'', StepCompletedP ''a'' (Some [(''ok'', VBool True)]),
     StepScheduled ''b'' KindTask 0, StepStarted ''b'', StepCompletedP ''b'' (Some [(''ok'', VBool True)]),
     RunCompleted ''b'']"
  unfolding eval_created finished_demo_def by (simp add: eval cong: eval_congs)

text \<open>
  A cancelled run can still be approved, and then completes: Approve does not look at the
  status of the run.
\<close>

definition cancelled_demo :: Engine where
  "cancelled_demo = snd (Approve 3 ''run_0'' ''ok'' ''cfo'' [] (snd (Approve 3 ''run_0'' ''ok'' ''mgr'' []
     (snd (Cancel ''run_0'' ''changed my mind'' approval_demo)))))"

lemma approve_after_cancel:
  "drop 5 (history_of cancelled_demo ''run_0'') =
    [RunCancelled ''changed my mind'', ApprovalGranted ''ok'' 0 ''mgr'', ApprovalRequested ''ok'' 1 ''cfo'' [] 2,
     ApprovalGranted ''ok'' 1 ''cfo'', StepCompletedP ''ok'' None, RunCompleted ''ok'']"
  unfolding eval_created cancelled_demo_def by (simp add: eval cong: eval_congs)

text \<open>
  The reason of RUN_FAILED is the error that the step had before its last failure, here none:
  failStep hands advance the run it was given, not one that has seen the STEP_FAILED event.
\<close>

lemma run_failed_reason_is_stale:
  "drop 4 (history_of (snd (worker_turn 3 (task_demo handler_fails))) ''run_0'') =
    [StepStarted ''a'', StepFailedP ''a'' ''boom'' 1, RunFailing ''a'' ''boom'', RunFailed ''a'' []]"
  unfolding eval_created by (simp add: eval cong: eval_congs)

end
