(* ===== verification/Engine_Steps.thy ===== *)
theory Engine_Steps
  imports Engine_Frame Demo
begin

text \<open>
  The engine as a transition system. A step is a call of an entry point, a turn of a worker,
  a pass of the timer goroutine, or a restart of the process on the log and the store it left
  behind; each runs to its end, also when it ends in an error or a crash. The invariants hold
  in every reachable state: the log is well formed, histories only grow, and in a world whose
  backends answer every run of the log can be derived again.
\<close>

section \<open>Requests and steps\<close>

datatype request =
    Deploy WorkflowDef
  | BindTask string TaskHandler
  | NewTicket string string string "goobj option"
  | ApproveStep run_id string string string
  | RejectStep run_id string string string
  | CancelRun run_id string
  | RecoverRuns
  | ChangeClock "nat \<Rightarrow> time"
  | Shutdown
  | ReadRun run_id
  | ReadHistory run_id
  | ReadRuns
  | ReadTicket ticket_id
  | ReadTickets
  | ReadWorkflow string string
  | ReadWorkflows

fun perform :: "nat \<Rightarrow> request \<Rightarrow> Engine \<Rightarrow> Engine" where
  "perform n (Deploy def) s = snd (Engine_RegisterWorkflow def s)"
| "perform n (BindTask key h) s = snd (RegisterTask key h s)"
| "perform n (NewTicket w v title fs) s = snd (CreateTicket n w v title fs s)"
| "perform n (ApproveStep r step who comment) s = snd (Approve n r step who comment s)"
| "perform n (RejectStep r step who reason) s = snd (Reject r step who reason s)"
| "perform n (CancelRun r reason) s = snd (Cancel r reason s)"
| "perform n RecoverRuns s = snd (Recover n s)"
| "perform n (ChangeClock f) s = snd (SetClock f s)"
| "perform n Shutdown s = snd (Close s)"
| "perform n (ReadRun r) s = snd (GetRun r s)"
| "perform n (ReadHistory r) s = snd (Events r s)"
| "perform n ReadRuns s = snd (ListRuns s)"
| "perform n (ReadTicket i) s = snd (Engine_GetTicket i s)"
| "perform n ReadTickets s = snd (Engine_ListTickets s)"
| "perform n (ReadWorkflow w v) s = snd (Engine_GetWorkflow w v s)"
| "perform n ReadWorkflows s = snd (Engine_ListWorkflows s)"

definition restart :: "int \<Rightarrow> World \<Rightarrow> Engine \<Rightarrow> Engine" where
  "restart workers world s = NewEngine (G_log s) (G_store s) workers world"

text \<open>\<open>W\<close> is the assumption on the worlds that a process may be started in.\<close>

inductive engine_step :: "(World \<Rightarrow> bool) \<Rightarrow> nat \<Rightarrow> Engine \<Rightarrow> Engine \<Rightarrow> bool" for W n where
  call: "engine_step W n s (perform n q s)"
| work: "0 < P_workers (G_pool s) \<Longrightarrow> engine_step W n s (snd (worker_turn n s))"
| tick: "engine_step W n s (snd (sweep n s))"
| reboot: "W world \<Longrightarrow> engine_step W n s (restart workers world s)"

inductive reachable :: "(World \<Rightarrow> bool) \<Rightarrow> nat \<Rightarrow> Engine \<Rightarrow> bool" for W n where
  start: "W world \<Longrightarrow> reachable W n (NewEngine NewInMemoryEventLog NewInMemoryStore workers world)"
| next_state: "reachable W n s \<Longrightarrow> engine_step W n s t \<Longrightarrow> reachable W n t"

inductive_cases engine_step_cases: "engine_step W n s t"

lemma reachable_timerLoop: "reachable W n s \<Longrightarrow> reachable W n (timerLoop n cs s)"
  by (induction n cs s rule: timerLoop.induct) (auto intro: next_state [OF _ engine_step.tick])

section \<open>The log grows\<close>

text \<open>\<open>appends X s t\<close>: the log took appends that \<open>X\<close> allows; nothing is said of the rest of the state.\<close>

definition appends :: "(run_id \<Rightarrow> payload \<Rightarrow> bool) \<Rightarrow> Engine \<Rightarrow> Engine \<Rightarrow> bool" where
  "appends X s t \<longleftrightarrow> (\<exists>wes. G_log t = mem.append_all wes (G_log s) \<and>
     (\<forall>(w, e) \<in> set wes. X (E_RunID e) (E_Payload e)))"

interpretation gr: frame "appends X" for X
proof
  fix s t u
  show "appends X s s" unfolding appends_def by (intro exI [of _ "[]"]) simp
  assume "appends X s t" "appends X t u"
  then obtain xs ys where
    "G_log t = mem.append_all xs (G_log s)" "\<forall>(w, e) \<in> set xs. X (E_RunID e) (E_Payload e)"
    "G_log u = mem.append_all ys (G_log t)" "\<forall>(w, e) \<in> set ys. X (E_RunID e) (E_Payload e)"
    unfolding appends_def by blast
  then show "appends X s u"
    unfolding appends_def by (intro exI [of _ "xs @ ys"]) (auto simp: append_all_append)
qed

lemma appends_same_log: "G_log t = G_log s \<Longrightarrow> appends X s t"
  unfolding appends_def by (intro exI [of _ "[]"]) simp

lemma adds_appends: "adds Q s t \<Longrightarrow> (\<And>r p. Q r p \<Longrightarrow> X r p) \<Longrightarrow> appends X s t"
  unfolding adds_def appends_def by fast

lemma keeps_appends: "keeps (adds Q) m \<Longrightarrow> (\<And>r p. Q r p \<Longrightarrow> X r p) \<Longrightarrow> keeps (appends X) m"
  unfolding keeps_def by (blast intro: adds_appends)

lemmas appends_none = keeps_appends [of "\<lambda>_ _. False", simplified]

lemma appends_put: "(\<And>s. G_log (f s) = G_log s) \<Longrightarrow> keeps (appends X) (put f)"
  by (simp add: keeps_def appends_same_log)

lemma appends_writing: "keeps (appends X) m \<Longrightarrow> keeps (appends X) (writing m)"
  unfolding writing_def
  by (intro gr.keeps_bnd appends_none [OF adds_sample])
     (simp add: gr.keeps_bnd gr.keeps_fail split: outcome.split)

lemma appends_store:
  "keeps (appends X) (store_SaveTicket t)" "keeps (appends X) (store_RegisterWorkflow w)"
  "keeps (appends X) (cache_workflow w nm v)"
  by (simp_all add: store_SaveTicket_def store_RegisterWorkflow_def cache_workflow_def
      appends_writing appends_put)

lemma appends_wrap_error: "keeps (appends X) m \<Longrightarrow> keeps (appends X) (wrap_error f m)"
  unfolding wrap_error_def by (intro gr.keeps_bnd gr.keeps_attempt gr.keeps_sum gr.keeps_fail gr.keeps_ret)

fun create_payload :: "payload \<Rightarrow> bool" where
  "create_payload (TicketCreated t) = True"
| "create_payload (RunStarted r f) = True"
| "create_payload (TicketAssigned q a p n) = True"
| "create_payload _ = False"

lemma appends_CreateTicket:
  assumes "\<And>r p. create_payload p \<or> dispatch_payload p \<Longrightarrow> X r p"
  shows "keeps (appends X) (CreateTicket n w v title fs)"
proof -
  have ev: "keeps (appends X) (append_event ev)" if "create_payload (E_Payload ev)" for ev
    by (rule keeps_appends [OF adds_append_event, of X]) (use that assms in auto)
  have sched: "keeps (appends X) (scheduleStep r i def nm)" for r i def nm
    by (rule keeps_appends [OF adds_scheduleStep, of "\<lambda>_. dispatch_payload"])
       (simp_all add: dispatch_payload_def assms)
  have disp: "keeps (appends X) (dispatch n run def)" for run def
    by (rule keeps_appends [OF adds_dispatch_any]) (simp add: on_any_def assms)
  show ?thesis
    unfolding CreateTicket_def Let_def
    by (intro gr.keeps_bnd gr.keeps_if gr.keeps_ret appends_wrap_error appends_store ev sched disp
         appends_none [OF adds_loadWorkflow] appends_none [OF adds_now] appends_none [OF adds_newID]
         appends_none [OF adds_mustJSON] appends_none [OF adds_GetRun]) simp_all
qed

lemma appends_RegisterWorkflow: "keeps (appends X) (Engine_RegisterWorkflow def)"
  unfolding Engine_RegisterWorkflow_def Let_def
  by (intro gr.keeps_if gr.keeps_bnd gr.keeps_fail appends_store)

lemma appends_Close: "keeps (appends X) Close"
  unfolding Close_def by (intro gr.keeps_bnd gr.keeps_get gr.keeps_if gr.keeps_ret appends_put) simp

lemma keeps_at: "keeps R m \<Longrightarrow> R s (snd (m s))"
  by (simp add: keeps_def)

lemma appends_take_task: "keeps (appends X) take_task"
  unfolding take_task_def
  by (intro gr.keeps_bnd appends_none [OF adds_sample])
     (auto simp: keeps_def appends_same_log split: prod.split)

lemma appends_worker_turn:
  assumes "\<And>r p. task_payload p \<or> dispatch_payload p \<Longrightarrow> X r p"
  shows "keeps (appends X) (worker_turn n)"
  unfolding worker_turn_def
proof (rule gr.keeps_bnd [OF appends_take_task])
  have "keeps (appends X) (executeTask n item)" for item
    by (rule keeps_appends [OF adds_executeTask]) (use assms in \<open>auto simp: on_run_def\<close>)
  then show "keeps (appends X) (case t of Run item \<Rightarrow> ignore (executeTask n item) | _ \<Rightarrow> ret ())" for t
    by (cases t) (simp_all add: gr.keeps_ret gr.keeps_ignore)
qed

text \<open>The requests other than decisions and cancellations.\<close>

fun decision :: "request \<Rightarrow> bool" where
  "decision (ApproveStep r step who comment) = True"
| "decision (RejectStep r step who reason) = True"
| "decision (CancelRun r reason) = True"
| "decision _ = False"

lemma appends_perform:
  assumes "\<And>r p. create_payload p \<or> dispatch_payload p \<Longrightarrow> X r p" "\<not> decision q"
  shows "appends X s (perform n q s)"
proof -
  have "keeps (appends X) (Recover n)"
    by (rule keeps_appends [OF adds_Recover]) (simp add: on_any_def assms)
  with assms(2) appends_CreateTicket [of X, OF assms(1)] show ?thesis
    by (cases q) (simp_all add: Events_def ListRuns_def Engine_GetTicket_def Engine_ListTickets_def
      Engine_GetWorkflow_def Engine_ListWorkflows_def keeps_at [OF appends_RegisterWorkflow]
      keeps_at keeps_at [OF appends_Close] appends_same_log RegisterTask_def SetClock_def
      appends_none [OF adds_GetRun, THEN keeps_at] appends_none [OF adds_log_History, THEN keeps_at]
      appends_none [OF adds_log_Runs, THEN keeps_at] appends_none [OF adds_store(1), THEN keeps_at]
      appends_none [OF adds_store(3), THEN keeps_at] appends_none [OF adds_store(4), THEN keeps_at]
      appends_none [OF adds_loadWorkflow, THEN keeps_at])
qed

abbreviation grows :: "Engine \<Rightarrow> Engine \<Rightarrow> bool" where
  "grows \<equiv> appends (\<lambda>_ _. True)"

lemma grows_perform: "grows s (perform n q s)"
proof (cases "decision q")
  case True
  then show ?thesis
    by (cases q) (simp_all add: keeps_appends [OF adds_Approve, THEN keeps_at]
      keeps_appends [OF adds_Reject, THEN keeps_at] keeps_appends [OF adds_Cancel, THEN keeps_at])
qed (rule appends_perform, simp_all)

lemma grows_step: "engine_step W n s t \<Longrightarrow> grows s t"
  by (induction rule: engine_step.induct)
     (simp_all add: grows_perform keeps_at [OF appends_worker_turn]
        keeps_appends [OF adds_sweep, THEN keeps_at] restart_def NewEngine_def appends_same_log)

lemma appends_history:
  assumes "appends X s t" "log_ok (G_log s)"
  obtains new where "History (G_log t) r = History (G_log s) r @ new"
    and "\<forall>p \<in> set (payloads new). X r p" and "log_ok (G_log t)"
proof -
  obtain wes where wes: "G_log t = mem.append_all wes (G_log s)"
      "\<forall>(w, e) \<in> set wes. X (E_RunID e) (E_Payload e)"
    using assms(1) by (auto simp: appends_def)
  from append_all_history [OF assms(2) wes(2), of r] wes(1) that show ?thesis by metis
qed

lemma reachable_log_ok: "reachable W n s \<Longrightarrow> log_ok (G_log s)"
proof (induction rule: reachable.induct)
  case (start world workers)
  show ?case by (simp add: NewEngine_def log_ok_new)
next
  case (next_state s t)
  from appends_history [OF grows_step [OF next_state(2)] next_state(3)] show ?case by blast
qed

lemma grows_history:
  "grows s t \<Longrightarrow> log_ok (G_log s) \<Longrightarrow> \<exists>new. History (G_log t) r = History (G_log s) r @ new"
  by (erule (1) appends_history) blast

section \<open>The demonstration states are reachable\<close>

lemma reachable_created:
  assumes "W (calm (\<lambda>_. 5))"
  shows "reachable W 3 (created h def)"
proof -
  have "created h def = perform 3 (NewTicket ''wf'' ''1'' ''laptop'' None)
      (perform 3 (BindTask ''do'' h) (perform 3 (Deploy def)
        (NewEngine NewInMemoryEventLog NewInMemoryStore 4 (calm (\<lambda>_. 5)))))"
    by (simp add: created_def engine_with_def)
  then show ?thesis
    using assms by (simp only:) (intro next_state [OF _ engine_step.call] start)
qed

lemmas reachable_approval_demo = reachable_created [of _ handler_ok approval_flow, unfolded created_approval]
lemmas reachable_task_demo = reachable_created [of _ _ task_flow, unfolded created_task]

lemma reachable_finished_demo: "reachable (\<lambda>_. True) 3 finished_demo"
  unfolding finished_demo_def
  by (intro next_state [OF _ engine_step.work] reachable_task_demo TrueI) (simp_all add: demo_workers)

section \<open>What each step may append\<close>

text \<open>
  Creating a ticket writes to a single run, the one it draws an identifier for: until then it
  appends nothing.
\<close>

definition writes_one :: "(payload \<Rightarrow> bool) \<Rightarrow> 'a eng \<Rightarrow> bool" where
  "writes_one X m \<longleftrightarrow> (\<forall>s. \<exists>r0. appends (\<lambda>r p. r = r0 \<and> X p) s (snd (m s)))"

lemma writes_one_bnd:
  assumes "keeps (appends (\<lambda>_ _. False)) m" "\<And>x. writes_one X (f x)"
  shows "writes_one X (bnd m f)"
  unfolding writes_one_def
proof
  fix s
  obtain x t where m: "m s = (x, t)" by fastforce
  have "appends (\<lambda>_ _. False) s t" by (rule keepsD [OF assms(1) m])
  then have none: "appends Q s t" for Q unfolding appends_def by fast
  show "\<exists>r0. appends (\<lambda>r p. r = r0 \<and> X p) s (snd (bnd m f s))"
  proof (cases x)
    case (Ok y)
    obtain r0 where "appends (\<lambda>r p. r = r0 \<and> X p) t (snd (f y t))"
      using assms(2) unfolding writes_one_def by blast
    from gr.trans [OF none this] show ?thesis using Ok m by (auto simp: bnd_def)
  qed (use none m in \<open>auto simp: bnd_def\<close>)
qed

lemma writes_oneI: "keeps (appends (\<lambda>r p. r = r0 \<and> X p)) m \<Longrightarrow> writes_one X m"
  unfolding writes_one_def keeps_def by blast

lemma CreateTicket_writes_one:
  "writes_one (\<lambda>p. create_payload p \<or> dispatch_payload p) (CreateTicket n w v title fs)"
proof -
  let ?X = "\<lambda>p. create_payload p \<or> dispatch_payload p"
  have ev: "keeps (appends (\<lambda>r p. r = r0 \<and> ?X p)) (append_event (event i r0 p))" if "create_payload p" for r0 i p
    by (rule keeps_appends [OF adds_append_event, of "\<lambda>r p. r = r0 \<and> ?X p"]) (use that in auto)
  have sched: "keeps (appends (\<lambda>r p. r = r0 \<and> ?X p)) (scheduleStep r0 i def nm)" for r0 i def nm
    by (rule keeps_appends [OF adds_scheduleStep, of "\<lambda>r p. r = r0 \<and> dispatch_payload p"])
       (simp_all add: dispatch_payload_def)
  have disp: "keeps (appends (\<lambda>r p. r = r0 \<and> ?X p)) (dispatch n run def)" if "R_ID run = r0" for r0 run def
    by (rule keeps_appends [OF adds_dispatch [OF that, where X = "\<lambda>_. False"]]) (auto simp: on_run_def)
  have tail: "keeps (appends (\<lambda>r p. r = r0 \<and> ?X p)) (bnd (GetRun r0) (\<lambda>run. bnd (dispatch n run def) (\<lambda>_. ret (t, run))))"
    for r0 def and t :: Ticket
    by (rule gr.keeps_bnd_post [where Q = "\<lambda>run. R_ID run = r0", OF appends_none [OF adds_GetRun]])
       (auto dest: GetRun_R_ID intro!: gr.keeps_bnd disp gr.keeps_ret)
  show ?thesis
    unfolding CreateTicket_def Let_def
    apply (rule writes_one_bnd, intro appends_wrap_error appends_none [OF adds_loadWorkflow])
    apply (rule writes_one_bnd, rule appends_none [OF adds_now])
    apply (rule writes_one_bnd, rule appends_none [OF adds_newID])
    apply (rule writes_one_bnd, rule appends_none [OF adds_newID])
    subgoal for def t0 i r0
      by (rule writes_oneI [of r0], intro tail gr.keeps_bnd gr.keeps_if gr.keeps_ret appends_wrap_error
          appends_store ev sched appends_none [OF adds_mustJSON]) simp_all
    done
qed

text \<open>The events that a request may append to a run; \<open>r0\<close> is the run of a new ticket.\<close>

fun may_append :: "request \<Rightarrow> run_id \<Rightarrow> run_id \<Rightarrow> payload \<Rightarrow> bool" where
  "may_append (NewTicket w v title fs) r0 r p = (r = r0 \<and> (create_payload p \<or> dispatch_payload p))"
| "may_append (ApproveStep i step who comment) r0 r p = (r = i \<and> (grant_payload p \<or> dispatch_payload p))"
| "may_append (RejectStep i step who reason) r0 r p = (r = i \<and> reject_payload p)"
| "may_append (CancelRun i reason) r0 r p = (r = i \<and> cancel_payload p)"
| "may_append RecoverRuns r0 r p = dispatch_payload p"
| "may_append _ r0 r p = False"

lemma perform_may_append: "\<exists>r0. appends (may_append q r0) s (perform n q s)"
proof (cases q)
  case (NewTicket w v title fs)
  have "may_append q r0 = (\<lambda>r p. r = r0 \<and> (create_payload p \<or> dispatch_payload p))" for r0
    by (simp add: NewTicket fun_eq_iff)
  with CreateTicket_writes_one [of n w v title fs] show ?thesis
    by (simp add: NewTicket writes_one_def)
next
  case (ApproveStep r step who comment)
  have "appends (may_append q r0) s (snd (Approve n r step who comment s))" for r0
    by (rule keeps_appends [OF adds_Approve, THEN keeps_at]) (auto simp: ApproveStep on_run_def)
  then show ?thesis by (simp add: ApproveStep)
next
  case (RejectStep r step who reason)
  have "appends (may_append q r0) s (snd (Reject r step who reason s))" for r0
    by (rule keeps_appends [OF adds_Reject, THEN keeps_at]) (auto simp: RejectStep exactly_on_def)
  then show ?thesis by (simp add: RejectStep)
next
  case (CancelRun r reason)
  have "appends (may_append q r0) s (snd (Cancel r reason s))" for r0
    by (rule keeps_appends [OF adds_Cancel, THEN keeps_at]) (auto simp: CancelRun exactly_on_def)
  then show ?thesis by (simp add: CancelRun)
next
  case RecoverRuns
  have "appends (may_append q r0) s (snd (Recover n s))" for r0
    by (rule keeps_appends [OF adds_Recover, THEN keeps_at]) (auto simp: RecoverRuns on_any_def)
  then show ?thesis by (simp add: RecoverRuns)
qed (simp_all add: Events_def ListRuns_def Engine_GetTicket_def Engine_ListTickets_def
      Engine_GetWorkflow_def Engine_ListWorkflows_def keeps_at [OF appends_RegisterWorkflow]
      keeps_at keeps_at [OF appends_Close] appends_same_log RegisterTask_def SetClock_def
      appends_none [OF adds_GetRun, THEN keeps_at] appends_none [OF adds_log_History, THEN keeps_at]
      appends_none [OF adds_log_Runs, THEN keeps_at] appends_none [OF adds_store(1), THEN keeps_at]
      appends_none [OF adds_store(3), THEN keeps_at] appends_none [OF adds_store(4), THEN keeps_at]
      appends_none [OF adds_loadWorkflow, THEN keeps_at])

text \<open>A worker's turn appends to the run of the oldest task in the queue only.\<close>

lemma turn_may_append:
  "appends (\<lambda>r p. (\<exists>item rest. P_tasks (G_pool s) = item # rest \<and> r = TI_RunID item) \<and>
     (task_payload p \<or> dispatch_payload p)) s (snd (worker_turn n s))"
proof -
  obtain x t where t: "take_task s = (x, t)" by fastforce
  have same: "G_log t = G_log s" using t by (auto simp: take_task_def bnd_def sample_def split: prod.splits)
  have first: "\<exists>rest. P_tasks (G_pool s) = item # rest" if "x = Ok (Run item)" for item
    using t that by (auto simp: take_task_def bnd_def sample_def loop_turn_def
        split: prod.splits list.splits if_splits)
  let ?X = "\<lambda>r p. (\<exists>item rest. P_tasks (G_pool s) = item # rest \<and> r = TI_RunID item) \<and>
     (task_payload p \<or> dispatch_payload p)"
  show ?thesis
  proof (cases "\<exists>item. x = Ok (Run item)")
    case True
    then obtain item where x: "x = Ok (Run item)" ..
    have "appends ?X t (snd (executeTask n item t))"
      by (rule keeps_appends [OF adds_executeTask, THEN keeps_at]) (use first [OF x] in \<open>auto simp: on_run_def\<close>)
    with gr.trans [OF appends_same_log [of t s, OF same]] show ?thesis
      by (simp add: worker_turn_def bnd_def t x)
  next
    case False
    then have "snd (worker_turn n s) = t"
      by (cases x; cases "case x of Ok y \<Rightarrow> y | _ \<Rightarrow> undefined")
         (auto simp: worker_turn_def bnd_def t ret_def split: turn.splits)
    then show ?thesis by (simp add: appends_same_log same)
  qed
qed

definition only_appends :: "(run_id \<Rightarrow> payload \<Rightarrow> bool) \<Rightarrow> Engine \<Rightarrow> Engine \<Rightarrow> bool" where
  "only_appends X s t \<longleftrightarrow> (\<forall>r. \<exists>new. History (G_log t) r = History (G_log s) r @ new \<and> (\<forall>p \<in> set (payloads new). X r p) \<and>
     map E_Seq (History (G_log t) r) = [1 .. int (length (History (G_log t) r))])"

lemma appends_only: "appends X s t \<Longrightarrow> log_ok (G_log s) \<Longrightarrow> only_appends X s t"
  unfolding only_appends_def
proof
  fix r assume "appends X s t" "log_ok (G_log s)"
  then obtain new where "History (G_log t) r = History (G_log s) r @ new" "\<forall>p \<in> set (payloads new). X r p"
      "log_ok (G_log t)" by (rule appends_history)
  moreover from this(3) have "map E_Seq (History (G_log t) r) = [1 .. int (length (History (G_log t) r))]"
    by (simp add: log_ok_def History_def)
  ultimately show "\<exists>new. History (G_log t) r = History (G_log s) r @ new \<and> (\<forall>p \<in> set (payloads new). X r p) \<and>
     map E_Seq (History (G_log t) r) = [1 .. int (length (History (G_log t) r))]" by blast
qed

section \<open>Properties\<close>

text \<open>
  (C5) The event log is append-only, and each step appends only what it may: on success, error or
  crash every history grows only at its end and stays numbered 1, 2, ..., n; a call appends only to
  the run it is about (a new ticket's own run, the run that is decided on or cancelled) and only
  events of the kinds of that call, reads and deployments none; a worker's turn only the events of
  executing a task, and only to the run of the oldest queued task; a timer pass and recovery only what
  dispatching appends; a restart nothing.
\<close>

theorem step_appends_only:
  assumes "reachable W n s"
  shows "(\<exists>r0. only_appends (may_append q r0) s (perform n q s)) \<and>
    only_appends (\<lambda>r p. (\<exists>item rest. P_tasks (G_pool s) = item # rest \<and> r = TI_RunID item) \<and>
      (task_payload p \<or> dispatch_payload p)) s (snd (worker_turn n s)) \<and>
    only_appends (\<lambda>r p. dispatch_payload p) s (snd (sweep n s)) \<and>
    only_appends (\<lambda>r p. False) s (restart workers world s)"
proof (intro conjI)
  note ok = reachable_log_ok [OF assms]
  show "\<exists>r0. only_appends (may_append q r0) s (perform n q s)"
    using perform_may_append [of q s n] appends_only ok by blast
  show "only_appends (\<lambda>r p. (\<exists>item rest. P_tasks (G_pool s) = item # rest \<and> r = TI_RunID item) \<and>
      (task_payload p \<or> dispatch_payload p)) s (snd (worker_turn n s))"
    by (rule appends_only [OF turn_may_append ok])
  have "appends (\<lambda>r p. dispatch_payload p) s (snd (sweep n s))"
    by (rule keeps_appends [OF adds_sweep, THEN keeps_at]) (simp add: on_any_def)
  then show "only_appends (\<lambda>r p. dispatch_payload p) s (snd (sweep n s))" by (rule appends_only [OF _ ok])
  show "only_appends (\<lambda>r p. False) s (restart workers world s)"
    by (rule appends_only [OF _ ok]) (simp add: restart_def NewEngine_def appends_same_log)
qed

theorem step_appends_only_witness:
  "\<exists>r0. only_appends (may_append (ReadRun ''run_0'') r0) approval_demo (perform 3 (ReadRun ''run_0'') approval_demo)"
  using step_appends_only [OF reachable_approval_demo [of "\<lambda>_. True", simplified], of "ReadRun ''run_0''"] by blast

end
