(* ===== verification/Engine_Safety.thy ===== *)
theory Engine_Safety
  imports Engine_Steps
begin

text \<open>
  Runs on a failure path never complete. Once a history holds a RUN_FAILING or RUN_FAILED
  event, no step of the engine appends RUN_COMPLETED to it: the flag R_Failed that advance
  asks for is the replay of exactly those events, and the operations that append one do not
  reuse a run they derived before.
\<close>

section \<open>Honest histories\<close>

fun completed_payload :: "payload \<Rightarrow> bool" where
  "completed_payload (RunCompleted n) = True"
| "completed_payload _ = False"

text \<open>\<open>b\<close>: a failure was seen before the list.\<close>

fun honest :: "bool \<Rightarrow> payload list \<Rightarrow> bool" where
  "honest b [] = True"
| "honest b (p # ps) \<longleftrightarrow> \<not> (b \<and> completed_payload p) \<and> honest (b \<or> failing p) ps"

lemma honest_append:
  "honest b (xs @ ys) \<longleftrightarrow> honest b xs \<and> honest (b \<or> (\<exists>p \<in> set xs. failing p)) ys"
  by (induction xs arbitrary: b) (auto simp: disj_assoc)

lemma honest_no_completion: "\<forall>p \<in> set ps. \<not> completed_payload p \<Longrightarrow> honest b ps"
  by (induction ps arbitrary: b) auto

lemma honest_no_failure: "\<forall>p \<in> set ps. \<not> failing p \<Longrightarrow> honest False ps"
  by (induction ps) auto

definition failed_in :: "Engine \<Rightarrow> run_id \<Rightarrow> bool" where
  "failed_in s r \<longleftrightarrow> (\<exists>p \<in> set (payloads (History (G_log s) r)). failing p)"

definition safe :: "Engine \<Rightarrow> Engine \<Rightarrow> bool" where
  "safe s t \<longleftrightarrow> (log_ok (G_log s) \<longrightarrow> log_ok (G_log t) \<and>
     (\<forall>r. \<exists>new. History (G_log t) r = History (G_log s) r @ new \<and> honest (failed_in s r) (payloads new)))"

interpretation sf: frame safe
proof
  fix s t u
  show "safe s s" unfolding safe_def by force
  assume st: "safe s t" and tu: "safe t u"
  show "safe s u" unfolding safe_def
  proof (intro impI conjI allI)
    assume ok: "log_ok (G_log s)"
    with st have "log_ok (G_log t)" by (simp add: safe_def)
    with tu show "log_ok (G_log u)" by (simp add: safe_def)
    fix r
    obtain new where new: "History (G_log t) r = History (G_log s) r @ new"
        "honest (failed_in s r) (payloads new)"
      using st ok unfolding safe_def by blast
    obtain new' where new': "History (G_log u) r = History (G_log t) r @ new'"
        "honest (failed_in t r) (payloads new')"
      using tu \<open>log_ok (G_log t)\<close> unfolding safe_def by blast
    have "failed_in t r \<longleftrightarrow> failed_in s r \<or> (\<exists>p \<in> set (payloads new). failing p)"
      using new(1) by (auto simp: failed_in_def)
    with new new' show "\<exists>new. History (G_log u) r = History (G_log s) r @ new \<and>
        honest (failed_in s r) (payloads new)"
      by (intro exI [of _ "new @ new'"]) (simp add: honest_append)
  qed
qed

lemma safe_adds: "adds Q s t \<Longrightarrow> (\<And>r p. Q r p \<Longrightarrow> \<not> completed_payload p) \<Longrightarrow> safe s t"
  unfolding safe_def
  by (intro impI conjI allI; erule (1) adds_history) (blast intro: honest_no_completion)+

lemma keeps_safe_adds:
  "keeps (adds Q) m \<Longrightarrow> (\<And>r p. Q r p \<Longrightarrow> \<not> completed_payload p) \<Longrightarrow> keeps safe m"
  unfolding keeps_def by (blast intro: safe_adds)

lemmas keeps_safe_none = keeps_safe_adds [of "\<lambda>_ _. False", simplified]

section \<open>Dispatching below a known failure flag\<close>

definition known :: "bool \<Rightarrow> run_id \<Rightarrow> Engine \<Rightarrow> bool" where
  "known b r s \<longleftrightarrow> log_ok (G_log s) \<and> (failed_in s r \<longleftrightarrow> b)"

definition flagged :: "bool \<Rightarrow> run_id \<Rightarrow> WorkflowRun \<Rightarrow> bool" where
  "flagged b r run \<longleftrightarrow> R_ID run = r \<and> (R_Failed run \<longleftrightarrow> b)"

definition neutral :: "bool \<Rightarrow> run_id \<Rightarrow> run_id \<Rightarrow> payload \<Rightarrow> bool" where
  "neutral b r r' p \<longleftrightarrow> r' = r \<and> (if b then \<not> completed_payload p else \<not> failing p)"

lemma known_adds: "known b r s \<Longrightarrow> adds (neutral b r) s t \<Longrightarrow> known b r t"
  unfolding known_def
  by (erule conjE, erule (1) adds_history [where r = r])
     (auto simp: failed_in_def neutral_def payloads_def split: if_splits)

lemma GetRun_flagged: "known b r s \<Longrightarrow> GetRun r s = (Ok run, t) \<Longrightarrow> flagged b r run"
  by (erule GetRun_OkD) (auto simp: known_def flagged_def failed_in_def R_Failed_applyAll)

lemma quiet_statusless: "quiet_payload p \<Longrightarrow> \<not> completed_payload p \<and> \<not> failing p"
  by (cases p) simp_all

lemma quiet_neutral: "quiet_payload p \<Longrightarrow> neutral b r r p"
  by (simp add: neutral_def quiet_statusless)

interpretation nt: dispatching r "known b r" "flagged b r" "neutral b r" for b r
  by unfold_locales
     (auto simp: flagged_def neutral_def intro: known_adds dest: quiet_statusless GetRun_flagged)

lemma safe_neutral: "known b r s \<Longrightarrow> adds (neutral b r) s t \<Longrightarrow> safe s t"
proof -
  assume k: "known b r s" and ad: "adds (neutral b r) s t"
  show "safe s t"
    unfolding safe_def
  proof (intro impI conjI allI)
    assume ok: "log_ok (G_log s)"
    show "log_ok (G_log t)" using ad ok by (rule adds_history)
    fix r'
    obtain new where new: "History (G_log t) r' = History (G_log s) r' @ new"
        "\<forall>p \<in> set (payloads new). neutral b r r' p"
      using ad ok by (rule adds_history)
    have "honest (failed_in s r') (payloads new)"
    proof (cases "r' = r")
      case True
      with new(2) k show ?thesis
        by (cases b) (auto simp: known_def neutral_def intro: honest_no_completion honest_no_failure)
    next
      case False
      with new(2) have "payloads new = []" by (cases new) (auto simp: neutral_def)
      then show ?thesis by simp
    qed
    with new(1) show "\<exists>new. History (G_log t) r' = History (G_log s) r' @ new \<and>
        honest (failed_in s r') (payloads new)" by blast
  qed
qed

section \<open>Programs that may fail the run at their end\<close>

definition tail_safe :: "bool \<Rightarrow> run_id \<Rightarrow> 'a eng \<Rightarrow> bool" where
  "tail_safe b r m \<longleftrightarrow> (\<forall>s. known b r s \<longrightarrow> safe s (snd (m s)))"

lemma tail_guarded: "keeps (guarded (known b r) (neutral b r)) m \<Longrightarrow> tail_safe b r m"
  unfolding tail_safe_def keeps_def guarded_def by (blast intro: safe_neutral)

lemma tail_bnd:
  assumes "keeps (guarded (known b r) (neutral b r)) m" and "\<And>x. tail_safe b r (f x)"
  shows "tail_safe b r (bnd m f)"
  unfolding tail_safe_def
proof (intro allI impI)
  fix s
  assume k: "known b r s"
  have m: "known b r (snd (m s))" "safe s (snd (m s))"
    using keeps_at [OF assms(1), of s] k by (auto simp: guarded_def intro: safe_neutral)
  show "safe s (snd (bnd m f s))"
    by (rule sf.bnd_at) (use m assms(2) in \<open>auto simp: tail_safe_def\<close>)
qed

lemma tail_cases:
  "(x = None \<Longrightarrow> tail_safe b r n) \<Longrightarrow> (\<And>y. x = Some y \<Longrightarrow> tail_safe b r (f y)) \<Longrightarrow>
    tail_safe b r (case x of None \<Rightarrow> n | Some y \<Rightarrow> f y)"
  "(\<And>e. z = Inl e \<Longrightarrow> tail_safe b r (g e)) \<Longrightarrow> (\<And>y. z = Inr y \<Longrightarrow> tail_safe b r (h y)) \<Longrightarrow>
    tail_safe b r (case z of Inl e \<Rightarrow> g e | Inr y \<Rightarrow> h y)"
  "tail_safe b r m \<Longrightarrow> tail_safe b r n' \<Longrightarrow> tail_safe b r (if c then m else n')"
  by (simp_all split: option.split sum.split)

lemma tail_failing:
  assumes "R_ID run = r" "tail_safe True r m"
  shows "tail_safe b r (bnd (emit run (RunFailing step x)) (\<lambda>_. m))"
  unfolding tail_safe_def
proof (intro allI impI)
  fix s
  assume "known b r s"
  have st: "safe s (snd (emit run (RunFailing step x) s))"
    by (rule safe_adds [where Q = "\<lambda>_. \<lambda>p. \<not> completed_payload p"], rule keeps_at, rule adds_emit) simp_all
  show "safe s (snd (bnd (emit run (RunFailing step x)) (\<lambda>_. m) s))"
  proof (rule sf.bnd_at, rule st)
    fix ev t
    assume e: "emit run (RunFailing step x) s = (Ok ev, t)"
    with st \<open>known b r s\<close> have "log_ok (G_log t)" by (simp add: safe_def known_def)
    moreover have "failed_in t r"
      using emit_OkD [OF e] assms(1) by (auto simp: failed_in_def payloads_def)
    ultimately show "safe t (snd (m t))"
      using assms(2) by (simp add: tail_safe_def known_def)
  qed
qed

section \<open>The operations\<close>

lemma adds_none: "keeps (adds (\<lambda>_ _. False)) m \<Longrightarrow> keeps (guarded (known b r) (neutral b r)) m"
  by (rule nt.lift, erule keeps_adds_mono) simp

lemma tail_advance_failed:
  "R_ID run = r \<Longrightarrow> tail_safe True r (advance (dispatch n) run def step False)"
  by (intro tail_guarded nt.keeps_advance_failed nt.good_dispatch) (simp_all add: neutral_def)

lemma neutral_emit:
  "R_ID run = r \<Longrightarrow> \<not> completed_payload p \<Longrightarrow> \<not> failing p \<Longrightarrow>
    keeps (guarded (known b r) (neutral b r)) (emit run p)"
  by (intro nt.lift adds_emit) (simp add: neutral_def)

lemma tail_failStep: "R_ID run = r \<Longrightarrow> tail_safe b r (failStep n run def step x)"
  unfolding failStep_def
  by (intro tail_cases tail_bnd tail_failing tail_advance_failed neutral_emit tail_guarded [OF gd.keeps_crash])
     simp_all

lemma tail_handleTaskFailure:
  assumes r: "R_ID run = r"
  shows "tail_safe b r (handleTaskFailure n run def step sd x)"
proof -
  have resched: "keeps (guarded (known b r) (neutral b r)) (append_event ev)"
    if "E_RunID ev = r" "\<exists>k d. E_Payload ev = StepScheduled step k d" for ev
    using that by (intro nt.lift adds_append_event) (auto simp: neutral_def)
  have again: "tail_safe b r (bnd (attempt (GetRun r)) (\<lambda>x. case x of Inl e \<Rightarrow> ret ()
      | Inr nr \<Rightarrow> dispatch n nr def))"
    by (intro tail_guarded nt.keeps_attempt_GetRun_bnd gd.keeps_ret nt.keeps_dispatch)
  show ?thesis
    unfolding handleTaskFailure_def Let_def r
    by (intro tail_cases tail_bnd tail_failStep resched neutral_emit again adds_none [OF adds_now]
         tail_guarded [OF gd.keeps_crash] r) (simp_all add: r)
qed

lemma tail_task_failed:
  assumes r: "R_ID (run :: WorkflowRun) = r"
  shows "tail_safe b r (bnd (attempt (GetRun (R_ID run)))
    (\<lambda>fr. handleTaskFailure n (case fr of Inr r \<Rightarrow> r | Inl _ \<Rightarrow> run) def step sd herr))"
  unfolding tail_safe_def r
proof (intro allI impI, rule sf.bnd_at)
  fix s x t
  assume k: "known b r s"
  have "keeps (guarded (known b r) (neutral b r)) (attempt (GetRun r))"
    by (intro gd.keeps_attempt adds_none adds_GetRun)
  then have "guarded (known b r) (neutral b r) s (snd (attempt (GetRun r) s))" by (rule keeps_at)
  with k have st: "known b r (snd (attempt (GetRun r) s))" "safe s (snd (attempt (GetRun r) s))"
    by (auto simp: guarded_def intro: safe_neutral)
  show "safe s (snd (attempt (GetRun r) s))" by (rule st)
  assume g: "attempt (GetRun r) s = (Ok x, t)"
  have "R_ID (case x of Inr r \<Rightarrow> r | Inl _ \<Rightarrow> run) = r"
    using g r by (cases x) (auto dest!: attempt_InrD GetRun_R_ID)
  with st(1) g tail_handleTaskFailure [of "case x of Inr r \<Rightarrow> r | Inl _ \<Rightarrow> run" r b n def step sd herr]
  show "safe t (snd (handleTaskFailure n (case x of Inr r \<Rightarrow> r | Inl _ \<Rightarrow> run) def step sd herr t))"
    by (simp add: tail_safe_def)
qed

text \<open>Whatever follows a GetRun may use the flag it returns.\<close>

lemma safe_GetRun_bnd:
  assumes "\<And>b run. flagged b r run \<Longrightarrow> tail_safe b r (f run)"
  shows "keeps safe (bnd (GetRun r) f)"
proof (rule keepsI)
  fix s
  show "safe s (snd (bnd (GetRun r) f s))"
  proof (cases "log_ok (G_log s)")
    case True
    have k: "known (failed_in s r) r s" using True by (simp add: known_def)
    have g: "adds (\<lambda>_ _. False) s (snd (GetRun r s))" by (rule keeps_at [OF adds_GetRun])
    show ?thesis
    proof (rule sf.bnd_at)
      show "safe s (snd (GetRun r s))" using g by (rule safe_adds) simp
      fix run t
      assume run: "GetRun r s = (Ok run, t)"
      have "adds (\<lambda>_ _. False) s t" using g run by simp
      then have "adds (neutral (failed_in s r) r) s t" by (rule adds_mono) simp
      with k have "known (failed_in s r) r t" by (rule known_adds)
      with assms [OF GetRun_flagged [OF k run]] show "safe t (snd (f run t))"
        by (simp add: tail_safe_def)
    qed
  qed (simp add: safe_def)
qed

lemma flagged_ID: "flagged b r run \<Longrightarrow> R_ID run = r"
  by (simp add: flagged_def)

lemma safe_executeTask: "keeps safe (executeTask n t)"
  unfolding executeTask_def
  by (rule safe_GetRun_bnd)
     (intro tail_bnd tail_cases adds_none [OF adds_loadWorkflow] adds_none [OF adds_store(1)]
       gd.keeps_get tail_guarded [OF gd.keeps_fail] tail_failStep neutral_emit
       adds_none [OF adds_call_handler] tail_task_failed adds_none [OF adds_mustJSON]
       tail_guarded [OF nt.keeps_advance [OF nt.good_dispatch]]; (simp add: flagged_ID)?)

lemma safe_Approve: "keeps safe (Approve n r step who comment)"
  unfolding Approve_def
  by (rule safe_GetRun_bnd)
     (intro tail_bnd adds_none [OF adds_loadWorkflow] adds_none [OF adds_pending_approval]
       adds_none [OF adds_check] neutral_emit tail_guarded nt.keeps_attempt_GetRun_bnd gd.keeps_ret
       gd.keeps_bnd gd.keeps_ignore nt.keeps_advanceApproval nt.good_dispatch nt.keeps_dispatchAfter;
       (simp add: flagged_ID)?)

lemma safe_Reject: "keeps safe (Reject r step who reason)"
  by (rule keeps_safe_adds [OF adds_Reject]) (auto simp: exactly_on_def elim: reject_payload.elims)

lemma safe_Cancel: "keeps safe (Cancel r reason)"
  by (rule keeps_safe_adds [OF adds_Cancel]) (auto simp: exactly_on_def elim: cancel_payload.elims)

lemma tail_loaded:
  "flagged b r run \<Longrightarrow> tail_safe b r (bnd (attempt (loadWorkflow w v)) (\<lambda>d.
     case d of Inl e \<Rightarrow> ret () | Inr def \<Rightarrow> dispatch n run def))"
  by (intro tail_bnd gd.keeps_attempt adds_none adds_loadWorkflow tail_cases tail_guarded
       gd.keeps_ret nt.keeps_dispatch)

lemma safe_Recover: "keeps safe (Recover n)"
  unfolding Recover_def
  by (intro sf.keeps_bnd sf.keeps_for_each keeps_safe_none adds_log_Runs safe_GetRun_bnd tail_loaded)

lemma safe_sweep: "keeps safe (sweep n)"
proof -
  have one: "keeps safe (bnd (attempt (GetRun r)) (\<lambda>x. case x of Inl e \<Rightarrow> ret ()
      | Inr run \<Rightarrow> bnd (attempt (loadWorkflow (R_Workflow run) (R_WorkflowVer run))) (\<lambda>d.
          case d of Inl e \<Rightarrow> ret () | Inr def \<Rightarrow> dispatch n run def)))" for r
    unfolding keeps_def snd_attempt_bnd
    using safe_GetRun_bnd [OF tail_loaded] by (simp add: keeps_def)
  show ?thesis
    unfolding sweep_def
    by (intro sf.keeps_bnd sf.keeps_attempt keeps_safe_none adds_log_Runs sf.keeps_sum sf.keeps_ret
         sf.keeps_for_each one)
qed

lemma safe_same_log: "G_log t = G_log s \<Longrightarrow> safe s t"
  unfolding safe_def by simp

lemma safe_put: "(\<And>s. G_log (f s) = G_log s) \<Longrightarrow> keeps safe (put f)"
  by (simp add: keeps_def safe_same_log)

lemma safe_writing: "keeps safe m \<Longrightarrow> keeps safe (writing m)"
  unfolding writing_def
  by (intro sf.keeps_bnd keeps_safe_none [OF adds_sample])
     (simp add: sf.keeps_bnd sf.keeps_fail split: outcome.split)

lemma safe_store:
  "keeps safe (store_SaveTicket t)" "keeps safe (store_RegisterWorkflow w)"
  "keeps safe (cache_workflow w nm v)"
  by (simp_all add: store_SaveTicket_def store_RegisterWorkflow_def cache_workflow_def
      safe_writing safe_put)

lemma safe_append_event: "\<not> completed_payload (E_Payload ev) \<Longrightarrow> keeps safe (append_event ev)"
  by (rule keeps_safe_adds [where Q = "\<lambda>_ p. \<not> completed_payload p"])
     (simp_all add: adds_append_event)

lemma safe_scheduleStep: "keeps safe (scheduleStep r i def nm)"
  by (rule keeps_safe_adds [where Q = "\<lambda>_. quiet_payload"])
     (simp_all add: adds_scheduleStep quiet_statusless)

lemma safe_start: "keeps safe (bnd (GetRun r) (\<lambda>run. bnd (dispatch n run def) (\<lambda>_. ret (x run))))"
  by (rule safe_GetRun_bnd) (intro tail_guarded gd.keeps_bnd nt.keeps_dispatch gd.keeps_ret)

lemma safe_wrap_error: "keeps safe m \<Longrightarrow> keeps safe (wrap_error f m)"
  unfolding wrap_error_def by (intro sf.keeps_bnd sf.keeps_attempt sf.keeps_sum sf.keeps_fail sf.keeps_ret)

lemma safe_CreateTicket: "keeps safe (CreateTicket n w v title fs)"
  unfolding CreateTicket_def Let_def
  by (intro sf.keeps_bnd sf.keeps_if sf.keeps_ret safe_wrap_error safe_store safe_append_event
       safe_scheduleStep safe_start keeps_safe_none [OF adds_loadWorkflow]
       keeps_safe_none [OF adds_now] keeps_safe_none [OF adds_newID] keeps_safe_none [OF adds_mustJSON])
     simp_all

lemma safe_worker_turn: "keeps safe (worker_turn n)"
  unfolding worker_turn_def take_task_def
proof (intro sf.keeps_bnd keeps_safe_none [OF adds_sample])
  show "keeps safe (\<lambda>s. case loop_turn c (G_pool s) of (t, p) \<Rightarrow> (Ok t, s\<lparr>G_pool := p\<rparr>))" for c
    by (auto simp: keeps_def safe_same_log split: prod.split)
  show "keeps safe (case t of Run item \<Rightarrow> ignore (executeTask n item) | _ \<Rightarrow> ret ())" for t
    by (cases t) (simp_all add: sf.keeps_ret sf.keeps_ignore safe_executeTask)
qed

lemma safe_perform: "safe s (perform n q s)"
proof (cases q)
  case (Deploy def)
  have "keeps safe (Engine_RegisterWorkflow def)"
    unfolding Engine_RegisterWorkflow_def Let_def
    by (intro sf.keeps_if sf.keeps_bnd sf.keeps_fail safe_store)
  with Deploy show ?thesis by (simp add: keeps_def)
qed (simp_all add: keeps_at [OF safe_CreateTicket] keeps_at [OF safe_Approve] keeps_at [OF safe_Reject]
      keeps_at [OF safe_Cancel] keeps_at [OF safe_Recover] safe_same_log RegisterTask_def SetClock_def
      Close_def Events_def ListRuns_def Engine_GetTicket_def Engine_ListTickets_def
      Engine_GetWorkflow_def Engine_ListWorkflows_def keeps_at [OF keeps_safe_none [OF adds_GetRun]]
      keeps_at [OF keeps_safe_none [OF adds_log_History]] keeps_at [OF keeps_safe_none [OF adds_log_Runs]]
      keeps_at [OF keeps_safe_none [OF adds_store(1)]] keeps_at [OF keeps_safe_none [OF adds_store(3)]]
      keeps_at [OF keeps_safe_none [OF adds_store(4)]] keeps_at [OF keeps_safe_none [OF adds_loadWorkflow]])

lemma safe_step: "engine_step W n s t \<Longrightarrow> safe s t"
  by (induction rule: engine_step.induct)
     (simp_all add: safe_perform keeps_at [OF safe_worker_turn] keeps_at [OF safe_sweep]
        restart_def NewEngine_def safe_same_log)

lemma reachable_honest: "reachable W n s \<Longrightarrow> honest False (payloads (History (G_log s) r))"
proof (induction rule: reachable.induct)
  case (start world workers)
  show ?case by (simp add: NewEngine_def NewInMemoryEventLog_def History_def)
next
  case (next_state s t)
  from safe_step [OF next_state(2)] reachable_log_ok [OF next_state(1)] obtain new where
    "History (G_log t) r = History (G_log s) r @ new" "honest (failed_in s r) (payloads new)"
    unfolding safe_def by blast
  with next_state(3) show ?case by (simp add: honest_append failed_in_def)
qed

text \<open>
  (C2) A failed run never completes: in no reachable state does a history hold RUN_COMPLETED
  after a RUN_FAILING or RUN_FAILED event, however its failure handlers, approvals, timers
  and repeated task executions go on.
\<close>

theorem no_completion_after_failure:
  assumes "reachable W n s" "payloads (History (G_log s) r) = xs @ RunCompleted final # ys"
  shows "\<not> (\<exists>p \<in> set xs. failing p)"
  using reachable_honest [OF assms(1), of r] assms(2) by (simp add: honest_append)

theorem no_completion_after_failure_witness:
  "\<not> (\<exists>p \<in> set (take 9 (history_of finished_demo ''run_0'')). failing p)"
proof -
  from no_completion_after_failure [OF reachable_finished_demo, of "''run_0''" "take 9 (history_of finished_demo ''run_0'')" "''b''" "[]"]
  show ?thesis by (simp add: history_of_def [symmetric] finished_history)
qed

end
