(* ===== verification/Engine_Fuel.thy ===== *)
theory Engine_Fuel
  imports Demo
begin

text \<open>
  The bound on the depth of dispatching is not part of what a call does: a call that does not
  exhaust its bound does the same, event by event, under every larger one. \<open>approx m m'\<close> says
  that \<open>m'\<close> agrees with \<open>m\<close> wherever \<open>m\<close> does not run out; every operation is monotone in the
  dispatcher it is given, so the dispatchers of growing bounds form a chain.
\<close>

section \<open>Approximation\<close>

definition approx :: "('s, 'a) prog \<Rightarrow> ('s, 'a) prog \<Rightarrow> bool" where
  "approx m m' \<longleftrightarrow> (\<forall>s. fst (m s) \<noteq> Crash OutOfFuel \<longrightarrow> m' s = m s)"

named_theorems approx_intros "rules by which programs approximate each other"

lemma approxD: "approx m m' \<Longrightarrow> fst (m s) \<noteq> Crash OutOfFuel \<Longrightarrow> m' s = m s"
  by (simp add: approx_def)

lemma approx_refl [approx_intros]: "approx m m"
  by (simp add: approx_def)

lemma approx_trans: "approx m m' \<Longrightarrow> approx m' m'' \<Longrightarrow> approx m m''"
  by (simp add: approx_def)

lemma approx_out_of_fuel: "approx (crash OutOfFuel) m"
  by (simp add: approx_def)

lemma approx_bnd [approx_intros]:
  assumes "approx m m'" "\<And>x. approx (f x) (f' x)"
  shows "approx (bnd m f) (bnd m' f')"
  unfolding approx_def
proof (intro allI impI)
  fix s
  assume ok: "fst (bnd m f s) \<noteq> Crash OutOfFuel"
  obtain r t where m: "m s = (r, t)" by fastforce
  with ok have "fst (m s) \<noteq> Crash OutOfFuel" by (auto simp: bnd_run)
  with m have "m' s = (r, t)" using approxD [OF assms(1), of s] by simp
  with m ok show "bnd m' f' s = bnd m f s"
    using approxD [OF assms(2)] by (auto simp: bnd_run split: res.splits)
qed

lemma approx_attempt [approx_intros]: "approx m m' \<Longrightarrow> approx (attempt m) (attempt m')"
  unfolding approx_def
proof (intro allI impI)
  fix s
  assume a: "\<forall>s. fst (m s) \<noteq> Crash OutOfFuel \<longrightarrow> m' s = m s" "fst (attempt m s) \<noteq> Crash OutOfFuel"
  then have "fst (m s) \<noteq> Crash OutOfFuel" by (auto simp: attempt_run split: prod.splits res.splits)
  with a(1) show "attempt m' s = attempt m s" by (simp add: attempt_run)
qed

lemma approx_ignore [approx_intros]: "approx m m' \<Longrightarrow> approx (ignore m) (ignore m')"
  unfolding ignore_def by (intro approx_intros)

lemma approx_for_each [approx_intros]:
  "(\<And>x. approx (f x) (f' x)) \<Longrightarrow> approx (for_each xs f) (for_each xs f')"
  by (induction xs) (simp_all add: approx_refl approx_bnd)

lemma approx_if [approx_intros]:
  "approx m m' \<Longrightarrow> approx k k' \<Longrightarrow> approx (if b then m else k) (if b then m' else k')"
  by simp

lemma approx_option [approx_intros]:
  "approx m m' \<Longrightarrow> (\<And>y. approx (f y) (f' y)) \<Longrightarrow>
    approx (case x of None \<Rightarrow> m | Some y \<Rightarrow> f y) (case x of None \<Rightarrow> m' | Some y \<Rightarrow> f' y)"
  by (cases x) simp_all

lemma approx_sum [approx_intros]:
  "(\<And>e. approx (g e) (g' e)) \<Longrightarrow> (\<And>y. approx (f y) (f' y)) \<Longrightarrow>
    approx (case x of Inl e \<Rightarrow> g e | Inr y \<Rightarrow> f y) (case x of Inl e \<Rightarrow> g' e | Inr y \<Rightarrow> f' y)"
  by (cases x) simp_all

lemma approx_kind [approx_intros]:
  "approx a a' \<Longrightarrow> approx b b' \<Longrightarrow> approx c c' \<Longrightarrow> (\<And>y. approx (f y) (f' y)) \<Longrightarrow>
    approx (case k of KindTask \<Rightarrow> a | KindApproval \<Rightarrow> b | KindDelay \<Rightarrow> c | KindOther y \<Rightarrow> f y)
      (case k of KindTask \<Rightarrow> a' | KindApproval \<Rightarrow> b' | KindDelay \<Rightarrow> c' | KindOther y \<Rightarrow> f' y)"
  by (cases k) simp_all

lemma approx_turn [approx_intros]:
  "(\<And>t. approx (f t) (f' t)) \<Longrightarrow> approx m m' \<Longrightarrow> approx k k' \<Longrightarrow>
    approx (case x of Return \<Rightarrow> k | Wait \<Rightarrow> m | Run t \<Rightarrow> f t) (case x of Return \<Rightarrow> k' | Wait \<Rightarrow> m' | Run t \<Rightarrow> f' t)"
  by (cases x) simp_all

section \<open>The dispatchers form a chain\<close>

type_synonym dispatcher = "WorkflowRun \<Rightarrow> WorkflowDef \<Rightarrow> unit eng"

definition below :: "dispatcher \<Rightarrow> dispatcher \<Rightarrow> bool" where
  "below d d' \<longleftrightarrow> (\<forall>run def. approx (d run def) (d' run def))"

lemma belowD: "below d d' \<Longrightarrow> approx (d run def) (d' run def)"
  by (simp add: below_def)

lemma approx_advance [approx_intros]:
  "below d d' \<Longrightarrow> approx (advance d run def step b) (advance d' run def step b)"
  unfolding advance_def Let_def by (intro approx_intros belowD)

lemma approx_fireTimer [approx_intros]:
  "below d d' \<Longrightarrow> approx (fireTimer d run def step) (fireTimer d' run def step)"
  unfolding fireTimer_def by (intro approx_intros belowD)

lemma approx_advanceApproval [approx_intros]:
  "below d d' \<Longrightarrow> approx (advanceApproval d run def step) (advanceApproval d' run def step)"
  unfolding advanceApproval_def Let_def by (intro approx_intros belowD)

lemma approx_jumpTo [approx_intros]:
  "below d d' \<Longrightarrow> approx (jumpTo d run def step) (jumpTo d' run def step)"
  unfolding jumpTo_def by (intro approx_intros belowD)

lemma approx_CheckSLA [approx_intros]:
  "below d d' \<Longrightarrow> approx (CheckSLA d run def) (CheckSLA d' run def)"
  unfolding CheckSLA_def Let_def by (intro approx_intros belowD)

lemma approx_dispatch_step [approx_intros]:
  "below d d' \<Longrightarrow> approx (dispatch_step d run def x) (dispatch_step d' run def x)"
  unfolding dispatch_step_def by (intro approx_intros belowD)

lemma approx_dispatch_approval [approx_intros]:
  "below d d' \<Longrightarrow> approx (dispatch_approval d run def x) (dispatch_approval d' run def x)"
  unfolding dispatch_approval_def by (intro approx_intros belowD)

lemma below_dispatch_body: "below d d' \<Longrightarrow> below (dispatch_body d) (dispatch_body d')"
  unfolding below_def [of "dispatch_body d"] dispatch_body_def by (intro allI approx_intros)

lemma dispatch_Suc: "dispatch (Suc n) = dispatch_body (dispatch n)"
  by (simp add: fun_eq_iff)

lemma below_Suc: "below (dispatch n) (dispatch (Suc n))"
proof (induction n)
  case 0
  show ?case unfolding below_def dispatch.simps(1) using approx_out_of_fuel by blast
next
  case (Suc n)
  show ?case
    unfolding dispatch_Suc [of "Suc n"] by (subst dispatch_Suc) (rule below_dispatch_body [OF Suc])
qed

lemma below_dispatch [approx_intros]: "n \<le> m \<Longrightarrow> below (dispatch n) (dispatch m)"
proof (induction m rule: dec_induct)
  case base
  show ?case by (simp add: below_def approx_refl)
next
  case (step m)
  with below_Suc [of m] show ?case unfolding below_def by (blast intro: approx_trans)
qed

section \<open>Every call\<close>

lemma approx_dispatch [approx_intros]: "n \<le> m \<Longrightarrow> approx (dispatch n run def) (dispatch m run def)"
  using below_dispatch by (rule belowD)

lemma approx_failStep [approx_intros]:
  "n \<le> m \<Longrightarrow> approx (failStep n run def step reason) (failStep m run def step reason)"
  unfolding failStep_def by (intro approx_intros)

lemma approx_handleTaskFailure [approx_intros]:
  "n \<le> m \<Longrightarrow> approx (handleTaskFailure n run def step sd e) (handleTaskFailure m run def step sd e)"
  unfolding handleTaskFailure_def Let_def by (intro approx_intros)

lemma approx_executeTask [approx_intros]: "n \<le> m \<Longrightarrow> approx (executeTask n t) (executeTask m t)"
  unfolding executeTask_def by (intro approx_intros)

lemma approx_worker_turn: "n \<le> m \<Longrightarrow> approx (worker_turn n) (worker_turn m)"
  unfolding worker_turn_def by (intro approx_intros)

lemma approx_CreateTicket:
  "n \<le> m \<Longrightarrow> approx (CreateTicket n w v title fs) (CreateTicket m w v title fs)"
  unfolding CreateTicket_def Let_def by (intro approx_intros)

lemma approx_dispatchAfter [approx_intros]:
  "n \<le> m \<Longrightarrow> approx (dispatchAfter n run def) (dispatchAfter m run def)"
  unfolding dispatchAfter_def dispatchAfter_step_def by (intro approx_intros)

lemma approx_Approve: "n \<le> m \<Longrightarrow> approx (Approve n r step who c) (Approve m r step who c)"
  unfolding Approve_def by (intro approx_intros)

lemma approx_Recover: "n \<le> m \<Longrightarrow> approx (Recover n) (Recover m)"
  unfolding Recover_def by (intro approx_intros)

lemma approx_sweep: "n \<le> m \<Longrightarrow> approx (sweep n) (sweep m)"
  unfolding sweep_def by (intro approx_intros)

text \<open>
  The bound on the depth is not part of the behaviour: a dispatch, a ticket creation, a task
  execution, an approval, a recovery pass, a timer sweep or a turn of a worker that does not exhaust
  its bound has the same result and leaves the same state under every larger bound.
\<close>

lemma bound_is_irrelevant:
  assumes "n \<le> m"
  shows "(fst (dispatch n run def s) \<noteq> Crash OutOfFuel \<longrightarrow> dispatch m run def s = dispatch n run def s) \<and>
    (fst (CreateTicket n w v title fs s) \<noteq> Crash OutOfFuel \<longrightarrow>
       CreateTicket m w v title fs s = CreateTicket n w v title fs s) \<and>
    (fst (executeTask n item s) \<noteq> Crash OutOfFuel \<longrightarrow> executeTask m item s = executeTask n item s) \<and>
    (fst (Approve n r step who c s) \<noteq> Crash OutOfFuel \<longrightarrow> Approve m r step who c s = Approve n r step who c s) \<and>
    (fst (Recover n s) \<noteq> Crash OutOfFuel \<longrightarrow> Recover m s = Recover n s) \<and>
    (fst (sweep n s) \<noteq> Crash OutOfFuel \<longrightarrow> sweep m s = sweep n s) \<and>
    (fst (worker_turn n s) \<noteq> Crash OutOfFuel \<longrightarrow> worker_turn m s = worker_turn n s)"
  using approxD [OF approx_dispatch [OF assms]] approxD [OF approx_CreateTicket [OF assms]]
    approxD [OF approx_executeTask [OF assms]] approxD [OF approx_Approve [OF assms]]
    approxD [OF approx_Recover [OF assms]] approxD [OF approx_sweep [OF assms]]
    approxD [OF approx_worker_turn [OF assms]]
  by blast

end
