(* ===== verification/Engine_Sound.thy ===== *)
theory Engine_Sound
  imports Engine_Recovery
begin

text \<open>
  The invariant that ties the log, the store and the cache together, and what it gives: in a
  world whose backends answer, every run of the log can be derived at any time, and again by a
  new process that only has the log and the store.
\<close>

definition has_ticket :: "ticket_id \<Rightarrow> Engine \<Rightarrow> bool" where
  "has_ticket i s \<longleftrightarrow> (\<exists>tk. GetTicket (G_store s) i = Inr tk)"

definition registered :: "InMemoryStore \<Rightarrow> string \<Rightarrow> string \<Rightarrow> bool" where
  "registered st n v \<longleftrightarrow> (\<exists>w. GetWorkflow st n v = Inr w)"

text \<open>
  A definition is stored under its own name and version; the cache holds stored definitions
  under their own keys; a ticket's workflow is stored; the first event of a run is for a
  stored ticket.
\<close>

definition sound :: "Engine \<Rightarrow> bool" where
  "sound s \<longleftrightarrow> log_ok (G_log s) \<and> available (G_world s) \<and>
     (\<forall>n v w. GetWorkflow (G_store s) n v = Inr w \<longrightarrow> W_Name w = n \<and> W_Version w = v) \<and>
     (\<forall>k w. G_workflows s k = Some w \<longrightarrow>
        k = wfKey (W_Name w) (W_Version w) \<and> GetWorkflow (G_store s) (W_Name w) (W_Version w) = Inr w) \<and>
     (\<forall>i tk. GetTicket (G_store s) i = Inr tk \<longrightarrow>
        registered (G_store s) (T_Workflow tk) (T_WorkflowVer tk)) \<and>
     (\<forall>r. History (G_log s) r \<noteq> [] \<longrightarrow> has_ticket (E_TicketID (hd (History (G_log s) r))) s)"

lemma soundI:
  assumes "log_ok (G_log s)" "available (G_world s)"
    and "\<And>n v w. GetWorkflow (G_store s) n v = Inr w \<Longrightarrow> W_Name w = n \<and> W_Version w = v"
    and "\<And>k w. G_workflows s k = Some w \<Longrightarrow>
      k = wfKey (W_Name w) (W_Version w) \<and> GetWorkflow (G_store s) (W_Name w) (W_Version w) = Inr w"
    and "\<And>i tk. GetTicket (G_store s) i = Inr tk \<Longrightarrow>
      registered (G_store s) (T_Workflow tk) (T_WorkflowVer tk)"
    and "\<And>r. History (G_log s) r \<noteq> [] \<Longrightarrow> has_ticket (E_TicketID (hd (History (G_log s) r))) s"
  shows "sound s"
  unfolding sound_def using assms by blast

lemma soundD:
  assumes "sound s"
  shows sound_log: "log_ok (G_log s)" and sound_available: "available (G_world s)"
    and sound_names: "GetWorkflow (G_store s) n v = Inr w \<Longrightarrow> W_Name w = n \<and> W_Version w = v"
    and sound_cache: "G_workflows s k = Some w \<Longrightarrow>
      k = wfKey (W_Name w) (W_Version w) \<and> GetWorkflow (G_store s) (W_Name w) (W_Version w) = Inr w"
    and sound_tickets: "GetTicket (G_store s) i = Inr tk \<Longrightarrow>
      registered (G_store s) (T_Workflow tk) (T_WorkflowVer tk)"
    and sound_runs: "History (G_log s) r \<noteq> [] \<Longrightarrow> has_ticket (E_TicketID (hd (History (G_log s) r))) s"
  using assms unfolding sound_def by blast+

text \<open>\<open>sound\<close> does not look at the queue, the handlers or the question counter.\<close>

lemma sound_cong:
  assumes "sound s" "G_log t = G_log s" "available (G_world t)" "G_store t = G_store s"
    "G_workflows t = G_workflows s"
  shows "sound t"
  using assms unfolding sound_def has_ticket_def by simp

lemma sound_with_pool: "sound s \<Longrightarrow> sound (s\<lparr>G_pool := p\<rparr>)"
  by (rule sound_cong [of s]) (simp_all add: sound_available)

lemma sound_adds:
  assumes s: "sound s" and ad: "adds Q s t" and Q: "\<And>r p. Q r p \<Longrightarrow> History (G_log s) r \<noteq> []"
  shows "sound t" and "G_store t = G_store s"
proof -
  from ad have same: "G_store t = G_store s" "G_world t = G_world s"
    and cache: "from_store (G_store s) (G_workflows s) (G_workflows t)"
    by (auto elim: addsE)
  show "G_store t = G_store s" by (rule same)
  show "sound t"
  proof (rule soundI)
    show "log_ok (G_log t)" using ad sound_log [OF s] by (rule adds_history)
    show "available (G_world t)" using sound_available [OF s] same by simp
    show "W_Name w = n \<and> W_Version w = v" if "GetWorkflow (G_store t) n v = Inr w" for n v w
      using that same sound_names [OF s] by simp
    show "k = wfKey (W_Name w) (W_Version w) \<and> GetWorkflow (G_store t) (W_Name w) (W_Version w) = Inr w"
      if "G_workflows t k = Some w" for k w
      using that cache sound_cache [OF s, of k w] sound_names [OF s] same unfolding from_store_def by metis
    show "registered (G_store t) (T_Workflow tk) (T_WorkflowVer tk)"
      if "GetTicket (G_store t) i = Inr tk" for i tk
      using that same sound_tickets [OF s] by simp
    show "has_ticket (E_TicketID (hd (History (G_log t) r))) t" if ne: "History (G_log t) r \<noteq> []" for r
    proof -
      obtain new where new: "History (G_log t) r = History (G_log s) r @ new"
          "\<forall>p \<in> set (payloads new). Q r p"
        using ad sound_log [OF s] by (rule adds_history)
      have old: "History (G_log s) r \<noteq> []"
      proof (cases new)
        case Nil
        with new ne show ?thesis by simp
      next
        case (Cons e es)
        with new(2) Q show ?thesis by (auto simp: payloads_def)
      qed
      with new(1) sound_runs [OF s old] show ?thesis by (simp add: has_ticket_def same)
    qed
  qed
qed

section \<open>Programs that keep the invariant\<close>

definition keeps_sound :: "Engine \<Rightarrow> Engine \<Rightarrow> bool" where
  "keeps_sound s t \<longleftrightarrow> (sound s \<longrightarrow> sound t \<and> G_store t = G_store s)"

interpretation ks: frame keeps_sound
  by unfold_locales (auto simp: keeps_sound_def)

lemma keeps_sound_none: "keeps (adds (\<lambda>_ _. False)) m \<Longrightarrow> keeps keeps_sound m"
  unfolding keeps_def keeps_sound_def by (blast intro: sound_adds)

lemma keeps_sound_GetRun_bnd:
  assumes "keeps (adds (on_run r X)) (bnd (GetRun r) f)"
  shows "keeps keeps_sound (bnd (GetRun r) f)"
proof (rule keepsI)
  fix s
  have whole: "adds (on_run r X) s (snd (bnd (GetRun r) f s))" using assms by (rule keeps_at)
  have read: "adds (\<lambda>_ _. False) s (snd (GetRun r s))" by (rule keeps_at [OF adds_GetRun])
  show "keeps_sound s (snd (bnd (GetRun r) f s))"
  proof (cases rule: bnd_cases [of "GetRun r" s f])
    case (ok run s')
    then have "History (G_log s) r \<noteq> []" by (auto elim: GetRun_OkD)
    then have "\<And>r' p. on_run r X r' p \<Longrightarrow> History (G_log s) r' \<noteq> []" by (simp add: on_run_def)
    with whole show ?thesis unfolding keeps_sound_def by (blast intro: sound_adds)
  next
    case (err e s')
    with read have "adds (\<lambda>_ _. False) s (snd (bnd (GetRun r) f s))" by simp
    then show ?thesis unfolding keeps_sound_def by (blast intro: sound_adds)
  next
    case (crash c s')
    with read have "adds (\<lambda>_ _. False) s (snd (bnd (GetRun r) f s))" by simp
    then show ?thesis unfolding keeps_sound_def by (blast intro: sound_adds)
  qed
qed

lemma keeps_sound_Approve: "keeps keeps_sound (Approve n r step who comment)"
  unfolding Approve_def by (rule keeps_sound_GetRun_bnd, rule adds_Approve [unfolded Approve_def])

lemma keeps_sound_executeTask: "keeps keeps_sound (executeTask n t)"
  unfolding executeTask_def by (rule keeps_sound_GetRun_bnd, rule adds_executeTask [unfolded executeTask_def])

lemma adds_exactly_on_run: "keeps (adds (exactly_on r X)) m \<Longrightarrow> keeps (adds (on_run r X)) m"
  by (erule keeps_adds_mono) (simp add: exactly_on_def on_run_def)

lemma keeps_sound_Reject: "keeps keeps_sound (Reject r step who reason)"
  unfolding Reject_def
  by (rule keeps_sound_GetRun_bnd, rule adds_exactly_on_run, rule adds_Reject [unfolded Reject_def])

lemma keeps_sound_Cancel: "keeps keeps_sound (Cancel r reason)"
  unfolding Cancel_def
  by (rule keeps_sound_GetRun_bnd, rule adds_exactly_on_run, rule adds_Cancel [unfolded Cancel_def])

text \<open>Dispatching a run after deriving it.\<close>

lemma adds_dispatch_loaded:
  "R_ID run = r \<Longrightarrow> keeps (adds (on_run r X)) (bnd (attempt (loadWorkflow a b)) (\<lambda>d.
     case d of Inl e \<Rightarrow> ret () | Inr def \<Rightarrow> dispatch n run def))"
  by (intro ad.keeps_bnd ad.keeps_attempt ad.keeps_sum ad.keeps_ret adds_loadWorkflow adds_dispatch)

lemma keeps_sound_Recover: "keeps keeps_sound (Recover n)"
  unfolding Recover_def
  by (intro ks.keeps_bnd keeps_sound_none adds_log_Runs ks.keeps_for_each
       keeps_sound_GetRun_bnd [where X = "\<lambda>_. False"] adds_GetRun_bnd adds_dispatch_loaded)

lemma keeps_sound_sweep: "keeps keeps_sound (sweep n)"
proof -
  have one: "keeps keeps_sound (bnd (attempt (GetRun r)) (\<lambda>x. case x of Inl e \<Rightarrow> ret ()
      | Inr run \<Rightarrow> bnd (attempt (loadWorkflow (R_Workflow run) (R_WorkflowVer run))) (\<lambda>d.
          case d of Inl e \<Rightarrow> ret () | Inr def \<Rightarrow> dispatch n run def)))" for r
    unfolding keeps_def snd_attempt_bnd
    using keeps_sound_GetRun_bnd [OF adds_GetRun_bnd [OF adds_dispatch_loaded [where X = "\<lambda>_. False"]]]
    by (simp add: keeps_def)
  show ?thesis
    unfolding sweep_def
    by (intro ks.keeps_bnd ks.keeps_attempt keeps_sound_none adds_log_Runs ks.keeps_sum ks.keeps_ret
         ks.keeps_for_each one)
qed

lemma keeps_sound_worker_turn: "keeps keeps_sound (worker_turn n)"
  unfolding worker_turn_def take_task_def
proof (intro ks.keeps_bnd keeps_sound_none [OF adds_sample])
  show "keeps keeps_sound (\<lambda>s. case loop_turn c (G_pool s) of (t, p) \<Rightarrow> (Ok t, s\<lparr>G_pool := p\<rparr>))" for c
    by (auto simp: keeps_def keeps_sound_def split: prod.split
        intro: sound_with_pool)
  show "keeps keeps_sound (case t of Run item \<Rightarrow> ignore (executeTask n item) | _ \<Rightarrow> ret ())" for t
    by (cases t) (simp_all add: ks.keeps_ret ks.keeps_ignore keeps_sound_executeTask)
qed

section \<open>Creating a ticket\<close>

definition keeps_for :: "ticket_id \<Rightarrow> Engine \<Rightarrow> Engine \<Rightarrow> bool" where
  "keeps_for i s t \<longleftrightarrow> (sound s \<and> has_ticket i s \<longrightarrow> sound t \<and> G_store t = G_store s)"

interpretation kf: frame "keeps_for i" for i
  by unfold_locales (auto simp: keeps_for_def has_ticket_def)

lemma keeps_for_sound: "keeps keeps_sound m \<Longrightarrow> keeps (keeps_for i) m"
  unfolding keeps_def keeps_sound_def keeps_for_def by blast

lemmas keeps_for_none = keeps_for_sound [OF keeps_sound_none]

lemma sound_appended:
  assumes s: "sound s" and i: "has_ticket (E_TicketID ev) s"
  shows "sound (s\<lparr>G_log := snd (Append w ev (G_log s))\<rparr>)"
proof (rule soundI)
  show "log_ok (G_log (s\<lparr>G_log := snd (Append w ev (G_log s))\<rparr>))"
    using log_ok_Append [OF sound_log [OF s]] by simp
  show "has_ticket (E_TicketID (hd (History (G_log (s\<lparr>G_log := snd (Append w ev (G_log s))\<rparr>)) r)))
      (s\<lparr>G_log := snd (Append w ev (G_log s))\<rparr>)"
    if "History (G_log (s\<lparr>G_log := snd (Append w ev (G_log s))\<rparr>)) r \<noteq> []" for r
  proof (cases "History (G_log s) r")
    case Nil
    with that i show ?thesis
      by (auto simp: Append_eq History_def has_ticket_def split: if_splits)
  next
    case (Cons e es)
    with sound_runs [OF s, of r] show ?thesis
      by (auto simp: Append_eq History_def has_ticket_def)
  qed
qed (use s in \<open>auto dest: sound_available sound_names sound_cache sound_tickets\<close>)

lemma keeps_for_do_append: "E_TicketID ev = i \<Longrightarrow> keeps (keeps_for i) (do_append w ev)"
  by (auto simp: keeps_def keeps_for_def do_append_def split: prod.split
      dest: sound_appended [of _ ev w])

lemma keeps_for_append_event: "E_TicketID ev = i \<Longrightarrow> keeps (keeps_for i) (append_event ev)"
proof -
  assume i: "E_TicketID ev = i"
  have "keeps (keeps_for i) (log_Append ev')" if "E_TicketID ev' = i" for ev'
    unfolding log_Append_def writing_def
    by (intro kf.keeps_bnd keeps_for_none [OF adds_sample])
       (simp add: kf.keeps_bnd kf.keeps_fail keeps_for_do_append [OF that] split: outcome.split)
  with i show ?thesis unfolding append_event_def
    by (intro kf.keeps_if kf.keeps_bnd keeps_for_none [OF adds_now]) simp_all
qed

lemma keeps_for_scheduleStep: "keeps (keeps_for i) (scheduleStep r i def nm)"
proof (cases "Step def nm")
  case None
  then show ?thesis by (simp add: scheduleStep_def kf.keeps_fail)
next
  case (Some sd)
  note rules = kf.keeps_bnd kf.keeps_fail keeps_for_none [OF adds_now]
    keeps_for_append_event
  show ?thesis
  proof (cases "SD_Kind sd")
    case KindApproval
    with Some show ?thesis unfolding scheduleStep_def
      by (cases "SD_Approval sd"; cases "AD_Chain (the (SD_Approval sd))") (simp_all add: Let_def rules)
  next
    case KindDelay
    with Some show ?thesis unfolding scheduleStep_def
      by (cases "SD_Delay sd") (simp_all add: Let_def rules)
  qed (use Some in \<open>simp_all add: scheduleStep_def Let_def rules\<close>)
qed

lemma keeps_for_start: "keeps (keeps_for i) (bnd (GetRun r) (\<lambda>run. bnd (dispatch n run def) (\<lambda>_. ret (x run))))"
  by (rule keeps_for_sound, rule keeps_sound_GetRun_bnd [where X = "\<lambda>_. False"])
     (intro adds_GetRun_bnd ad.keeps_bnd adds_dispatch ad.keeps_ret)

lemma sound_bnd:
  assumes "sound s" "keeps keeps_sound m"
    and "\<And>x t. m s = (Ok x, t) \<Longrightarrow> sound t \<Longrightarrow> G_store t = G_store s \<Longrightarrow> sound (snd (f x t))"
  shows "sound (snd (bnd m f s))"
proof -
  obtain r t where m: "m s = (r, t)" by fastforce
  with assms(1,2) have "sound t" "G_store t = G_store s"
    using keepsD [OF assms(2) m] by (auto simp: keeps_sound_def)
  with m assms(3) show ?thesis by (cases r) (auto simp: bnd_def)
qed

lemma keeps_sound_wrap_error: "keeps keeps_sound m \<Longrightarrow> keeps keeps_sound (wrap_error f m)"
  unfolding wrap_error_def by (intro ks.keeps_bnd ks.keeps_attempt ks.keeps_sum ks.keeps_fail ks.keeps_ret)

lemma wrap_error_OkD: "wrap_error f m s = (Ok x, t) \<Longrightarrow> m s = (Ok x, t)"
  by (auto simp: wrap_error_def bnd_def attempt_def split: prod.splits res.splits)

lemma loadWorkflow_registered:
  assumes s: "sound s" and l: "loadWorkflow n v s = (Ok w, t)"
  shows "registered (G_store s) (W_Name w) (W_Version w)"
proof (cases "workflow s n v")
  case (Some w')
  with l have "w' = w" by (simp add: loadWorkflow_def)
  with Some sound_cache [OF s] show ?thesis by (auto simp: workflow_def registered_def)
next
  case None
  with loadWorkflow_available [OF sound_available [OF s], of n v] l
  have "GetWorkflow (G_store s) n v = Inr w" by (auto split: sum.splits)
  with sound_names [OF s this] show ?thesis by (auto simp: registered_def)
qed

lemma sound_SaveTicket:
  assumes "sound s" "registered (G_store s) (T_Workflow t) (T_WorkflowVer t)"
  shows "\<exists>s'. wrap_error f (store_SaveTicket t) s = (Ok (), s') \<and> sound s' \<and> has_ticket (T_ID t) s'"
proof -
  let ?s = "(tick_of s)\<lparr>G_store := SaveTicket t (G_store s)\<rparr>"
  have same: "GetWorkflow (SaveTicket t (G_store s)) = GetWorkflow (G_store s)"
    by (simp add: fun_eq_iff)
  have "sound ?s"
    by (rule soundI)
       (use assms in \<open>auto simp: has_ticket_def registered_def same dest: sound_log sound_available
          sound_names sound_cache sound_tickets sound_runs split: if_splits\<close>)
  moreover have "wrap_error f (store_SaveTicket t) s = (Ok (), ?s)"
    by (simp add: wrap_error_def store_SaveTicket_def bnd_def attempt_def
        writing_available [OF sound_available [OF assms(1)]])
  ultimately show ?thesis by (auto simp: has_ticket_def)
qed

lemma sound_CreateTicket:
  assumes "sound s"
  shows "sound (snd (CreateTicket n w v title fs s))"
  unfolding CreateTicket_def Let_def
proof (rule sound_bnd [OF assms])
  show "keeps keeps_sound (wrap_error LoadWorkflow (loadWorkflow w v))"
    by (intro keeps_sound_wrap_error keeps_sound_none adds_loadWorkflow)
  fix def s1
  assume "wrap_error LoadWorkflow (loadWorkflow w v) s = (Ok def, s1)"
    and s1: "sound s1" "G_store s1 = G_store s"
  then have reg: "registered (G_store s1) (W_Name def) (W_Version def)"
    using loadWorkflow_registered [OF assms] by (auto dest!: wrap_error_OkD)
  let ?t = "\<lambda>t0 i. Apply \<lparr>T_ID = i, T_Workflow = W_Name def, T_WorkflowVer = W_Version def,
      T_Title = title, T_Fields = (case fs of None \<Rightarrow> Some [] | Some m \<Rightarrow> Some m), T_Assignee = [],
      T_Queue = [], T_Priority = ''normal'', T_CreatedAt = t0, T_UpdatedAt = t0\<rparr> (W_Routing def)"
  have rest: "sound (snd (bnd (wrap_error SaveTicketFailed (store_SaveTicket (?t t0 i))) (\<lambda>_. tail) s4))"
    if s4: "sound s4" "G_store s4 = G_store s1" and tl: "keeps (keeps_for i) tail" for t0 i tail s4
  proof -
    obtain s5 where s5: "wrap_error SaveTicketFailed (store_SaveTicket (?t t0 i)) s4 = (Ok (), s5)"
        "sound s5" "has_ticket i s5"
      using sound_SaveTicket [OF s4(1), of "?t t0 i"] reg s4(2) by auto
    from keeps_at [OF tl, of s5] s5(2,3) show ?thesis
      by (simp add: bnd_Ok [of "wrap_error SaveTicketFailed (store_SaveTicket (?t t0 i))", OF s5(1)] keeps_for_def)
  qed
  note none = keeps_sound_none [OF adds_now] keeps_sound_none [OF adds_newID]
  show "sound (snd (bnd now (\<lambda>t0. bnd (newID ''tkt'') (\<lambda>i. bnd (newID ''run'') (\<lambda>runID.
     bnd (wrap_error SaveTicketFailed (store_SaveTicket (?t t0 i))) (\<lambda>_.
     bnd (mustJSON (marshals_obj (T_Fields (?t t0 i))) (json_ticket (?t t0 i))) (\<lambda>jt.
     bnd (append_event (event i runID (TicketCreated jt))) (\<lambda>_.
     bnd (append_event (event i runID (RunStarted runID (W_Initial def)))) (\<lambda>_.
     bnd (scheduleStep runID i def (W_Initial def)) (\<lambda>_.
     bnd (if T_Assignee (?t t0 i) \<noteq> [] \<or> T_Queue (?t t0 i) \<noteq> [] \<or> T_Priority (?t t0 i) \<noteq> []
          then bnd (append_event (event i runID
                 (TicketAssigned (T_Queue (?t t0 i)) (T_Assignee (?t t0 i)) (T_Priority (?t t0 i)) 0))) (\<lambda>_. ret ())
          else ret ()) (\<lambda>_.
     bnd (GetRun runID) (\<lambda>run.
     bnd (dispatch n run def) (\<lambda>_.
     ret (?t t0 i, run)))))))))))) s1))"
    by (rule sound_bnd [OF s1(1) none(1)], rule sound_bnd, assumption, rule none(2),
        rule sound_bnd, assumption, rule none(2), rule rest)
       (auto intro!: kf.keeps_bnd kf.keeps_if kf.keeps_ret keeps_for_append_event keeps_for_scheduleStep
          keeps_for_start keeps_for_none [OF adds_mustJSON])
qed

section \<open>Every step keeps the invariant\<close>

lemma sound_store_cache:
  assumes s: "sound s"
  shows "sound (s\<lparr>G_workflows := (G_workflows s)(wfKey (W_Name w) (W_Version w) \<mapsto> w),
     G_ticks := k, G_store := RegisterWorkflow w (G_store s)\<rparr>)" (is "sound ?t")
proof (rule soundI)
  have get: "GetWorkflow (G_store ?t) n v =
      (if n = W_Name w \<and> v = W_Version w then Inr w else GetWorkflow (G_store s) n v)" for n v
    by simp
  show "log_ok (G_log ?t)" using sound_log [OF s] by simp
  show "available (G_world ?t)" using sound_available [OF s] by simp
  show "W_Name x = n \<and> W_Version x = v" if "GetWorkflow (G_store ?t) n v = Inr x" for n v x
    using that sound_names [OF s] unfolding get by (auto split: if_splits)
  show "c = wfKey (W_Name x) (W_Version x) \<and> GetWorkflow (G_store ?t) (W_Name x) (W_Version x) = Inr x"
    if "G_workflows ?t c = Some x" for c x
    using that sound_cache [OF s, of c x] unfolding get by (auto split: if_splits)
  show "registered (G_store ?t) (T_Workflow tk) (T_WorkflowVer tk)"
    if "GetTicket (G_store ?t) i = Inr tk" for i tk
    using that sound_tickets [OF s, of i tk] unfolding registered_def get by auto
  show "has_ticket (E_TicketID (hd (History (G_log ?t) r))) ?t" if "History (G_log ?t) r \<noteq> []" for r
    using that sound_runs [OF s, of r] by (simp add: has_ticket_def)
qed

lemma sound_RegisterWorkflow:
  assumes "sound s"
  shows "sound (snd (Engine_RegisterWorkflow def s))"
proof -
  have "sound (snd (bnd (cache_workflow w (W_Name w) (W_Version w)) (\<lambda>_. store_RegisterWorkflow w) s))" for w
    using sound_store_cache [OF assms, where w = w and k = "Suc (G_ticks s)"]
    by (simp add: cache_workflow_def store_RegisterWorkflow_def writing_available sound_available [OF assms])
  with assms show ?thesis by (simp add: Engine_RegisterWorkflow_def Let_def)
qed

lemma sound_keeps: "keeps keeps_sound m \<Longrightarrow> sound s \<Longrightarrow> sound (snd (m s))"
  by (simp add: keeps_def keeps_sound_def)

lemma sound_perform: "sound s \<Longrightarrow> sound (perform n q s)"
proof (cases q)
  case (ChangeClock f)
  assume s: "sound s"
  have "available (G_world (snd (SetClock f s)))"
    using sound_available [OF s] by (simp add: SetClock_def available_def)
  with ChangeClock s show ?thesis
    by (auto simp: SetClock_def intro: sound_cong [of s])
next
  case (BindTask key h)
  assume s: "sound s"
  from sound_cong [OF s] sound_available [OF s] BindTask show ?thesis
    by (simp add: RegisterTask_def)
next
  case Shutdown
  assume s: "sound s"
  from sound_cong [OF s] sound_available [OF s] s Shutdown show ?thesis
    by (simp add: Close_def)
qed (simp_all add: sound_RegisterWorkflow sound_CreateTicket Events_def ListRuns_def
      Engine_GetTicket_def Engine_ListTickets_def Engine_GetWorkflow_def Engine_ListWorkflows_def
      sound_keeps [OF keeps_sound_Approve] sound_keeps [OF keeps_sound_Reject]
      sound_keeps [OF keeps_sound_Cancel] sound_keeps [OF keeps_sound_Recover]
      sound_keeps [OF keeps_sound_none [OF adds_GetRun]]
      sound_keeps [OF keeps_sound_none [OF adds_log_History]]
      sound_keeps [OF keeps_sound_none [OF adds_log_Runs]]
      sound_keeps [OF keeps_sound_none [OF adds_store(1)]]
      sound_keeps [OF keeps_sound_none [OF adds_store(3)]]
      sound_keeps [OF keeps_sound_none [OF adds_store(4)]]
      sound_keeps [OF keeps_sound_none [OF adds_loadWorkflow]])

lemma sound_restart: "sound s \<Longrightarrow> available world \<Longrightarrow> sound (restart workers world s)"
  unfolding restart_def NewEngine_def
  by (rule soundI) (auto simp: has_ticket_def dest: sound_log sound_names sound_tickets sound_runs)

lemma sound_step: "engine_step available n s t \<Longrightarrow> sound s \<Longrightarrow> sound t"
  by (induction rule: engine_step.induct)
     (simp_all add: sound_perform sound_restart sound_keeps [OF keeps_sound_worker_turn]
        sound_keeps [OF keeps_sound_sweep])

lemma reachable_sound: "reachable available n s \<Longrightarrow> sound s"
proof (induction rule: reachable.induct)
  case (start world workers)
  then show ?case unfolding NewEngine_def
    by (intro soundI)
       (auto simp: log_ok_new NewInMemoryEventLog_def History_def NewInMemoryStore_def GetWorkflow_def
          GetTicket_def log_ok_def)
next
  case (next_state s t)
  then show ?case by (blast intro: sound_step)
qed

lemma sound_run_view:
  assumes "sound s" "History (G_log s) r \<noteq> []"
  shows "\<exists>def. run_view s r = Some (replayed r def (History (G_log s) r))"
proof -
  obtain tk where tk: "GetTicket (G_store s) (E_TicketID (hd (History (G_log s) r))) = Inr tk"
    using sound_runs [OF assms] by (auto simp: has_ticket_def)
  with sound_tickets [OF assms(1)] have "registered (G_store s) (T_Workflow tk) (T_WorkflowVer tk)"
    by blast
  with tk have "\<exists>def. def_of s (E_TicketID (hd (History (G_log s) r))) = Some def"
    by (auto simp: def_of_def registered_def split: option.split)
  with assms(2) show ?thesis by (auto simp: run_view_def split: list.split)
qed

text \<open>Without two deployed workflows on one cache key, the view does not depend on the cache.\<close>

definition keys_distinct :: "InMemoryStore \<Rightarrow> bool" where
  "keys_distinct st \<longleftrightarrow> (\<forall>n v n' v'. registered st n v \<and> registered st n' v' \<and>
     wfKey n v = wfKey n' v' \<longrightarrow> n = n' \<and> v = v')"

lemma def_of_store:
  assumes "sound s" "keys_distinct (G_store s)"
  shows "def_of s i = def_of (s\<lparr>G_workflows := Map.empty\<rparr>) i"
proof (cases "GetTicket (G_store s) i")
  case (Inl e)
  then show ?thesis by (simp add: def_of_def)
next
  case (Inr tk)
  obtain w where w: "GetWorkflow (G_store s) (T_Workflow tk) (T_WorkflowVer tk) = Inr w"
    using sound_tickets [OF assms(1) Inr] by (auto simp: registered_def)
  have "w' = w" if "workflow s (T_Workflow tk) (T_WorkflowVer tk) = Some w'" for w'
  proof -
    from that have "wfKey (T_Workflow tk) (T_WorkflowVer tk) = wfKey (W_Name w') (W_Version w')"
      and w': "GetWorkflow (G_store s) (W_Name w') (W_Version w') = Inr w'"
      using sound_cache [OF assms(1)] by (auto simp: workflow_def)
    then have "T_Workflow tk = W_Name w' \<and> T_WorkflowVer tk = W_Version w'"
      using assms(2) w w' unfolding keys_distinct_def registered_def by blast
    with w w' show ?thesis by simp
  qed
  then show ?thesis
    by (auto simp: def_of_def Inr w workflow_def split: option.split)
qed

lemma run_view_store:
  assumes "sound s" "keys_distinct (G_store s)"
  shows "run_view s r = run_view (s\<lparr>G_workflows := Map.empty\<rparr>) r"
  by (simp add: run_view_def def_of_store [OF assms] cong: list.case_cong)

section \<open>Properties\<close>

lemma sound_def_of:
  assumes s: "sound s" and ne: "History (G_log s) r \<noteq> []"
  obtains tk def where "GetTicket (G_store s) (E_TicketID (hd (History (G_log s) r))) = Inr tk"
    "registered (G_store s) (T_Workflow tk) (T_WorkflowVer tk)"
    "GetWorkflow (G_store s) (W_Name def) (W_Version def) = Inr def"
    "wfKey (W_Name def) (W_Version def) = wfKey (T_Workflow tk) (T_WorkflowVer tk)"
    "run_view s r = Some (replayed r def (History (G_log s) r))"
proof -
  let ?i = "E_TicketID (hd (History (G_log s) r))"
  obtain tk where tk: "GetTicket (G_store s) ?i = Inr tk"
    using sound_runs [OF s ne] by (auto simp: has_ticket_def)
  have reg: "registered (G_store s) (T_Workflow tk) (T_WorkflowVer tk)" by (rule sound_tickets [OF s tk])
  obtain def where def: "def_of s ?i = Some def"
    using sound_run_view [OF s ne] ne by (auto simp: run_view_def split: list.splits)
  have "GetWorkflow (G_store s) (W_Name def) (W_Version def) = Inr def \<and>
      wfKey (W_Name def) (W_Version def) = wfKey (T_Workflow tk) (T_WorkflowVer tk)"
  proof (cases "workflow s (T_Workflow tk) (T_WorkflowVer tk)")
    case None
    then have g: "GetWorkflow (G_store s) (T_Workflow tk) (T_WorkflowVer tk) = Inr def"
      using def tk by (auto simp: def_of_def split: sum.splits)
    then show ?thesis using sound_names [OF s g] by simp
  next
    case (Some w)
    then have "w = def" using def tk by (simp add: def_of_def)
    with Some sound_cache [OF s, of "wfKey (T_Workflow tk) (T_WorkflowVer tk)" def] show ?thesis
      by (simp add: workflow_def)
  qed
  moreover have "run_view s r = Some (replayed r def (History (G_log s) r))"
    using def ne by (auto simp: run_view_def split: list.split)
  ultimately show ?thesis using that tk reg by blast
qed

text \<open>
  (C1) Every run is derivable: in every state that is reachable in worlds whose backends
  answer, GetRun succeeds for every run that the log lists, and returns the replay of its
  history with the definition of its ticket's workflow: the ticket of the first event is stored,
  the workflow it names is registered, and the definition is a registered one under the ticket's
  key name@version, the one of that very name and version when no two registered ones share a key.
\<close>

theorem every_run_derivable:
  assumes "reachable available n s" "r \<in> set (Runs (G_log s))"
  shows "\<exists>tk def t. GetTicket (G_store s) (E_TicketID (hd (History (G_log s) r))) = Inr tk \<and>
    registered (G_store s) (T_Workflow tk) (T_WorkflowVer tk) \<and>
    GetWorkflow (G_store s) (W_Name def) (W_Version def) = Inr def \<and>
    wfKey (W_Name def) (W_Version def) = wfKey (T_Workflow tk) (T_WorkflowVer tk) \<and>
    (keys_distinct (G_store s) \<longrightarrow> GetWorkflow (G_store s) (T_Workflow tk) (T_WorkflowVer tk) = Inr def) \<and>
    GetRun r s = (Ok (replayed r def (History (G_log s) r)), t)"
proof -
  note s = reachable_sound [OF assms(1)]
  from assms(2) sound_log [OF s] have "History (G_log s) r \<noteq> []"
    by (simp add: log_ok_def Runs_def History_def)
  from sound_def_of [OF s this] obtain tk def where
    d: "GetTicket (G_store s) (E_TicketID (hd (History (G_log s) r))) = Inr tk"
      "registered (G_store s) (T_Workflow tk) (T_WorkflowVer tk)"
      "GetWorkflow (G_store s) (W_Name def) (W_Version def) = Inr def"
      "wfKey (W_Name def) (W_Version def) = wfKey (T_Workflow tk) (T_WorkflowVer tk)"
      "run_view s r = Some (replayed r def (History (G_log s) r))" .
  have "registered (G_store s) (W_Name def) (W_Version def)" using d(3) by (auto simp: registered_def)
  then have "keys_distinct (G_store s) \<longrightarrow> W_Name def = T_Workflow tk \<and> W_Version def = T_WorkflowVer tk"
    using d(2,4) unfolding keys_distinct_def by blast
  with d GetRun_available [OF sound_available [OF s], of r] show ?thesis by auto
qed

lemma available_calm [simp]: "available (calm c)"
  by (simp add: available_def calm_def)

lemma keys_distinct_demo: "keys_distinct (G_store approval_demo)"
  by (auto simp: keys_distinct_def registered_def GetWorkflow_def approval_demo_def demo_state_def
      split: option.splits if_splits)

theorem every_run_derivable_witness:
  "\<exists>def t. GetWorkflow (G_store approval_demo) ''wf'' ''1'' = Inr def \<and>
    GetRun ''run_0'' approval_demo = (Ok (replayed ''run_0'' def (History (G_log approval_demo) ''run_0'')), t)"
proof -
  have "''run_0'' \<in> set (Runs (G_log approval_demo))"
    by (simp add: Runs_def approval_demo_def demo_state_def)
  from every_run_derivable [OF reachable_approval_demo this] keys_distinct_demo obtain tk def t where
    "GetTicket (G_store approval_demo) (E_TicketID (hd (History (G_log approval_demo) ''run_0''))) = Inr tk"
    "GetWorkflow (G_store approval_demo) (T_Workflow tk) (T_WorkflowVer tk) = Inr def"
    "GetRun ''run_0'' approval_demo = (Ok (replayed ''run_0'' def (History (G_log approval_demo) ''run_0'')), t)"
    by auto
  moreover from this(1) have "T_Workflow tk = ''wf'' \<and> T_WorkflowVer tk = ''1''"
    by (auto simp: approval_demo_def demo_state_def History_def GetTicket_def demo_ticket_def split: if_splits)
  ultimately show ?thesis by auto
qed

text \<open>
  (C7) When no two deployed workflows share the key name@version, a restart loses no run and changes
  none: a new process, on the log and the store that the old one left, derives for every run the same
  state as the old one did, although the workflow cache, the task queue and the handlers are gone.
\<close>

theorem restart_preserves_runs:
  assumes "reachable available n s" "available world" "keys_distinct (G_store s)"
  shows "fst (GetRun r (restart workers world s)) = fst (GetRun r s)"
proof -
  note s = reachable_sound [OF assms(1)]
  have "run_view (restart workers world s) r = run_view s r"
    unfolding run_view_store [OF s assms(3)]
    by (simp add: run_view_def def_of_def restart_def NewEngine_def workflow_def
        cong: list.case_cong option.case_cong sum.case_cong)
  moreover have "available (G_world (restart workers world s))"
    using assms(2) by (simp add: restart_def NewEngine_def)
  ultimately show ?thesis
    using GetRun_available [OF sound_available [OF s], of r]
      GetRun_available [of "restart workers world s" r] by auto
qed

theorem restart_preserves_runs_witness:
  "fst (GetRun ''run_0'' (restart 2 (calm (\<lambda>_. 9)) approval_demo)) = fst (GetRun ''run_0'' approval_demo)"
  using restart_preserves_runs [OF reachable_approval_demo available_calm keys_distinct_demo] by simp

end
