(* ===== verification/Engine_Effects.thy ===== *)
theory Engine_Effects
  imports Engine_Sound
begin

text \<open>
  What the operations do, exactly: which events one call appends, in which order, on each of
  its branches, and what the run is afterwards. The statements are for worlds whose backends
  answer, where a call returns an error only for the reasons the code gives.
\<close>

section \<open>Finished runs\<close>

definition run_status :: "Engine \<Rightarrow> run_id \<Rightarrow> RunStatus" where
  "run_status s r = fold status_upd (payloads (History (G_log s) r)) RunStatusNone"

lemma GetRun_status: "GetRun r s = (Ok run, t) \<Longrightarrow> R_Status run = run_status s r"
  by (erule GetRun_OkD) (simp add: run_status_def R_Status_applyAll)

definition tasks_of :: "Engine \<Rightarrow> run_id \<Rightarrow> taskItem list" where
  "tasks_of s r = filter (\<lambda>i. TI_RunID i = r) (P_tasks (G_pool s))"

definition rests :: "run_id \<Rightarrow> Engine \<Rightarrow> Engine \<Rightarrow> bool" where
  "rests r s t \<longleftrightarrow> (log_ok (G_log s) \<and> terminal (run_status s r) \<longrightarrow>
     log_ok (G_log t) \<and> History (G_log t) r = History (G_log s) r \<and> tasks_of t r = tasks_of s r)"

interpretation rs: frame "rests r" for r
  by unfold_locales (auto simp: rests_def run_status_def)

lemma adds_tasks_of:
  assumes "adds Q s t" "\<And>p. \<not> Q r p"
  shows "tasks_of t r = tasks_of s r"
proof -
  obtain its where its: "P_tasks (G_pool t) = P_tasks (G_pool s) @ its" "\<forall>i \<in> set its. \<exists>p. Q (TI_RunID i) p"
    using assms(1) by (auto elim: addsE)
  have "filter (\<lambda>i. TI_RunID i = r) its = []" using its(2) assms(2) by (auto simp: filter_empty_conv)
  with its(1) show ?thesis by (simp add: tasks_of_def)
qed

lemma rests_adds: "adds Q s t \<Longrightarrow> (\<And>p. \<not> Q r p) \<Longrightarrow> rests r s t"
  unfolding rests_def
  by (intro impI; elim conjE; frule adds_tasks_of [where r = r], blast; erule (1) adds_history [where r = r])
     (auto simp: payloads_def)

lemma keeps_rests: "keeps (adds Q) m \<Longrightarrow> (\<And>p. \<not> Q r p) \<Longrightarrow> keeps (rests r) m"
  unfolding keeps_def by (blast intro: rests_adds)

lemmas rests_none = keeps_rests [of "\<lambda>_ _. False", simplified]

lemma dispatch_terminal: "terminal (R_Status run) \<Longrightarrow> snd (dispatch n run def s) = s"
  by (cases n) (simp_all add: dispatch_body_def)

lemma rests_GetRun_bnd:
  assumes "\<And>run. terminal (R_Status run) \<Longrightarrow> keeps (rests r) (f run)"
  shows "keeps (rests r) (bnd (GetRun r) f)"
proof (rule keepsI)
  fix s
  show "rests r s (snd (bnd (GetRun r) f s))"
  proof (cases "terminal (run_status s r)")
    case True
    show ?thesis
    proof (rule rs.bnd_at)
      show "rests r s (snd (GetRun r s))" by (rule keeps_at, rule rests_none, rule adds_GetRun)
      fix run t
      assume g: "GetRun r s = (Ok run, t)"
      from True have "terminal (R_Status run)" unfolding GetRun_status [OF g] .
      from assms [OF this] show "rests r t (snd (f run t))" by (rule keeps_at)
    qed
  qed (simp add: rests_def)
qed

lemma rests_load_dispatch:
  "keeps (rests r) (bnd (GetRun i) (\<lambda>run. bnd (attempt (loadWorkflow (R_Workflow run) (R_WorkflowVer run)))
     (\<lambda>d. case d of Inl e \<Rightarrow> ret () | Inr def \<Rightarrow> dispatch n run def)))"
proof (cases "i = r")
  case True
  have "keeps (rests r) (dispatch n run def)" if "terminal (R_Status run)" for run def
    by (rule keepsI) (simp add: dispatch_terminal that rs.refl)
  with True show ?thesis
    by (auto intro!: rests_GetRun_bnd rs.keeps_bnd rs.keeps_attempt rests_none [OF adds_loadWorkflow]
        rs.keeps_sum rs.keeps_ret)
next
  case False
  show ?thesis
    by (rule keeps_rests [OF adds_GetRun_bnd [OF adds_dispatch_loaded [where X = "\<lambda>_. False"]]])
       (use False in \<open>auto simp: on_run_def\<close>)
qed

lemma rests_sweep: "keeps (rests r) (sweep n)"
proof -
  have one: "keeps (rests r) (bnd (attempt (GetRun i)) (\<lambda>x. case x of Inl e \<Rightarrow> ret ()
      | Inr run \<Rightarrow> bnd (attempt (loadWorkflow (R_Workflow run) (R_WorkflowVer run))) (\<lambda>d.
          case d of Inl e \<Rightarrow> ret () | Inr def \<Rightarrow> dispatch n run def)))" for i
    using rests_load_dispatch unfolding keeps_def snd_attempt_bnd by blast
  show ?thesis
    unfolding sweep_def
    by (intro rs.keeps_bnd rs.keeps_attempt rests_none [OF adds_log_Runs] rs.keeps_sum rs.keeps_ret
         rs.keeps_for_each one)
qed

lemma rests_Recover: "keeps (rests r) (Recover n)"
  unfolding Recover_def
  by (intro rs.keeps_bnd rests_none [OF adds_log_Runs] rs.keeps_for_each rests_load_dispatch)

lemma rests_Cancel: "keeps (rests r) (Cancel r reason)"
  unfolding Cancel_def by (intro rests_GetRun_bnd) (simp add: rs.keeps_ret)

text \<open>
  (C6) Finished runs rest: once a run is completed, failed or cancelled, the timer sweep, crash
  recovery and a further cancellation append nothing to its history and submit no task of it, in any
  state of the engine and of its backends.
\<close>

theorem finished_runs_rest:
  assumes "reachable W m s" "terminal (run_status s r)"
  shows "\<forall>t \<in> {snd (sweep n s), snd (Recover n s), snd (Cancel r reason s)}.
    History (G_log t) r = History (G_log s) r \<and>
    filter (\<lambda>i. TI_RunID i = r) (P_tasks (G_pool t)) = filter (\<lambda>i. TI_RunID i = r) (P_tasks (G_pool s))"
  using keeps_at [OF rests_sweep, of r s n] keeps_at [OF rests_Recover, of r s n]
    keeps_at [OF rests_Cancel, of r s reason] assms reachable_log_ok [OF assms(1)]
  by (simp add: rests_def tasks_of_def)

theorem finished_runs_rest_witness:
  "History (G_log (snd (sweep 3 finished_demo))) ''run_0'' = History (G_log finished_demo) ''run_0'' \<and>
   filter (\<lambda>i. TI_RunID i = ''run_0'') (P_tasks (G_pool (snd (Recover 3 finished_demo)))) =
     filter (\<lambda>i. TI_RunID i = ''run_0'') (P_tasks (G_pool finished_demo))"
  using finished_runs_rest [OF reachable_finished_demo, of "''run_0''" 3 "[]"]
  by (simp add: run_status_def history_of_def [symmetric] finished_history terminal_def)

section \<open>Exact appends\<close>

text \<open>\<open>emits r ps s t\<close>: exactly the events with payloads \<open>ps\<close>, in this order, were appended, to run \<open>r\<close>.\<close>

definition emits :: "run_id \<Rightarrow> payload list \<Rightarrow> Engine \<Rightarrow> Engine \<Rightarrow> bool" where
  "emits r ps s t \<longleftrightarrow> adds (exactly_on r (\<lambda>_. True)) s t \<and>
     (\<exists>new. History (G_log t) r = History (G_log s) r @ new \<and> payloads new = ps)"

lemma emits_trans: "emits r ps s t \<Longrightarrow> emits r qs t u \<Longrightarrow> emits r (ps @ qs) s u"
  unfolding emits_def by (metis ad.trans append_assoc payloads_simps(3))

lemma emits_none: "adds (\<lambda>_ _. False) s t \<Longrightarrow> emits r [] s t"
  unfolding emits_def by (auto simp: adds_none_log payloads_def elim: adds_mono)

lemma emits_refl: "emits r [] s s"
  by (simp add: emits_none ad.refl)

lemma emits_world: "emits r ps s t \<Longrightarrow> G_world t = G_world s \<and> G_store t = G_store s \<and> G_handlers t = G_handlers s"
  unfolding emits_def by (auto elim: addsE)

lemma emits_isolated: "emits r ps s t \<Longrightarrow> log_ok (G_log s) \<Longrightarrow> r' \<noteq> r \<Longrightarrow>
    History (G_log t) r' = History (G_log s) r'"
  unfolding emits_def
  by (elim conjE; erule (1) adds_history [where r = r']) (auto simp: exactly_on_def payloads_def)

lemma append_event_emits:
  assumes "available (G_world s)" "E_RunID ev = r" "E_Payload ev = p"
  shows "\<exists>e t. append_event ev s = (Ok e, t) \<and> emits r [p] s t"
proof -
  have "\<exists>e t. append_event ev s = (Ok e, t)"
    using assms(1) by (auto simp: append_event_def now_def bnd_def sample_def log_Append_def
        writing_def available_def do_append_def split: prod.split)
  then obtain e t where et: "append_event ev s = (Ok e, t)" by blast
  have "adds (exactly_on r (\<lambda>_. True)) s (snd (append_event ev s))"
    by (rule keeps_at, rule adds_append_event) (simp add: exactly_on_def assms)
  moreover have "History (G_log t) r = History (G_log s) r @ [e] \<and> E_Payload e = p"
    using et assms(2,3) by (auto simp: append_event_def now_def bnd_def sample_def
        dest!: log_Append_OkD split: if_splits)
  ultimately show ?thesis using et by (auto simp: emits_def)
qed

lemma emit_emits:
  "available (G_world s) \<Longrightarrow> R_ID run = r \<Longrightarrow> \<exists>e t. emit run p s = (Ok e, t) \<and> emits r [p] s t"
  unfolding emit_def by (rule append_event_emits) simp_all

section \<open>Live runs\<close>

text \<open>
  \<open>live s r run def\<close>: in the sound state \<open>s\<close> the history of \<open>r\<close> replays to \<open>run\<close> under the
  definition \<open>def\<close>, which is also the one that the run's own workflow and version name.
\<close>

definition wf_of :: "Engine \<Rightarrow> string \<Rightarrow> string \<Rightarrow> WorkflowDef option" where
  "wf_of s n v = (case workflow s n v of
     Some w \<Rightarrow> Some w
   | None \<Rightarrow> (case GetWorkflow (G_store s) n v of Inl e \<Rightarrow> None | Inr w \<Rightarrow> Some w))"

definition live :: "Engine \<Rightarrow> run_id \<Rightarrow> WorkflowRun \<Rightarrow> WorkflowDef \<Rightarrow> bool" where
  "live s r run def \<longleftrightarrow> sound s \<and> keys_distinct (G_store s) \<and> History (G_log s) r \<noteq> [] \<and>
     def_of s (E_TicketID (hd (History (G_log s) r))) = Some def \<and>
     run = replayed r def (History (G_log s) r) \<and>
     GetWorkflow (G_store s) (R_Workflow run) (R_WorkflowVer run) = Inr def"

lemma live_parts:
  assumes "live s r run def"
  shows "sound s" "keys_distinct (G_store s)" "History (G_log s) r \<noteq> []"
    "def_of s (E_TicketID (hd (History (G_log s) r))) = Some def"
    "run = replayed r def (History (G_log s) r)"
    "GetWorkflow (G_store s) (R_Workflow run) (R_WorkflowVer run) = Inr def"
  using assms unfolding live_def by blast+

lemma liveD:
  assumes "live s r run def"
  shows live_sound: "sound s" and live_available: "available (G_world s)"
    and live_view: "run_view s r = Some run" and live_ID: "R_ID run = r"
    and live_status: "R_Status run = run_status s r"
proof -
  note l = live_parts [OF assms]
  show "sound s" "available (G_world s)" using l(1) sound_available by blast+
  show "run_view s r = Some run" unfolding l(5) using l(3,4)
    by (cases "History (G_log s) r") (simp_all add: run_view_def)
  show "R_ID run = r" unfolding l(5) by (simp add: replayed_def)
  show "R_Status run = run_status s r"
    unfolding l(5) by (simp add: replayed_def run_status_def R_Status_applyAll)
qed

lemma live_wf:
  assumes "live s r run def"
  shows "wf_of s (R_Workflow run) (R_WorkflowVer run) = Some def"
proof -
  note s = live_parts(1) [OF assms] and k = live_parts(2) [OF assms] and g = live_parts(6) [OF assms]
  have "w = def" if "workflow s (R_Workflow run) (R_WorkflowVer run) = Some w" for w
  proof -
    from that have "wfKey (R_Workflow run) (R_WorkflowVer run) = wfKey (W_Name w) (W_Version w)"
      and w: "GetWorkflow (G_store s) (W_Name w) (W_Version w) = Inr w"
      using sound_cache [OF s] by (auto simp: workflow_def)
    then have "R_Workflow run = W_Name w \<and> R_WorkflowVer run = W_Version w"
      using k g w unfolding keys_distinct_def registered_def by blast
    with g w show ?thesis by simp
  qed
  with g show ?thesis by (auto simp: wf_of_def split: option.split)
qed

lemma live_GetRun:
  assumes "live s r run def"
  shows "\<exists>t. GetRun r s = (Ok run, t) \<and> emits r [] s t"
proof -
  obtain t where t: "GetRun r s = (Ok run, t)"
    using GetRun_available [OF live_available [OF assms], of r] live_view [OF assms] by auto
  with keeps_at [OF adds_GetRun, of "\<lambda>_ _. False" s r] show ?thesis by (auto intro: emits_none)
qed

lemma live_load:
  assumes "live s r run def"
  shows "\<exists>t. loadWorkflow (R_Workflow run) (R_WorkflowVer run) s = (Ok def, t) \<and> emits r [] s t"
proof -
  obtain t where t: "loadWorkflow (R_Workflow run) (R_WorkflowVer run) s = (Ok def, t)"
    using loadWorkflow_available [OF live_available [OF assms], of "R_Workflow run" "R_WorkflowVer run"]
      live_wf [OF assms] by (auto simp: wf_of_def split: option.splits sum.splits)
  with keeps_at [OF adds_loadWorkflow, of "\<lambda>_ _. False" s "R_Workflow run" "R_WorkflowVer run"]
  show ?thesis by (auto intro: emits_none)
qed

lemma def_of_cache_free:
  "G_store t = G_store s \<Longrightarrow>
    def_of (t\<lparr>G_workflows := Map.empty\<rparr>) i = def_of (s\<lparr>G_workflows := Map.empty\<rparr>) i"
  by (simp add: def_of_def workflow_def cong: option.case_cong sum.case_cong)

lemma ident_keeps:
  "\<forall>p \<in> set (payloads es). \<forall>t. p \<noteq> TicketCreated t \<Longrightarrow> fold ident_upd (payloads es) i = i"
proof (induction es arbitrary: i)
  case (Cons e es)
  then have "ident_upd (E_Payload e) i = i" by (cases "E_Payload e") auto
  with Cons show ?case by simp
qed simp

lemma live_emits:
  assumes l: "live s r run def" and e: "emits r ps s t" and new: "\<forall>p \<in> set ps. \<forall>t. p \<noteq> TicketCreated t"
  shows "\<exists>new. payloads new = ps \<and> live t r (applyAll run def new) def"
proof -
  note s = live_parts(1) [OF l] and k = live_parts(2) [OF l] and ne = live_parts(3) [OF l]
    and d = live_parts(4) [OF l] and run = live_parts(5) [OF l] and g = live_parts(6) [OF l]
  from e obtain new where n: "History (G_log t) r = History (G_log s) r @ new" "payloads new = ps"
    and ad: "adds (exactly_on r (\<lambda>_. True)) s t" by (auto simp: emits_def)
  have t: "sound t" "G_store t = G_store s"
    using sound_adds [OF s ad] ne by (auto simp: exactly_on_def)
  have kt: "keys_distinct (G_store t)" using k t(2) by simp
  have "def_of t i = def_of s i" for i
    unfolding def_of_store [OF s k] def_of_store [OF t(1) kt] by (rule def_of_cache_free [OF t(2)])
  moreover have "replayed r def (History (G_log t) r) = applyAll run def new"
    unfolding run using ne by (simp add: replayed_def n(1) applyAll_append)
  moreover have "R_Workflow (applyAll run def new) = R_Workflow run"
      "R_WorkflowVer (applyAll run def new) = R_WorkflowVer run"
    using ticket_ident_applyAll [of run def new] ident_keeps [of new "ticket_ident run"] new n(2)
    by (simp_all add: ticket_ident_def)
  ultimately have "live t r (applyAll run def new) def"
    using t k ne d g n(1) by (simp add: live_def)
  with n(2) show ?thesis by blast
qed

lemma adds_other_run:
  assumes ad: "adds (on_run r X) s t" and "log_ok (G_log s)" "r' \<noteq> r"
  shows "History (G_log t) r' = History (G_log s) r'"
proof -
  obtain new where new: "History (G_log t) r' = History (G_log s) r' @ new"
      "\<forall>p \<in> set (payloads new). on_run r X r' p"
    using ad assms(2) by (rule adds_history)
  then have "payloads new = []" using assms(3) by (cases "payloads new") (auto simp: on_run_def)
  with new(1) show ?thesis by (simp add: payloads_def)
qed

text \<open>What is done for one run leaves the others as they are.\<close>

lemma live_other:
  assumes l: "live s r' run def" and ad: "adds (on_run r X) s t" and ne: "History (G_log s) r \<noteq> []" "r' \<noteq> r"
  shows "live t r' run def"
proof -
  note s = live_parts(1) [OF l] and k = live_parts(2) [OF l]
  have t: "sound t" "G_store t = G_store s"
    using sound_adds [OF s ad] ne(1) by (auto simp: on_run_def)
  have kt: "keys_distinct (G_store t)" using k t(2) by simp
  have h: "History (G_log t) r' = History (G_log s) r'"
    by (rule adds_other_run [OF ad sound_log [OF s] ne(2)])
  have d: "def_of t i = def_of s i" for i
    unfolding def_of_store [OF s k] def_of_store [OF t(1) kt] by (rule def_of_cache_free [OF t(2)])
  show ?thesis unfolding live_def h d using live_parts [OF l] t kt by (simp only: t(2)) blast
qed

section \<open>The demonstration runs are live\<close>

definition demo_run :: "Engine \<Rightarrow> WorkflowDef \<Rightarrow> WorkflowRun" where
  "demo_run s def = replayed ''run_0'' def (History (G_log s) ''run_0'')"

lemma keys_distinct_single:
  "keys_distinct \<lparr>S_tickets = ts, S_workflows = [(n, [(v, w)])]\<rparr>"
  by (auto simp: keys_distinct_def registered_def GetWorkflow_def split: option.splits if_splits)

lemma live_approval_demo: "live approval_demo ''run_0'' (demo_run approval_demo approval_flow) approval_flow"
  unfolding live_def demo_run_def
proof (intro conjI)
  show "sound approval_demo" by (rule reachable_sound [OF reachable_approval_demo]) simp
  show "keys_distinct (G_store approval_demo)"
    by (simp add: approval_demo_def demo_state_def keys_distinct_single)
qed (simp_all add: eval_created eval replayed_def def_of_def cong: eval_congs)

lemma live_task_demo: "live (task_demo h) ''run_0'' (demo_run (task_demo h) task_flow) task_flow"
  unfolding live_def demo_run_def
proof (intro conjI)
  show "sound (task_demo h)" by (rule reachable_sound [OF reachable_task_demo]) simp
  show "keys_distinct (G_store (task_demo h))"
    by (simp add: task_demo_def demo_state_def keys_distinct_single)
qed (simp_all add: eval_created eval replayed_def def_of_def cong: eval_congs)

lemmas eval_run = demo_run_def replayed_def eval_created eval

section \<open>Cancel and Reject\<close>

text \<open>
  (C18) Cancelling an unfinished run appends exactly one RUN_CANCELLED event to it and leaves
  every other run alone; the run is then cancelled, and finished runs rest: nothing more is done
  with it by the timer or by recovery.
\<close>

theorem Cancel_effect:
  assumes "live s r run def" "\<not> terminal (R_Status run)"
  shows "\<exists>t. Cancel r reason s = (Ok (), t) \<and> emits r [RunCancelled reason] s t \<and>
    run_status t r = RunStatusCancelled"
proof -
  obtain s1 where s1: "GetRun r s = (Ok run, s1)" "emits r [] s s1" using live_GetRun [OF assms(1)] by blast
  then have "available (G_world s1)"
    using live_available [OF assms(1)] emits_world [OF s1(2)] by simp
  then obtain e t where t: "emit run (RunCancelled reason) s1 = (Ok e, t)" "emits r [RunCancelled reason] s1 t"
    using emit_emits live_ID [OF assms(1)] by blast
  have e: "emits r [RunCancelled reason] s t" using emits_trans [OF s1(2) t(2)] by simp
  then have "run_status t r = RunStatusCancelled"
    by (auto simp: emits_def run_status_def)
  moreover have "Cancel r reason s = (Ok (), t)"
    using assms(2) by (simp add: Cancel_def bnd_run s1(1) t(1))
  ultimately show ?thesis using e by blast
qed

section \<open>Steps of an execution\<close>

lemma live_emit:
  assumes "live s r run def" "R_ID run' = r" "\<forall>t. p \<noteq> TicketCreated t"
  shows "\<exists>e t ev. emit run' p s = (Ok e, t) \<and> emits r [p] s t \<and> E_Payload ev = p \<and>
    live t r (applyOne def run ev) def"
proof -
  obtain e t where t: "emit run' p s = (Ok e, t)" "emits r [p] s t"
    using emit_emits [OF live_available [OF assms(1)] assms(2)] by blast
  obtain new where new: "payloads new = [p]" "live t r (applyAll run def new) def"
    using live_emits [OF assms(1) t(2)] assms(3) by auto
  then obtain ev where "new = [ev]" "E_Payload ev = p" by (cases new) (auto simp: payloads_def)
  with t new show ?thesis by auto
qed

definition step_ready :: "StepDef \<Rightarrow> bool" where
  "step_ready sd \<longleftrightarrow> (SD_Kind sd = KindDelay \<longrightarrow> SD_Delay sd \<noteq> None) \<and>
     (SD_Kind sd = KindApproval \<longrightarrow> (\<exists>a. SD_Approval sd = Some a \<and> AD_Chain a \<noteq> []))"

text \<open>What scheduling a step at time \<open>tm\<close> appends.\<close>

definition sched_payloads :: "StepDef \<Rightarrow> string \<Rightarrow> time \<Rightarrow> payload list" where
  "sched_payloads sd nm tm =
     (case SD_Kind sd of
        KindDelay \<Rightarrow> [StepScheduled nm KindDelay (tm + DD_Duration (the (SD_Delay sd)))]
      | KindApproval \<Rightarrow>
          (let chain = AD_Chain (the (SD_Approval sd))
           in [ApprovalRequested nm 0 (A_Role (hd chain)) (A_User (hd chain)) (int (length chain)),
               StepScheduled nm KindApproval 0])
      | k \<Rightarrow> [StepScheduled nm k 0])"

lemma sched_payloads_new: "p \<in> set (sched_payloads sd nm tm) \<Longrightarrow> p \<noteq> TicketCreated t"
  by (auto simp: sched_payloads_def Let_def split: StepKind.splits)

lemma scheduleStep_emits:
  assumes av: "available (G_world s)" and sd: "Step def nm = Some sd" "step_ready sd"
  shows "\<exists>e t. scheduleStep r i def nm s = (Ok e, t) \<and>
    emits r (sched_payloads sd nm (clock (G_world s) (G_ticks s))) s t"
proof -
  let ?s = "tick_of s" and ?tm = "clock (G_world s) (G_ticks s)"
  have now: "now s = (Ok ?tm, ?s)" by (simp add: now_def sample_def)
  have s1: "emits r [] s ?s" by (rule emits_none) (rule adds_same_log, simp_all)
  have one: "\<exists>e t. append_event ev ?s = (Ok e, t) \<and> emits r [p] s t"
    if "E_RunID ev = r" "E_Payload ev = p" for ev p
    using append_event_emits [of ?s ev r p] that av emits_trans [OF s1] by fastforce
  show ?thesis
  proof (cases "SD_Kind sd")
    case KindDelay
    with sd obtain d where d: "SD_Delay sd = Some d" by (auto simp: step_ready_def)
    let ?due = "?tm + DD_Duration d"
    let ?ev = "(event i r (StepScheduled nm KindDelay zero_time))
        \<lparr>E_At := ?tm, E_ScheduleAt := Some ?due, E_Payload := StepScheduled nm KindDelay ?due\<rparr>"
    obtain e t where "append_event ?ev ?s = (Ok e, t)" "emits r [StepScheduled nm KindDelay ?due] s t"
      using one [of ?ev "StepScheduled nm KindDelay ?due"] by auto
    with KindDelay d sd(1) now show ?thesis
      by (simp add: scheduleStep_def bnd_run Let_def sched_payloads_def)
  next
    case KindApproval
    with sd obtain a l ls where a: "SD_Approval sd = Some a" "AD_Chain a = l # ls"
      by (auto simp: step_ready_def neq_Nil_conv)
    let ?req = "ApprovalRequested nm 0 (A_Role l) (A_User l) (int (length (l # ls)))"
    obtain e t where t: "append_event (event i r ?req) ?s = (Ok e, t)" "emits r [?req] s t"
      using one [of "event i r ?req"] by auto
    have "available (G_world t)" using emits_world [OF t(2)] av by simp
    then obtain e' u where u: "append_event ((event i r (StepScheduled nm KindApproval zero_time))
        \<lparr>E_At := ?tm\<rparr>) t = (Ok e', u)" "emits r [StepScheduled nm KindApproval 0] t u"
      using append_event_emits [of t "(event i r (StepScheduled nm KindApproval zero_time))\<lparr>E_At := ?tm\<rparr>" r]
      by auto
    from emits_trans [OF t(2) u(2)] t(1) u(1) KindApproval a sd(1) now show ?thesis
      by (simp add: scheduleStep_def bnd_run Let_def sched_payloads_def)
  next
    case KindTask
    obtain e t where "append_event ((event i r (StepScheduled nm KindTask zero_time))\<lparr>E_At := ?tm\<rparr>) ?s = (Ok e, t)"
        "emits r [StepScheduled nm KindTask 0] s t"
      using one [of "(event i r (StepScheduled nm KindTask zero_time))\<lparr>E_At := ?tm\<rparr>"] by auto
    with KindTask sd(1) now show ?thesis
      by (simp add: scheduleStep_def bnd_run Let_def sched_payloads_def)
  next
    case (KindOther k)
    obtain e t where "append_event ((event i r (StepScheduled nm (KindOther k) zero_time))\<lparr>E_At := ?tm\<rparr>) ?s = (Ok e, t)"
        "emits r [StepScheduled nm (KindOther k) 0] s t"
      using one [of "(event i r (StepScheduled nm (KindOther k) zero_time))\<lparr>E_At := ?tm\<rparr>"] by auto
    with KindOther sd(1) now show ?thesis
      by (simp add: scheduleStep_def bnd_run Let_def sched_payloads_def)
  qed
qed

text \<open>\<open>begins r ps s t\<close>: first exactly \<open>ps\<close>, then only what dispatching \<open>r\<close> may append.\<close>

definition begins :: "run_id \<Rightarrow> payload list \<Rightarrow> Engine \<Rightarrow> Engine \<Rightarrow> bool" where
  "begins r ps s t \<longleftrightarrow> (\<exists>u. emits r ps s u \<and> adds (on_run r (\<lambda>_. False)) u t)"

lemma emits_begins: "emits r ps s t \<Longrightarrow> begins r ps s t"
  unfolding begins_def using ad.refl by blast

lemma begins_trans: "emits r ps s t \<Longrightarrow> begins r qs t u \<Longrightarrow> begins r (ps @ qs) s u"
  unfolding begins_def using emits_trans by blast

lemma begins_history:
  "begins r ps s t \<Longrightarrow> log_ok (G_log s) \<Longrightarrow>
    \<exists>new more. History (G_log t) r = History (G_log s) r @ new @ more \<and> payloads new = ps \<and>
      (\<forall>p \<in> set (payloads more). dispatch_payload p)"
proof -
  assume b: "begins r ps s t" and ok: "log_ok (G_log s)"
  then obtain u new where u: "adds (on_run r (\<lambda>_. False)) u t" "adds (exactly_on r (\<lambda>_. True)) s u"
      "History (G_log u) r = History (G_log s) r @ new" "payloads new = ps"
    by (auto simp: begins_def emits_def)
  from u(2) ok have "log_ok (G_log u)" by (rule adds_history)
  with u(1) obtain more where "History (G_log t) r = History (G_log u) r @ more"
      "\<forall>p \<in> set (payloads more). on_run r (\<lambda>_. False) r p" by (rule adds_history)
  with u(3,4) show ?thesis by (auto simp: on_run_def)
qed

text \<open>The events by which advance moves on from a step, to the step \<open>nxt\<close> or to the run's end.\<close>

definition follow :: "WorkflowRun \<Rightarrow> WorkflowDef \<Rightarrow> string \<Rightarrow> string \<Rightarrow> bool \<Rightarrow> time \<Rightarrow> payload list" where
  "follow run def step nxt succeeded tm =
     (if nxt = [] then
        [if succeeded \<and> \<not> R_Failed run then RunCompleted step
         else RunFailed step (SS_Error (the (step_of run step)))]
      else sched_payloads (the (Step def nxt)) nxt tm)"

definition can_follow :: "WorkflowDef \<Rightarrow> string \<Rightarrow> bool" where
  "can_follow def nxt \<longleftrightarrow> nxt = [] \<or> (\<exists>sd. Step def nxt = Some sd \<and> step_ready sd)"

lemma advance_begins:
  assumes l: "live s r cur def" and r: "R_ID run = r" and st: "step_of run step \<noteq> None"
    and sd: "Step def step = Some sd" and nxt: "nxt = (if b then SD_Next sd else SD_OnError sd)"
    and f: "can_follow def nxt"
  shows "\<exists>k. begins r (follow run def step nxt b (clock (G_world s) k)) s
    (snd (advance (dispatch n) run def step b s))"
proof (cases "nxt = []")
  case True
  let ?p = "if b \<and> \<not> R_Failed run then RunCompleted step
    else RunFailed step (SS_Error (the (step_of run step)))"
  obtain e t where t: "emit run ?p s = (Ok e, t)" "emits r [?p] s t"
    using emit_emits [OF live_available [OF l] r] by blast
  have "advance (dispatch n) run def step b s = (Ok (), t)"
    using True st sd nxt t(1) by (auto simp: advance_def Let_def bnd_run split: if_splits)
  with emits_begins [OF t(2)] True show ?thesis by (auto simp: follow_def)
next
  case False
  with f obtain sd' where sd': "Step def nxt = Some sd'" "step_ready sd'" by (auto simp: can_follow_def)
  let ?tm = "clock (G_world s) (G_ticks s)"
  obtain e t where t: "scheduleStep (R_ID run) (R_TicketID run) def nxt s = (Ok e, t)"
      "emits r (sched_payloads sd' nxt ?tm) s t"
    using scheduleStep_emits [OF live_available [OF l] sd', of r] r by blast
  obtain new where "live t r (applyAll cur def new) def"
    using live_emits [OF l t(2)] sched_payloads_new by blast
  from live_GetRun [OF this] obtain nr u where u: "GetRun r t = (Ok nr, u)" "emits r [] t u"
    by blast
  have "adds (on_run r (\<lambda>_. False)) u (snd (dispatch n nr def u))"
    by (rule keeps_at, rule adds_dispatch, rule GetRun_R_ID [OF u(1)])
  then have "begins r (sched_payloads sd' nxt ?tm) s (snd (dispatch n nr def u))"
    using emits_trans [OF t(2) u(2)] by (auto simp: begins_def)
  moreover have "advance (dispatch n) run def step b s = dispatch n nr def u"
    using False sd nxt t(1) u(1) r by (simp add: advance_def Let_def bnd_run)
  ultimately show ?thesis using False sd' by (auto simp: follow_def)
qed

theorem Cancel_effect_witness:
  "\<exists>t. Cancel ''run_0'' ''late'' approval_demo = (Ok (), t) \<and> run_status t ''run_0'' = RunStatusCancelled"
proof -
  have "\<not> terminal (R_Status (demo_run approval_demo approval_flow))"
    by (simp add: eval_run cong: eval_congs)
  from Cancel_effect [OF live_approval_demo this] show ?thesis by blast
qed

end
