(* ===== verification/Engine_Decisions.thy ===== *)
theory Engine_Decisions
  imports Engine_Steps
begin

text \<open>
  Who may decide. The abstract rule is \<open>may_decide\<close>: a link of a chain that names a user can
  be decided by that user only, a link that names a role by whoever presents that role, never
  anonymously. Every APPROVAL_GRANTED and APPROVAL_REJECTED event that any step of the engine
  appends is shown to obey it.
\<close>

section \<open>The rule\<close>

definition may_decide :: "Approver \<Rightarrow> string \<Rightarrow> bool" where
  "may_decide link who \<longleftrightarrow>
     who \<noteq> [] \<and> EqualFold who (if A_User link = [] then A_Role link else A_User link)"

lemma authorizeApprover_iff:
  "authorizeApprover chain idx who = None \<longleftrightarrow>
    0 \<le> idx \<and> idx < int (length chain) \<and> may_decide (chain ! nat idx) who"
  by (auto simp: authorizeApprover_def may_decide_def Let_def)

text \<open>The pending approval of a step of a run, as the caller of Approve sees it.\<close>

definition pending_of :: "WorkflowRun \<Rightarrow> string \<Rightarrow> ApprovalState option" where
  "pending_of run step =
     (case step_of run step of
        None \<Rightarrow> None
      | Some st \<Rightarrow> (case SS_Approval st of
                      None \<Rightarrow> None
                    | Some a \<Rightarrow> if AS_Status a = Pending then Some a else None))"

lemma pending_approval_eq:
  "pending_of run step = Some a \<Longrightarrow> pending_approval run step b s = (Ok a, s)"
  "pending_of run step = None \<Longrightarrow> \<exists>e. pending_approval run step b s = (Err e, s)"
  by (auto simp: pending_approval_def pending_of_def split: option.splits if_splits)

text \<open>\<open>decided\<close>: a decision on a step by someone who may take it, judged on the run of state \<open>s\<close>.\<close>

definition decided :: "Engine \<Rightarrow> run_id \<Rightarrow> string \<Rightarrow> int \<Rightarrow> string \<Rightarrow> bool" where
  "decided s r step idx who \<longleftrightarrow>
     (\<exists>run a. fst (GetRun r s) = Ok run \<and> pending_of run step = Some a \<and> AS_Index a = idx \<and>
        0 \<le> idx \<and> idx < int (length (AS_Chain a)) \<and> may_decide (AS_Chain a ! nat idx) who)"

section \<open>Approve and Reject\<close>

lemma adds_none_appends: "adds (\<lambda>_ _. False) s t \<Longrightarrow> appends X s t"
  by (erule adds_appends) simp

text \<open>Both start alike; what follows is run only on a pending approval and an authorised caller.\<close>

lemma decision_at:
  assumes run: "\<And>run. pre run = bnd (m run) (\<lambda>x. bnd (pending_approval run step b) (\<lambda>a.
      bnd (check (authorizeApprover (AS_Chain a) (AS_Index a) who)) (\<lambda>_. rest run x a)))"
    and m: "\<And>run. keeps (adds (\<lambda>_ _. False)) (m run)"
    and rest: "\<And>run x a. R_ID run = r \<Longrightarrow> decided s r step (AS_Index a) who \<Longrightarrow>
      keeps (appends X) (rest run x a)"
  shows "appends X s (snd (bnd (GetRun r) pre s))"
proof (rule gr.bnd_at)
  show "appends X s (snd (GetRun r s))"
    by (rule keeps_at, rule appends_none, rule adds_GetRun)
  fix run t
  assume g: "GetRun r s = (Ok run, t)"
  have "keeps (appends X) (pre run)"
  proof (cases "pending_of run step")
    case None
    then obtain e where "\<And>t. pending_approval run step b t = (Err e, t)"
      using pending_approval_def by (auto simp: pending_approval_def pending_of_def split: option.splits if_splits)
    then have p: "pending_approval run step b = fail e" by (simp add: fun_eq_iff)
    show ?thesis unfolding run p fail_bnd by (intro gr.keeps_bnd appends_none [OF m] gr.keeps_fail)
  next
    case (Some a)
    then have p: "pending_approval run step b = ret a"
      by (simp add: fun_eq_iff pending_approval_eq)
    show ?thesis
    proof (cases "authorizeApprover (AS_Chain a) (AS_Index a) who")
      case (Some e)
      then have c: "check (authorizeApprover (AS_Chain a) (AS_Index a) who) = fail e"
        by (simp add: check_def)
      show ?thesis unfolding run p ret_bnd c fail_bnd
        by (intro gr.keeps_bnd appends_none [OF m] gr.keeps_fail)
    next
      case None
      then have "decided s r step (AS_Index a) who"
        using g \<open>pending_of run step = Some a\<close> unfolding decided_def
        by (auto simp: authorizeApprover_iff)
      then have "keeps (appends X) (rest run x a)" for x
        by (intro rest GetRun_R_ID [OF g])
      moreover have c: "check (authorizeApprover (AS_Chain a) (AS_Index a) who) = ret ()"
        using None by (simp add: check_def)
      ultimately show ?thesis unfolding run p ret_bnd c
        by (intro gr.keeps_bnd appends_none [OF m])
    qed
  qed
  then show "appends X t (snd (pre run t))" by (rule keeps_at)
qed

definition grant_ok :: "Engine \<Rightarrow> run_id \<Rightarrow> payload \<Rightarrow> bool" where
  "grant_ok s r p \<longleftrightarrow> (\<forall>step idx who. p = ApprovalGranted step idx who \<longrightarrow> decided s r step idx who) \<and>
     (\<forall>step idx who x. p = ApprovalRejected step idx who x \<longrightarrow> decided s r step idx who)"

lemma dispatch_payload_grant_ok: "dispatch_payload p \<Longrightarrow> grant_ok s r p"
  by (auto simp: grant_ok_def dispatch_payload_def)

lemma appends_Approve: "appends (grant_ok s) s (snd (Approve n r step who comment s))"
  unfolding Approve_def
proof (rule decision_at [OF HOL.refl adds_loadWorkflow])
  fix run :: WorkflowRun and x :: WorkflowDef and a
  assume r: "R_ID run = r" and d: "decided s r step (AS_Index a) who"
  have "keeps (adds (on_run r (grant_ok s r))) (bnd (emit run (ApprovalGranted step (AS_Index a) who)) (\<lambda>_.
     bnd (attempt (GetRun r)) (\<lambda>z. case z of Inl _ \<Rightarrow> ret ()
       | Inr nr \<Rightarrow> bnd (ignore (advanceApproval (dispatch n) nr x step)) (\<lambda>_. dispatchAfter n nr x))))"
    by (intro ad.keeps_bnd adds_emit_own adds_attempt_GetRun_bnd ad.keeps_ret ad.keeps_ignore
         adds_advanceApproval adds_dispatchAfter)
       (use r d in \<open>simp_all add: grant_ok_def\<close>)
  then show "keeps (appends (grant_ok s)) (bnd (emit run (ApprovalGranted step (AS_Index a) who)) (\<lambda>_.
     bnd (attempt (GetRun r)) (\<lambda>z. case z of Inl _ \<Rightarrow> ret ()
       | Inr nr \<Rightarrow> bnd (ignore (advanceApproval (dispatch n) nr x step)) (\<lambda>_. dispatchAfter n nr x))))"
    by (rule keeps_appends) (auto simp: on_run_def dispatch_payload_grant_ok)
qed

lemma appends_Reject: "appends (grant_ok s) s (snd (Reject r step who reason s))"
  unfolding Reject_def
proof (rule decision_at [where m = "\<lambda>_. ret ()"])
  show "keeps (adds (\<lambda>_ _. False)) (ret ())" by (rule ad.keeps_ret)
  fix run :: WorkflowRun and a
  assume r: "R_ID run = r" and d: "decided s r step (AS_Index a) who"
  show "keeps (appends (grant_ok s)) (bnd (emit run (ApprovalRejected step (AS_Index a) who reason)) (\<lambda>_.
     bnd (emit run (RunFailed step (''approval rejected: '' @ reason))) (\<lambda>_. ret ())))"
    by (intro gr.keeps_bnd gr.keeps_ret keeps_appends [OF adds_emit, of "grant_ok s"])
       (use r d in \<open>simp_all add: grant_ok_def\<close>)
qed simp

section \<open>Every step\<close>

lemma grant_step: "engine_step W n s t \<Longrightarrow> appends (grant_ok s) s t"
proof (induction rule: engine_step.induct)
  case (call s q)
  show ?case
  proof (cases "decision q")
    case True
    have "appends (grant_ok s) s (snd (Cancel r x s))" for r x
      by (rule keeps_at, rule keeps_appends [OF adds_Cancel])
         (auto simp: exactly_on_def grant_ok_def)
    with True show ?thesis
      by (cases q) (simp_all add: appends_Approve appends_Reject)
  next
    case False
    show ?thesis
      by (rule appends_perform [OF _ False])
         (auto simp: dispatch_payload_def grant_ok_def)
  qed
next
  case (work s)
  show ?case
    by (rule keeps_at, rule appends_worker_turn) (auto simp: dispatch_payload_def grant_ok_def)
next
  case (tick s)
  show ?case
    by (rule keeps_at, rule keeps_appends [OF adds_sweep]) (simp add: on_any_def dispatch_payload_grant_ok)
next
  case (reboot world s workers)
  show ?case by (simp add: restart_def NewEngine_def appends_same_log)
qed

text \<open>
  (C3) No decision without authority: whenever a step of the engine appends APPROVAL_GRANTED
  or APPROVAL_REJECTED to a run, the run as derived before the step had that step's approval
  pending at exactly that link of its chain, and the recorded decider is the user that the
  link names, or presented the role of a link that names no user.
\<close>

theorem decisions_are_authorised:
  assumes "reachable W n s" "engine_step W n s t"
    and "History (G_log t) r = History (G_log s) r @ new"
    and "ApprovalGranted step idx who \<in> set (payloads new) \<or>
      ApprovalRejected step idx who reason \<in> set (payloads new)"
  shows "decided s r step idx who"
proof -
  obtain new' where "History (G_log t) r = History (G_log s) r @ new'"
      "\<forall>p \<in> set (payloads new'). grant_ok s r p"
    using grant_step [OF assms(2)] reachable_log_ok [OF assms(1)] by (rule appends_history)
  with assms(3,4) show ?thesis by (auto simp: grant_ok_def)
qed

theorem decisions_are_authorised_witness: "decided approval_demo ''run_0'' ''ok'' 0 ''mgr''"
proof (rule decisions_are_authorised [of "\<lambda>_. True" 3])
  show "reachable (\<lambda>_. True) 3 approval_demo" by (rule reachable_approval_demo) simp
  show "engine_step (\<lambda>_. True) 3 approval_demo
      (perform 3 (ApproveStep ''run_0'' ''ok'' ''mgr'' []) approval_demo)"
    by (rule engine_step.call)
  show "History (G_log (perform 3 (ApproveStep ''run_0'' ''ok'' ''mgr'' []) approval_demo)) ''run_0'' =
      History (G_log approval_demo) ''run_0'' @
      demo_events 6 [ApprovalGranted ''ok'' 0 ''mgr'', ApprovalRequested ''ok'' 1 ''cfo'' [] 2]"
    unfolding eval_created by (simp add: eval cong: eval_congs)
  show "ApprovalGranted ''ok'' 0 ''mgr'' \<in> set (payloads (demo_events 6
        [ApprovalGranted ''ok'' 0 ''mgr'', ApprovalRequested ''ok'' 1 ''cfo'' [] 2])) \<or>
      ApprovalRejected ''ok'' 0 ''mgr'' [] \<in> set (payloads (demo_events 6
        [ApprovalGranted ''ok'' 0 ''mgr'', ApprovalRequested ''ok'' 1 ''cfo'' [] 2]))"
    by simp
qed

end
