(* ===== verification/Engine_Tasks.thy ===== *)
theory Engine_Tasks
  imports Engine_Effects Engine_Decisions
begin

text \<open>
  The effect of executing a task and of approving a link, branch by branch: success, retry,
  final failure, a missing handler; another link of the chain, the last link. Each theorem
  says which events the call appends first and in which order; what dispatching the run does
  after them is bounded by \<open>begins\<close>.
\<close>

section \<open>Tasks\<close>

text \<open>
  What executeTask needs to reach the handler: the run is live, the step is declared, its
  ticket is stored. The handler's answer is taken as the same whenever it is asked.
\<close>

definition task_ready :: "Engine \<Rightarrow> run_id \<Rightarrow> string \<Rightarrow> WorkflowRun \<Rightarrow> WorkflowDef \<Rightarrow> StepDef \<Rightarrow> Ticket \<Rightarrow> bool" where
  "task_ready s r step run def sd tk \<longleftrightarrow> live s r run def \<and> Step def step = Some sd \<and>
     GetTicket (G_store s) (R_TicketID run) = Inr tk"

lemma GetTicket_available:
  "available (G_world s) \<Longrightarrow> GetTicket (G_store s) i = Inr tk \<Longrightarrow> store_GetTicket i s = (Ok tk, tick_of s)"
  by (simp add: store_GetTicket_def reading_available lift_sum_def bnd_def)

lemma emits_tick: "emits r [] s (tick_of s)"
  by (rule emits_none) (rule adds_same_log, simp_all)

lemma live_tick: "live s r run def \<Longrightarrow> live (tick_of s) r run def"
  by (drule live_emits [OF _ emits_tick]) (auto simp: payloads_def)

text \<open>Reading a run or a definition leaves everything but the cache of definitions.\<close>

lemma reads_loadWorkflow: "keeps reads (loadWorkflow name v)"
proof -
  have "keeps reads (cache_workflow w name v)" for w
    by (simp add: cache_workflow_def keeps_def put_def reads_def)
  then show ?thesis
    unfolding loadWorkflow_def store_GetWorkflow_def
    by (intro rd.keeps_bnd rd.keeps_get rd.keeps_option rd.keeps_ret keeps_reading_reads keeps_lift_sum_reads)
qed

lemma reads_GetRun: "keeps reads (GetRun r)"
  unfolding GetRun_def defForRun_def log_History_def store_GetTicket_def
  by (intro rd.keeps_bnd rd.keeps_if rd.keeps_attempt rd.keeps_sum rd.keeps_get rd.keeps_fail rd.keeps_ret
      keeps_reading_reads keeps_lift_sum_reads reads_loadWorkflow)

text \<open>Up to the point where the handler is looked up, nothing is appended and nothing queued.\<close>

lemma executeTask_prefix:
  assumes "task_ready s r step run def sd tk"
  shows "\<exists>u. emits r [] s u \<and> live u r run def \<and> G_pool u = G_pool s \<and>
    executeTask n \<lparr>TI_RunID = r, TI_TicketID = i, TI_Step = step\<rparr> s =
     (case G_handlers s (SD_Task sd) of
           None \<Rightarrow> failStep n run def step (''no handler for task '' @ quote (SD_Task sd))
         | Some h \<Rightarrow>
             bnd (emit run (StepStarted step)) (\<lambda>_.
             bnd (call_handler h run step (T_Fields tk)) (\<lambda>res.
             case res of
               Inl herr \<Rightarrow>
                 bnd (attempt (GetRun (R_ID run))) (\<lambda>fr.
                   handleTaskFailure n (case fr of Inr r \<Rightarrow> r | Inl _ \<Rightarrow> run) def step sd herr)
             | Inr out \<Rightarrow>
                 bnd (mustJSON (marshals_obj out) (json_obj out)) (\<lambda>jout.
                 bnd (emit run (StepCompletedP step jout)) (\<lambda>_.
                 advance (dispatch n) run def step True))))) u"
proof -
  from assms have l: "live s r run def" and sd: "Step def step = Some sd"
    and tk: "GetTicket (G_store s) (R_TicketID run) = Inr tk" by (simp_all add: task_ready_def)
  obtain a where a: "GetRun r s = (Ok run, a)" "emits r [] s a" using live_GetRun [OF l] by blast
  have la: "live a r run def" using live_emits [OF l a(2)] by (auto simp: payloads_def)
  obtain b where b: "loadWorkflow (R_Workflow run) (R_WorkflowVer run) a = (Ok def, b)" "emits r [] a b"
    using live_load [OF la] by blast
  have lb: "live b r run def" using live_emits [OF la b(2)] by (auto simp: payloads_def)
  have same: "G_store b = G_store s" "G_handlers b = G_handlers s"
    using emits_world [OF a(2)] emits_world [OF b(2)] by simp_all
  have c: "store_GetTicket (R_TicketID run) b = (Ok tk, tick_of b)"
    using GetTicket_available [OF live_available [OF lb]] tk same by simp
  have pool: "G_pool b = G_pool s"
    using keepsD [OF reads_GetRun a(1)] keepsD [OF reads_loadWorkflow b(1)] by (simp add: reads_def)
  have e: "emits r [] s (tick_of b)"
    using emits_trans [OF emits_trans [OF a(2) b(2)] emits_tick [of r b]] by simp
  show ?thesis
    by (intro exI [of _ "tick_of b"] conjI e live_tick lb)
       (simp_all add: executeTask_def bnd_run a(1) b(1) c sd same pool split: option.split)
qed

lemma emit_started:
  assumes l: "live u r run def"
  shows "\<exists>e v ev. emit run (StepStarted step) u = (Ok e, v) \<and> emits r [StepStarted step] u v \<and>
    E_Payload ev = StepStarted step \<and> live v r (applyOne def run ev) def"
  by (rule live_emit [OF l live_ID [OF l]]) simp

lemma call_handler_run: "call_handler h run step fs v = (Ok (h (G_ticks v) run step fs), tick_of v)"
  by (simp add: call_handler_def bnd_run sample_def)

text \<open>
  (C12) A successful task: the handler's output is recorded in STEP_COMPLETED after STEP_STARTED,
  and the run moves on to the step's next step, or completes, or, when the run is on a failure
  path and the step has no next step, fails; nothing else is appended but by dispatching.
\<close>

theorem task_success:
  assumes rdy: "task_ready s r step run def sd tk"
    and h: "G_handlers s (SD_Task sd) = Some h" "\<forall>k. h k run step (T_Fields tk) = Inr out"
    and out: "marshals_obj out" and st: "step_of run step \<noteq> None" and f: "can_follow def (SD_Next sd)"
  shows "\<exists>k. begins r ([StepStarted step, StepCompletedP step (json_obj out)] @
      follow run def step (SD_Next sd) True (clock (G_world s) k)) s
    (snd (executeTask n \<lparr>TI_RunID = r, TI_TicketID = i, TI_Step = step\<rparr> s))"
proof -
  from rdy have sd: "Step def step = Some sd" by (simp add: task_ready_def)
  from executeTask_prefix [OF rdy, of n i] obtain u where u: "emits r [] s u" "live u r run def"
    "executeTask n \<lparr>TI_RunID = r, TI_TicketID = i, TI_Step = step\<rparr> s =
      bnd (emit run (StepStarted step)) (\<lambda>_. bnd (call_handler h run step (T_Fields tk)) (\<lambda>res.
        case res of
          Inl herr \<Rightarrow> bnd (attempt (GetRun (R_ID run))) (\<lambda>fr.
            handleTaskFailure n (case fr of Inr r \<Rightarrow> r | Inl _ \<Rightarrow> run) def step sd herr)
        | Inr out \<Rightarrow> bnd (mustJSON (marshals_obj out) (json_obj out)) (\<lambda>jout.
            bnd (emit run (StepCompletedP step jout)) (\<lambda>_.
            advance (dispatch n) run def step True)))) u"
    using h(1) by auto
  obtain e v ev where v: "emit run (StepStarted step) u = (Ok e, v)" "emits r [StepStarted step] u v"
      "live v r (applyOne def run ev) def"
    using emit_started [OF u(2)] by blast
  have lv: "live (tick_of v) r (applyOne def run ev) def" by (rule live_tick [OF v(3)])
  have rid: "R_ID run = r" by (rule live_ID [OF u(2)])
  obtain e' w cur where w: "emit run (StepCompletedP step (json_obj out)) (tick_of v) = (Ok e', w)"
      "emits r [StepCompletedP step (json_obj out)] (tick_of v) w" "live w r cur def"
    using live_emit [OF lv rid, of "StepCompletedP step (json_obj out)"] by blast
  have ex: "executeTask n \<lparr>TI_RunID = r, TI_TicketID = i, TI_Step = step\<rparr> s =
      advance (dispatch n) run def step True w"
    by (simp add: u(3) bnd_run v(1) call_handler_run h(2) mustJSON_def out w(1))
  have world: "G_world w = G_world s"
    using emits_world [OF u(1)] emits_world [OF v(2)] emits_world [OF w(2)] by simp
  obtain k where k: "begins r (follow run def step (SD_Next sd) True (clock (G_world w) k)) w
      (snd (advance (dispatch n) run def step True w))"
    using advance_begins [OF w(3) rid st sd HOL.refl, of True n] f by auto
  have "emits r [StepStarted step, StepCompletedP step (json_obj out)] s w"
    using emits_trans [OF emits_trans [OF u(1) v(2)] emits_trans [OF emits_tick w(2)]] by simp
  from begins_trans [OF this k] show ?thesis unfolding ex world by auto
qed

section \<open>Failing tasks\<close>

lemma step_of_started:
  assumes "E_Payload ev = StepStarted step" "step_of run step = Some st"
  shows "step_of (applyOne def run ev) step =
    Some (st\<lparr>SS_Status := StepRunning, SS_Attempt := SS_Attempt st + 1\<rparr>)"
  using assms by (simp add: step_of_applyOne)

text \<open>A failing handler is followed by handleTaskFailure on the run as it is then.\<close>

lemma executeTask_failed:
  assumes rdy: "task_ready s r step run def sd tk"
    and h: "G_handlers s (SD_Task sd) = Some h" "\<forall>k. h k run step (T_Fields tk) = Inl herr"
    and st: "step_of run step = Some st"
  shows "\<exists>v cur. emits r [StepStarted step] s v \<and> live v r cur def \<and>
    step_of cur step = Some (st\<lparr>SS_Status := StepRunning, SS_Attempt := SS_Attempt st + 1\<rparr>) \<and>
    executeTask n \<lparr>TI_RunID = r, TI_TicketID = i, TI_Step = step\<rparr> s =
      handleTaskFailure n cur def step sd herr v"
proof -
  from executeTask_prefix [OF rdy, of n i] obtain u where u: "emits r [] s u" "live u r run def"
    "executeTask n \<lparr>TI_RunID = r, TI_TicketID = i, TI_Step = step\<rparr> s =
      bnd (emit run (StepStarted step)) (\<lambda>_. bnd (call_handler h run step (T_Fields tk)) (\<lambda>res.
        case res of
          Inl herr \<Rightarrow> bnd (attempt (GetRun (R_ID run))) (\<lambda>fr.
            handleTaskFailure n (case fr of Inr r \<Rightarrow> r | Inl _ \<Rightarrow> run) def step sd herr)
        | Inr out \<Rightarrow> bnd (mustJSON (marshals_obj out) (json_obj out)) (\<lambda>jout.
            bnd (emit run (StepCompletedP step jout)) (\<lambda>_.
            advance (dispatch n) run def step True)))) u"
    using h(1) by auto
  obtain e v ev where v: "emit run (StepStarted step) u = (Ok e, v)" "emits r [StepStarted step] u v"
      "E_Payload ev = StepStarted step" "live v r (applyOne def run ev) def"
    using emit_started [OF u(2)] by blast
  have rid: "R_ID run = r" by (rule live_ID [OF u(2)])
  obtain w where w: "GetRun r (tick_of v) = (Ok (applyOne def run ev), w)" "emits r [] (tick_of v) w"
    using live_GetRun [OF live_tick [OF v(4)]] by blast
  have "live w r (applyOne def run ev) def"
    using live_emits [OF live_tick [OF v(4)] w(2)] by (auto simp: payloads_def)
  moreover have "emits r [StepStarted step] s w"
    using emits_trans [OF emits_trans [OF u(1) v(2)] emits_trans [OF emits_tick w(2)]] by simp
  moreover have "executeTask n \<lparr>TI_RunID = r, TI_TicketID = i, TI_Step = step\<rparr> s =
      handleTaskFailure n (applyOne def run ev) def step sd herr w"
    by (simp add: u(3) bnd_run attempt_run v(1) call_handler_run h(2) rid w(1))
  ultimately show ?thesis using step_of_started [OF v(3) st] by blast
qed

definition max_attempts :: "StepDef \<Rightarrow> int" where
  "max_attempts sd = max 1 (RP_MaxAttempts (SD_Retry sd))"

lemma max_attempts_eq:
  "(if RP_MaxAttempts (SD_Retry sd) \<le> 0 then 1 else RP_MaxAttempts (SD_Retry sd)) = max_attempts sd"
  by (simp add: max_attempts_def max_def)

text \<open>
  (C13) Retry: while the attempts of the step, this one included, are fewer than its policy
  allows (one, when the policy says nothing), a failed attempt appends STEP_FAILED with the
  handler's reason and schedules the step again, due after the policy's delay; the run is not
  marked as failing.
\<close>

theorem task_retry:
  assumes rdy: "task_ready s r step run def sd tk"
    and h: "G_handlers s (SD_Task sd) = Some h" "\<forall>k. h k run step (T_Fields tk) = Inl herr"
    and st: "step_of run step = Some st" and again: "SS_Attempt st + 1 < max_attempts sd"
  shows "\<exists>k. begins r [StepStarted step, StepFailedP step herr (SS_Attempt st + 1),
      StepScheduled step KindTask (if 0 < RP_Delay (SD_Retry sd)
        then clock (G_world s) k + RP_Delay (SD_Retry sd) else zero_time)] s
    (snd (executeTask n \<lparr>TI_RunID = r, TI_TicketID = i, TI_Step = step\<rparr> s))"
proof -
  obtain v cur where v: "emits r [StepStarted step] s v" "live v r cur def"
      "step_of cur step = Some (st\<lparr>SS_Status := StepRunning, SS_Attempt := SS_Attempt st + 1\<rparr>)"
      "executeTask n \<lparr>TI_RunID = r, TI_TicketID = i, TI_Step = step\<rparr> s =
        handleTaskFailure n cur def step sd herr v"
    using executeTask_failed [OF rdy h st] by blast
  let ?fail = "StepFailedP step herr (SS_Attempt st + 1)"
  obtain e w cur' where w: "emit cur ?fail v = (Ok e, w)" "emits r [?fail] v w" "live w r cur' def"
    using live_emit [OF v(2) live_ID [OF v(2)], of ?fail] by blast
  let ?t = "clock (G_world w) (G_ticks w)" and ?d = "RP_Delay (SD_Retry sd)"
  let ?due = "if 0 < ?d then Some (?t + ?d) else None"
  let ?ev = "(event (R_TicketID cur) (R_ID cur) (StepScheduled step KindTask
      (case ?due of None \<Rightarrow> zero_time | Some d \<Rightarrow> d)))\<lparr>E_At := ?t, E_ScheduleAt := ?due\<rparr>"
  let ?sch = "StepScheduled step KindTask (if 0 < ?d then ?t + ?d else zero_time)"
  have av: "available (G_world (tick_of w))" using live_available [OF w(3)] by simp
  have rid: "R_ID cur = r" by (rule live_ID [OF v(2)])
  have ev: "E_RunID ?ev = r" "E_Payload ?ev = ?sch" by (simp_all add: rid)
  obtain e' x where x: "append_event ?ev (tick_of w) = (Ok e', x)" "emits r [?sch] (tick_of w) x"
    using append_event_emits [OF av ev] by blast
  have "live (tick_of w) r cur' def" by (rule live_tick [OF w(3)])
  from live_emits [OF this x(2)] obtain cur'' where "live x r cur'' def" by auto
  from live_GetRun [OF this] obtain y where y: "GetRun r x = (Ok cur'', y)" "emits r [] x y" by blast
  have world: "G_world w = G_world s" using emits_world [OF v(1)] emits_world [OF w(2)] by simp
  have att: "SS_Attempt (st\<lparr>SS_Status := StepRunning, SS_Attempt := SS_Attempt st + 1\<rparr>) = SS_Attempt st + 1"
    by simp
  have "handleTaskFailure n cur def step sd herr v = dispatch n cur'' def y"
    using again w(1) x(1) y(1) rid unfolding handleTaskFailure_def max_attempts_eq
    by (simp only: v(3) option.case Let_def StepState.select_convs StepState.update_convs att if_True bnd_run attempt_run now_def
        sample_def prod.case res.case sum.case)
  moreover have "adds (on_run r (\<lambda>_. False)) y (snd (dispatch n cur'' def y))"
    by (rule keeps_at, rule adds_dispatch, rule GetRun_R_ID [OF y(1)])
  moreover have "emits r [StepStarted step, ?fail, ?sch] s y"
    using emits_trans [OF emits_trans [OF v(1) w(2)] emits_trans [OF emits_tick
        emits_trans [OF x(2) y(2)]]] by simp
  ultimately show ?thesis unfolding v(4) world begins_def
    by (intro exI [of _ "G_ticks w"] exI [of _ y] conjI) simp_all
qed

text \<open>
  (C14) Giving up: when the policy's attempts are used up, a failed attempt appends STEP_FAILED
  and RUN_FAILING, and then takes the step's error path, or fails the run when it has none. The
  reason of that RUN_FAILED is the error that the step had before this attempt.
\<close>

theorem task_gives_up:
  assumes rdy: "task_ready s r step run def sd tk"
    and h: "G_handlers s (SD_Task sd) = Some h" "\<forall>k. h k run step (T_Fields tk) = Inl herr"
    and st: "step_of run step = Some st" and last: "max_attempts sd \<le> SS_Attempt st + 1"
    and f: "can_follow def (SD_OnError sd)"
  shows "\<exists>k. begins r ([StepStarted step, StepFailedP step herr (SS_Attempt st + 1), RunFailing step herr] @
      (if SD_OnError sd = [] then [RunFailed step (SS_Error st)]
       else sched_payloads (the (Step def (SD_OnError sd))) (SD_OnError sd) (clock (G_world s) k))) s
    (snd (executeTask n \<lparr>TI_RunID = r, TI_TicketID = i, TI_Step = step\<rparr> s))"
proof -
  from rdy have sd: "Step def step = Some sd" by (simp add: task_ready_def)
  obtain v cur where v: "emits r [StepStarted step] s v" "live v r cur def"
      "step_of cur step = Some (st\<lparr>SS_Status := StepRunning, SS_Attempt := SS_Attempt st + 1\<rparr>)"
      "executeTask n \<lparr>TI_RunID = r, TI_TicketID = i, TI_Step = step\<rparr> s =
        handleTaskFailure n cur def step sd herr v"
    using executeTask_failed [OF rdy h st] by blast
  have rid: "R_ID cur = r" by (rule live_ID [OF v(2)])
  let ?fail = "StepFailedP step herr (SS_Attempt st + 1)"
  obtain e w cur' where w: "emit cur ?fail v = (Ok e, w)" "emits r [?fail] v w" "live w r cur' def"
    using live_emit [OF v(2) rid, of ?fail] by blast
  obtain e' x cur'' where x: "emit cur (RunFailing step herr) w = (Ok e', x)"
      "emits r [RunFailing step herr] w x" "live x r cur'' def"
    using live_emit [OF w(3) rid, of "RunFailing step herr"] by blast
  have world: "G_world x = G_world s"
    using emits_world [OF v(1)] emits_world [OF w(2)] emits_world [OF x(2)] by simp
  have ex: "handleTaskFailure n cur def step sd herr v = advance (dispatch n) cur def step False x"
    using last w(1) x(1) unfolding handleTaskFailure_def failStep_def max_attempts_eq
    by (simp add: v(3) Let_def bnd_run)
  have "step_of cur step \<noteq> None" by (simp add: v(3))
  from advance_begins [OF x(3) rid this sd HOL.refl, of False n] f
  obtain k where k: "begins r (follow cur def step (SD_OnError sd) False (clock (G_world x) k)) x
      (snd (advance (dispatch n) cur def step False x))" by auto
  have "emits r [StepStarted step, ?fail, RunFailing step herr] s x"
    using emits_trans [OF emits_trans [OF v(1) w(2)] x(2)] by simp
  from begins_trans [OF this k] show ?thesis
    unfolding v(4) ex world follow_def by (auto simp: v(3) split: if_splits)
qed

section \<open>Approving and rejecting\<close>

lemma begins_bnd:
  assumes "begins r ps s (snd (m s))" "\<And>x. keeps (adds (on_run r (\<lambda>_. False))) (f x)"
  shows "begins r ps s (snd (bnd m f s))"
proof -
  have "adds (on_run r (\<lambda>_. False)) (snd (m s)) (snd (bnd m f s))"
    using assms(2) by (cases rule: bnd_cases [of m s f]) (auto simp: ad.refl keeps_def)
  with assms(1) show ?thesis unfolding begins_def by (blast intro: ad.trans)
qed

lemma pending_ofD:
  "pending_of run step = Some a \<Longrightarrow>
    \<exists>st. step_of run step = Some st \<and> SS_Approval st = Some a \<and> AS_Status a = Pending"
  by (auto simp: pending_of_def split: option.splits if_splits)

definition granted_state :: "ApprovalState \<Rightarrow> string \<Rightarrow> ApprovalState" where
  "granted_state a who = a\<lparr>AS_Status := Granted, AS_DecidedBy := who\<rparr>"

lemma step_of_granted:
  assumes "E_Payload ev = ApprovalGranted step idx who" "step_of run step = Some st"
    "SS_Approval st = Some a"
  shows "step_of (applyOne def run ev) step = Some (st\<lparr>SS_Approval := Some (granted_state a who)\<rparr>)"
  using assms by (simp add: step_of_applyOne decide_def granted_state_def)

text \<open>Approve up to the grant.\<close>

lemma Approve_prefix:
  assumes l: "live s r run def" and a: "pending_of run step = Some a"
    and auth: "authorizeApprover (AS_Chain a) (AS_Index a) who = None"
  shows "\<exists>u nr. emits r [ApprovalGranted step (AS_Index a) who] s u \<and> live u r nr def \<and>
    R_Failed nr = R_Failed run \<and>
    (\<exists>st. step_of run step = Some st \<and> step_of nr step = Some (st\<lparr>SS_Approval := Some (granted_state a who)\<rparr>)) \<and>
    Approve n r step who comment s =
      bnd (ignore (advanceApproval (dispatch n) nr def step)) (\<lambda>_. dispatchAfter n nr def) u"
proof -
  obtain s1 where s1: "GetRun r s = (Ok run, s1)" "emits r [] s s1" using live_GetRun [OF l] by blast
  have l1: "live s1 r run def" using live_emits [OF l s1(2)] by (auto simp: payloads_def)
  obtain s2 where s2: "loadWorkflow (R_Workflow run) (R_WorkflowVer run) s1 = (Ok def, s2)" "emits r [] s1 s2"
    using live_load [OF l1] by blast
  have l2: "live s2 r run def" using live_emits [OF l1 s2(2)] by (auto simp: payloads_def)
  let ?p = "ApprovalGranted step (AS_Index a) who"
  obtain e s3 ev where s3: "emit run ?p s2 = (Ok e, s3)" "emits r [?p] s2 s3" "E_Payload ev = ?p"
      "live s3 r (applyOne def run ev) def"
    using live_emit [OF l2 live_ID [OF l2], of ?p] by blast
  let ?nr = "applyOne def run ev"
  obtain u where u: "GetRun r s3 = (Ok ?nr, u)" "emits r [] s3 u" using live_GetRun [OF s3(4)] by blast
  obtain st where st: "step_of run step = Some st" "SS_Approval st = Some a"
    using pending_ofD [OF a] by blast
  have "emits r [?p] s u"
    using emits_trans [OF emits_trans [OF s1(2) s2(2)] emits_trans [OF s3(2) u(2)]] by simp
  moreover have "live u r ?nr def" using live_emits [OF s3(4) u(2)] by (auto simp: payloads_def)
  moreover have "R_Failed ?nr = R_Failed run"
    using R_Failed_applyAll [of run def "[ev]"] s3(3) by simp
  moreover have "Approve n r step who comment s =
      bnd (ignore (advanceApproval (dispatch n) ?nr def step)) (\<lambda>_. dispatchAfter n ?nr def) u"
    unfolding Approve_def bnd_run [of "GetRun r"] s1(1) prod.case res.case
      bnd_run [of "loadWorkflow (R_Workflow run) (R_WorkflowVer run)"] s2(1)
      bnd_run [of "pending_approval run step True"] pending_approval_eq(1) [OF a] auth check_def
      option.case ret_bnd bnd_run [of "emit run ?p"] s3(1) bnd_run [of "attempt (GetRun r)"]
      attempt_run u(1) sum.case ..
  ultimately show ?thesis using st step_of_granted [OF s3(3) st] by blast
qed

text \<open>No delay of the run elapses while the clock gives the times of this world.\<close>

definition timers_rest :: "World \<Rightarrow> WorkflowRun \<Rightarrow> bool" where
  "timers_rest w run \<longleftrightarrow> (\<forall>n st due. step_of run n = Some st \<and> SS_Kind st = KindDelay \<and> SS_Status st = StepWaiting \<and>
     SS_DueAt st = Some due \<longrightarrow> (\<forall>k. clock w k < due))"

definition keeps_log :: "Engine \<Rightarrow> Engine \<Rightarrow> bool" where
  "keeps_log s t \<longleftrightarrow> G_log t = G_log s \<and> G_world t = G_world s"

interpretation kl: frame keeps_log
  by unfold_locales (auto simp: keeps_log_def)

lemma keeps_log_submit: "keeps keeps_log (submit_step run nm)"
  by (auto simp: keeps_def submit_step_def pool_Submit_def bnd_def sample_def keeps_log_def Let_def
      split: prod.split option.split res.split sum.split)

lemma keeps_log_order: "keeps keeps_log (in_map_order ks)"
  by (simp add: keeps_def in_map_order_def bnd_run sample_def keeps_log_def)

lemma dispatchAfter_step_rests:
  assumes "timers_rest (G_world s) run"
  shows "keeps_log s (snd (dispatchAfter_step disp run def nm s))"
proof (cases "step_of run nm")
  case (Some st)
  let ?timer = "case SS_DueAt st of None \<Rightarrow> ret ()
      | Some due \<Rightarrow> bnd (is_due due) (\<lambda>ready. if ready then ignore (fireTimer disp run def nm) else ret ())"
  have timer: "keeps_log t (snd (?timer t))"
    if "SS_Kind st = KindDelay" "SS_Status st = StepWaiting" "G_world t = G_world s" for t
  proof (cases "SS_DueAt st")
    case (Some due)
    have "\<not> due \<le> clock (G_world s) (G_ticks t)"
      using assms that \<open>step_of run nm = Some st\<close> Some unfolding timers_rest_def by (auto simp: not_le)
    then show ?thesis using Some that(3)
      by (simp add: is_due_def now_def sample_def bnd_run keeps_log_def)
  qed (simp add: keeps_log_def)
  show ?thesis
    unfolding dispatchAfter_step_def Some option.case
  proof (rule kl.bnd_at)
    let ?m = "if SS_Kind st = KindTask \<and> SS_Status st = StepPending then submit_step run nm else ret ()"
    have m: "keeps keeps_log ?m" by (intro kl.keeps_if kl.keeps_ret keeps_log_submit)
    show "keeps_log s (snd (?m s))" by (rule keeps_at [OF m])
    fix x t assume "?m s = (Ok x, t)"
    from keepsD [OF m this] have w: "G_world t = G_world s" by (simp only: keeps_log_def simp_thms)
    show "keeps_log t (snd ((if SS_Kind st = KindDelay \<and> SS_Status st = StepWaiting then ?timer else ret ()) t))"
    proof (cases "SS_Kind st = KindDelay \<and> SS_Status st = StepWaiting")
      case True
      show ?thesis by (subst if_P [OF True]) (rule timer [OF conjunct1 [OF True] conjunct2 [OF True] w])
    next
      case False
      show ?thesis by (subst if_not_P [OF False]) (simp add: keeps_log_def)
    qed
  qed
qed (simp add: dispatchAfter_step_def keeps_log_def)

lemma dispatchAfter_rests:
  assumes "timers_rest (G_world s) run"
  shows "keeps_log s (snd (dispatchAfter n run def s))"
  unfolding dispatchAfter_def
proof (cases "terminal (R_Status run)")
  case False
  have "keeps_log t (snd (for_each names (dispatchAfter_step (dispatch n) run def) t))"
    if "timers_rest (G_world t) run" for names t
  proof (rule kl.for_each_at [where J = "\<lambda>t. timers_rest (G_world t) run"])
    show "timers_rest (G_world v) run" if "timers_rest (G_world u) run" "keeps_log u v" for u v
      using that by (simp add: keeps_log_def)
  qed (use that dispatchAfter_step_rests in blast)+
  then have "keeps_log s (snd (bnd (in_map_order (map fst (R_Steps run)))
      (\<lambda>names. for_each names (dispatchAfter_step (dispatch n) run def)) s))"
    using assms keepsD [OF keeps_log_order] by (intro kl.bnd_at keeps_at [OF keeps_log_order]) (auto simp: keeps_log_def)
  with False show "keeps_log s (snd ((if terminal (R_Status run) then ret () else bnd (in_map_order (map fst (R_Steps run)))
      (\<lambda>names. for_each names (dispatchAfter_step (dispatch n) run def))) s))" by simp
qed (simp add: keeps_log_def)

lemma timers_rest_granted:
  assumes "payloads new = [ApprovalGranted step i who]" "timers_rest w run"
  shows "timers_rest w (applyAll run def new)"
proof -
  have "SS_DueAt (new_step def n st) = None" for n st by (simp add: new_step_def)
  then show ?thesis
    using assms(2) unfolding timers_rest_def
    by (cases "step_of run step") (auto simp: step_of_applyAll assms(1) decide_def split: if_splits option.splits)
qed

text \<open>
  (C15) Granting a link that is not the last asks for the next one: the call appends first the grant
  and then the request for the next link of the chain, with that link's role and user, and nothing
  else unless a delay of the run elapses meanwhile. Granting the last link completes the step and
  moves the run on; what follows is what dispatching the run appends.
\<close>

theorem Approve_effect:
  assumes l: "live s r run def" and a: "pending_of run step = Some a"
    and idx: "0 \<le> AS_Index a" "AS_Index a < int (length (AS_Chain a))"
    and auth: "may_decide (AS_Chain a ! nat (AS_Index a)) who"
    and sd: "Step def step = Some sd" and f: "can_follow def (SD_Next sd)"
  shows "(AS_Index a + 1 < int (length (AS_Chain a)) \<and> timers_rest (G_world s) run \<longrightarrow>
      (let link = AS_Chain a ! nat (AS_Index a + 1)
       in emits r [ApprovalGranted step (AS_Index a) who,
            ApprovalRequested step (AS_Index a + 1) (A_Role link) (A_User link) (int (length (AS_Chain a)))] s
          (snd (Approve n r step who comment s)))) \<and>
    (\<exists>k. begins r (ApprovalGranted step (AS_Index a) who #
      (if AS_Index a + 1 < int (length (AS_Chain a)) then
        (let link = AS_Chain a ! nat (AS_Index a + 1)
         in [ApprovalRequested step (AS_Index a + 1) (A_Role link) (A_User link) (int (length (AS_Chain a)))])
       else StepCompletedP step None # follow run def step (SD_Next sd) True (clock (G_world s) k))) s
    (snd (Approve n r step who comment s)))"
proof -
  have "authorizeApprover (AS_Chain a) (AS_Index a) who = None"
    using idx auth by (simp add: authorizeApprover_iff)
  from Approve_prefix [OF l a this, of n comment] obtain u nr st where
    u: "emits r [ApprovalGranted step (AS_Index a) who] s u" "live u r nr def" "R_Failed nr = R_Failed run"
      "step_of run step = Some st" "step_of nr step = Some (st\<lparr>SS_Approval := Some (granted_state a who)\<rparr>)"
      "Approve n r step who comment s =
        bnd (ignore (advanceApproval (dispatch n) nr def step)) (\<lambda>_. dispatchAfter n nr def) u"
    by blast
  have rid: "R_ID nr = r" by (rule live_ID [OF u(2)])
  have world: "G_world u = G_world s" using emits_world [OF u(1)] by simp
  have after: "keeps (adds (on_run r (\<lambda>_. False))) (dispatchAfter n nr def)"
    by (rule adds_dispatchAfter) (rule rid)
  show ?thesis
  proof (cases "AS_Index a + 1 < int (length (AS_Chain a))")
    case True
    let ?link = "AS_Chain a ! nat (AS_Index a + 1)"
    let ?p = "ApprovalRequested step (AS_Index a + 1) (A_Role ?link) (A_User ?link) (int (length (AS_Chain a)))"
    obtain e v where v: "emit nr ?p u = (Ok e, v)" "emits r [?p] u v"
      using emit_emits [OF live_available [OF u(2)] rid] by blast
    have adv: "advanceApproval (dispatch n) nr def step u = (Ok (), v)"
      using True idx(1) v(1)
      by (simp add: advanceApproval_def u(5) granted_state_def Let_def bnd_run)
    have "begins r [?p] u (snd (ignore (advanceApproval (dispatch n) nr def step) u))"
      using adv emits_begins [OF v(2)] by simp
    from begins_trans [OF u(1) begins_bnd [where m = "ignore (advanceApproval (dispatch n) nr def step)", OF this after]]
    have "begins r [ApprovalGranted step (AS_Index a) who, ?p] s (snd (Approve n r step who comment s))"
      unfolding u(6) by simp
    moreover have "emits r [ApprovalGranted step (AS_Index a) who, ?p] s (snd (Approve n r step who comment s))"
      if rest: "timers_rest (G_world s) run"
    proof -
      obtain new where new: "payloads new = [ApprovalGranted step (AS_Index a) who]" "live u r (applyAll run def new) def"
        using live_emits [OF l u(1)] by auto
      have "nr = applyAll run def new" using live_parts(5) [OF u(2)] live_parts(5) [OF new(2)] by simp
      then have "timers_rest (G_world v) nr"
        using timers_rest_granted [OF new(1) rest] world emits_world [OF v(2)] by simp
      from dispatchAfter_rests [OF this, of n def] have "G_log (snd (dispatchAfter n nr def v)) = G_log v"
        by (simp add: keeps_log_def)
      moreover have "adds (exactly_on r (\<lambda>_. True)) v (snd (dispatchAfter n nr def v))"
        by (rule adds_mono [OF keeps_at [OF after]]) (simp add: on_run_def exactly_on_def)
      ultimately have "emits r [] v (snd (dispatchAfter n nr def v))" by (simp add: emits_def payloads_def)
      from emits_trans [OF emits_trans [OF u(1) v(2)] this] adv show ?thesis
        unfolding u(6) by (simp add: bnd_run ignore_def attempt_run)
    qed
    ultimately show ?thesis using True by (simp add: Let_def)
  next
    case False
    obtain e v cur where v: "emit nr (StepCompletedP step None) u = (Ok e, v)"
        "emits r [StepCompletedP step None] u v" "live v r cur def"
      using live_emit [OF u(2) rid, of "StepCompletedP step None"] by blast
    have "advanceApproval (dispatch n) nr def step u = advance (dispatch n) nr def step True v"
      using False idx v(1) by (simp add: advanceApproval_def u(5) granted_state_def bnd_run)
    moreover have "step_of nr step \<noteq> None" by (simp add: u(5))
    from advance_begins [OF v(3) rid this sd HOL.refl, of True n] f obtain k where
      k: "begins r (follow nr def step (SD_Next sd) True (clock (G_world v) k)) v
        (snd (advance (dispatch n) nr def step True v))" by auto
    moreover have "follow nr def step (SD_Next sd) True tm = follow run def step (SD_Next sd) True tm" for tm
      by (simp add: follow_def u(3-5))
    ultimately have "begins r (StepCompletedP step None # follow run def step (SD_Next sd) True (clock (G_world s) k))
        u (snd (ignore (advanceApproval (dispatch n) nr def step) u))"
      using begins_trans [OF v(2) k] emits_world [OF v(2)] world by simp
    from begins_trans [OF u(1) begins_bnd [where m = "ignore (advanceApproval (dispatch n) nr def step)", OF this after]] False show ?thesis
      unfolding u(6) by auto
  qed
qed

text \<open>
  (C16) Rejecting ends the run: an authorised rejection appends APPROVAL_REJECTED and RUN_FAILED
  with the reason and nothing else, whatever the step's error path says, and the run is failed.
\<close>

theorem Reject_effect:
  assumes l: "live s r run def" and a: "pending_of run step = Some a"
    and idx: "0 \<le> AS_Index a" "AS_Index a < int (length (AS_Chain a))"
    and auth: "may_decide (AS_Chain a ! nat (AS_Index a)) who"
  shows "\<exists>t. Reject r step who reason s = (Ok (), t) \<and>
    emits r [ApprovalRejected step (AS_Index a) who reason,
      RunFailed step (''approval rejected: '' @ reason)] s t \<and> run_status t r = RunStatusFailed"
proof -
  have au: "authorizeApprover (AS_Chain a) (AS_Index a) who = None"
    using idx auth by (simp add: authorizeApprover_iff)
  let ?p = "ApprovalRejected step (AS_Index a) who reason"
  let ?q = "RunFailed step (''approval rejected: '' @ reason)"
  obtain s1 where s1: "GetRun r s = (Ok run, s1)" "emits r [] s s1" using live_GetRun [OF l] by blast
  have l1: "live s1 r run def" using live_emits [OF l s1(2)] by (auto simp: payloads_def)
  have rid: "R_ID run = r" by (rule live_ID [OF l])
  obtain e s2 cur where s2: "emit run ?p s1 = (Ok e, s2)" "emits r [?p] s1 s2" "live s2 r cur def"
    using live_emit [OF l1 rid, of ?p] by blast
  obtain e' t where t: "emit run ?q s2 = (Ok e', t)" "emits r [?q] s2 t"
    using emit_emits [OF live_available [OF s2(3)] rid] by blast
  have e: "emits r [?p, ?q] s t" using emits_trans [OF emits_trans [OF s1(2) s2(2)] t(2)] by simp
  then have "run_status t r = RunStatusFailed" by (auto simp: emits_def run_status_def)
  moreover have "Reject r step who reason s = (Ok (), t)"
    unfolding Reject_def bnd_run [of "GetRun r"] s1(1) prod.case res.case
      bnd_run [of "pending_approval run step False"] pending_approval_eq(1) [OF a] au check_def
      option.case ret_bnd bnd_run [of "emit run ?p"] s2(1) bnd_run [of "emit run ?q"] t(1) ret_run ..
  ultimately show ?thesis using e by blast
qed

section \<open>Creating a ticket\<close>

lemma newID_run: "\<exists>i. newID prefix s = (Ok i, tick_of s)"
  by (auto simp: newID_def bnd_run sample_def split: sum.split)

lemma save_run:
  "available (G_world s) \<Longrightarrow> wrap_error f (store_SaveTicket t) s =
    (Ok (), (tick_of s)\<lparr>G_store := SaveTicket t (G_store s)\<rparr>)"
  by (simp add: wrap_error_def store_SaveTicket_def bnd_run attempt_run writing_available)

lemma load_run:
  assumes "available (G_world s)" "wf_of s n v = Some def"
  shows "\<exists>t. wrap_error f (loadWorkflow n v) s = (Ok def, t) \<and> loadWorkflow n v s = (Ok def, t) \<and> reads s t"
proof -
  obtain t where t: "loadWorkflow n v s = (Ok def, t)"
    using loadWorkflow_available [OF assms(1), of n v] assms(2)
    by (auto simp: wf_of_def split: option.splits sum.splits)
  then show ?thesis using keepsD [OF reads_loadWorkflow t] by (auto simp: wrap_error_def bnd_run attempt_run)
qed

text \<open>The ticket that CreateTicket builds: normal priority, then the routing rules.\<close>

definition new_ticket :: "ticket_id \<Rightarrow> WorkflowDef \<Rightarrow> string \<Rightarrow> goobj option \<Rightarrow> time \<Rightarrow> Ticket" where
  "new_ticket i def title fs tm = Apply \<lparr>T_ID = i, T_Workflow = W_Name def, T_WorkflowVer = W_Version def,
     T_Title = title, T_Fields = (case fs of None \<Rightarrow> Some [] | Some m \<Rightarrow> Some m), T_Assignee = [],
     T_Queue = [], T_Priority = ''normal'', T_CreatedAt = tm, T_UpdatedAt = tm\<rparr> (W_Routing def)"

lemma new_ticket_ID [simp]: "T_ID (new_ticket i def title fs tm) = i"
  by (simp add: new_ticket_def)

lemma new_ticket_workflow [simp]:
  "T_Workflow (new_ticket i def title fs tm) = W_Name def"
  "T_WorkflowVer (new_ticket i def title fs tm) = W_Version def"
  by (simp_all add: new_ticket_def)

lemma new_ticket_assigned: "T_Priority (new_ticket i def title fs tm) \<noteq> []"
  by (simp add: new_ticket_def Apply_first_match apply_rule_fields split: option.split)

lemma marshals_update:
  "list_all (marshals \<circ> snd) m \<Longrightarrow> list_all (marshals \<circ> snd) (AList.update x (VInt i) m)"
  by (induction m) auto

lemma new_ticket_marshals:
  assumes "fs = None \<or> marshals_obj fs"
  shows "marshals_obj (T_Fields (new_ticket i def title fs tm))"
  using assms
  by (auto simp: new_ticket_def Apply_first_match apply_rule_fields fields_of_def marshals_obj_def
      marshals_update split: option.splits)

text \<open>Appending an event leaves the queue alone; its result carries the ticket of the event.\<close>

lemma append_event_pool: "append_event ev s = (x, t) \<Longrightarrow> G_pool t = G_pool s"
  by (auto simp: append_event_def log_Append_def writing_def do_append_def now_def sample_def bnd_run
      split: prod.splits if_splits outcome.splits)

lemma scheduleStep_pool: "scheduleStep r i def nm s = (x, t) \<Longrightarrow> G_pool t = G_pool s"
  by (auto simp: scheduleStep_def Let_def now_def sample_def bnd_run bnd_def dest!: append_event_pool
      split: option.splits StepKind.splits list.splits prod.splits res.splits)

text \<open>The times of a world: the engine's clock, and the clock of the log for an event without time.\<close>

definition times :: "World \<Rightarrow> time set" where
  "times w = range (clock w) \<union> range (wall w)"

lemma log_Append_ticket:
  "log_Append e s = (Ok ev, t) \<Longrightarrow> E_TicketID ev = E_TicketID e \<and> (E_At ev = E_At e \<or> E_At ev \<in> range (wall (G_world s)))"
  by (auto simp: log_Append_def writing_def sample_def bnd_def do_append_def Append_eq split: outcome.splits)

lemma append_event_ticket:
  assumes "append_event ev s = (Ok e, t)" "E_RunID ev = r" "History (G_log t) r = History (G_log s) r @ new"
  shows "E_TicketID (hd new) = E_TicketID ev \<and> (E_At ev = zero_time \<longrightarrow> E_At (hd new) \<in> times (G_world s))"
proof -
  obtain u ev' where "log_Append ev' u = (Ok e, t)" "E_RunID ev' = r" "E_TicketID ev' = E_TicketID ev"
      "G_log u = G_log s" "E_At ev = zero_time \<longrightarrow> E_At ev' \<in> times (G_world s)" "G_world u = G_world s"
    using assms(1,2) that [of "ev\<lparr>E_At := clock (G_world s) (G_ticks s)\<rparr>" "tick_of s"] that [of ev s]
    by (simp add: append_event_def now_def bnd_run sample_def times_def split: if_splits)
  with log_Append_OkD [OF this(1)] log_Append_ticket [OF this(1)] assms(3) show ?thesis
    by (auto simp: times_def)
qed

lemma first_events_sound:
  assumes "append_event (event i r p1) s1 = (x1, s2)" "append_event (event i r p2) s2 = (x2, s3)"
    and "scheduleStep r i def nm s3 = (x3, s4)" "append_event (event i r p4) s4 = (x4, s5)"
    and "sound s1 \<and> has_ticket i s1"
  shows "sound s5"
proof -
  have app: "keeps_for i s t" if "append_event (event i r p) s = (x, t)" for p s x t
    using that keepsD [OF keeps_for_append_event [of "event i r p" i]] by simp
  have "keeps_for i s3 s4" using assms(3) keepsD [OF keeps_for_scheduleStep] by blast
  from kf.trans [OF kf.trans [OF kf.trans [OF app [OF assms(1)] app [OF assms(2)]] this] app [OF assms(4)]]
  show ?thesis using assms(5) unfolding keeps_for_def by blast
qed

text \<open>
  Creating a ticket up to the dispatch of its run: the ticket \<open>tk\<close> is stored, then the first
  events are appended, for that ticket.
\<close>

lemma CreateTicket_prefix:
  assumes av: "available (G_world s)" and w: "wf_of s name version = Some def"
    and sd: "Step def (W_Initial def) = Some sd" "step_ready sd" and fs: "fs = None \<or> marshals_obj fs"
  obtains i r k m tk t t' v v' s1 s5 where "tk = new_ticket i def title fs (clock (G_world s) k)"
    "CreateTicket n name version title fs s =
       bnd (GetRun r) (\<lambda>run. bnd (dispatch n run def) (\<lambda>_. ret (tk, run))) s5"
    "newID ''run'' t = (Ok r, t')" "G_world t = G_world s"
    "newID ''tkt'' v = (Ok i, v')" "G_world v = G_world s"
    "G_log s1 = G_log s" "G_store s1 = SaveTicket tk (G_store s)" "G_world s1 = G_world s"
    "emits r ([TicketCreated (json_ticket tk), RunStarted r (W_Initial def)] @
        sched_payloads sd (W_Initial def) (clock (G_world s) m) @
        [TicketAssigned (T_Queue tk) (T_Assignee tk) (T_Priority tk) 0]) s1 s5"
    "\<forall>new. History (G_log s5) r = History (G_log s1) r @ new \<longrightarrow>
       E_TicketID (hd new) = i \<and> E_At (hd new) \<in> times (G_world s)"
    "G_pool s5 = G_pool s" "G_handlers s5 = G_handlers s" "sound s \<longrightarrow> sound s5"
proof -
  obtain a where a: "wrap_error LoadWorkflow (loadWorkflow name version) s = (Ok def, a)"
      "loadWorkflow name version s = (Ok def, a)" "reads s a" using load_run [OF av w] by blast
  have same: "G_log a = G_log s" "G_world a = G_world s" "G_store a = G_store s" "G_pool a = G_pool s"
    "G_handlers a = G_handlers s" using a(3) by (simp_all add: reads_def)
  let ?t0 = "clock (G_world s) (G_ticks a)"
  have now: "now a = (Ok ?t0, tick_of a)" by (simp add: now_def sample_def same)
  obtain i where i: "newID ''tkt'' (tick_of a) = (Ok i, tick_of (tick_of a))" using newID_run by blast
  obtain r where r: "newID ''run'' (tick_of (tick_of a)) = (Ok r, tick_of (tick_of (tick_of a)))"
    using newID_run by blast
  let ?b = "tick_of (tick_of (tick_of a))" and ?tk = "new_ticket i def title fs ?t0"
  let ?s1 = "(tick_of ?b)\<lparr>G_store := SaveTicket ?tk (G_store ?b)\<rparr>"
  have save: "wrap_error SaveTicketFailed (store_SaveTicket ?tk) ?b = (Ok (), ?s1)"
    by (rule save_run) (simp add: same av)
  have av1: "available (G_world ?s1)" by (simp add: same av)
  let ?p1 = "TicketCreated (json_ticket ?tk)" and ?p2 = "RunStarted r (W_Initial def)"
  let ?p4 = "TicketAssigned (T_Queue ?tk) (T_Assignee ?tk) (T_Priority ?tk) 0"
  obtain e1 s2 where s2: "append_event (event i r ?p1) ?s1 = (Ok e1, s2)" "emits r [?p1] ?s1 s2"
    using append_event_emits [OF av1, of "event i r ?p1" r ?p1] by auto
  have av2: "available (G_world s2)" using emits_world [OF s2(2)] av1 by simp
  obtain e2 s3 where s3: "append_event (event i r ?p2) s2 = (Ok e2, s3)" "emits r [?p2] s2 s3"
    using append_event_emits [OF av2, of "event i r ?p2" r ?p2] by auto
  have av3: "available (G_world s3)" using emits_world [OF s3(2)] av2 by simp
  let ?ps = "sched_payloads sd (W_Initial def) (clock (G_world s3) (G_ticks s3))"
  obtain e3 s4 where s4: "scheduleStep r i def (W_Initial def) s3 = (Ok e3, s4)" "emits r ?ps s3 s4"
    using scheduleStep_emits [OF av3 sd] by blast
  have av4: "available (G_world s4)" using emits_world [OF s4(2)] av3 by simp
  obtain e4 s5 where s5: "append_event (event i r ?p4) s4 = (Ok e4, s5)" "emits r [?p4] s4 s5"
    using append_event_emits [OF av4, of "event i r ?p4" r ?p4] by auto
  have world: "G_world s3 = G_world s"
    using emits_world [OF s3(2)] emits_world [OF s2(2)] same by simp
  have marsh: "marshals_obj (T_Fields ?tk)" by (rule new_ticket_marshals [OF fs])
  have run: "CreateTicket n name version title fs s =
      bnd (GetRun r) (\<lambda>run. bnd (dispatch n run def) (\<lambda>_. ret (?tk, run))) s5"
    unfolding CreateTicket_def Let_def new_ticket_def [symmetric]
      bnd_run [of "wrap_error LoadWorkflow (loadWorkflow name version)"] a(1) prod.case res.case
      bnd_run [of now] now bnd_run [of "newID ''tkt''"] i bnd_run [of "newID ''run''"] r
      bnd_run [of "wrap_error SaveTicketFailed (store_SaveTicket ?tk)"] save mustJSON_def
      if_P [OF marsh] ret_bnd bnd_run [of "append_event (event i r ?p1)"] s2(1)
      bnd_run [of "append_event (event i r ?p2)"] s3(1)
      bnd_run [of "scheduleStep r i def (W_Initial def)"] s4(1)
    by (simp add: new_ticket_assigned bnd_run s5(1))
  have later: "emits r ([?p2] @ ?ps @ [?p4]) s2 s5"
    using emits_trans [OF emits_trans [OF s3(2) s4(2)] s5(2)] by simp
  have first: "\<forall>new. History (G_log s5) r = History (G_log ?s1) r @ new \<longrightarrow>
      E_TicketID (hd new) = i \<and> E_At (hd new) \<in> times (G_world s)"
  proof (intro allI impI)
    fix new assume that: "History (G_log s5) r = History (G_log ?s1) r @ new"
    obtain es where es: "History (G_log s2) r = History (G_log ?s1) r @ es" "payloads es = [?p1]"
      using s2(2) by (auto simp: emits_def)
    obtain es' where "History (G_log s5) r = History (G_log s2) r @ es'" using later by (auto simp: emits_def)
    with es(1) that have "new = es @ es'" by simp
    moreover have "es \<noteq> []" using es(2) by auto
    ultimately show "E_TicketID (hd new) = i \<and> E_At (hd new) \<in> times (G_world s)"
      using append_event_ticket [OF s2(1) _ es(1)] by (simp add: same)
  qed
  have pool: "G_pool s5 = G_pool s"
    using append_event_pool [OF s5(1)] scheduleStep_pool [OF s4(1)] append_event_pool [OF s3(1)]
      append_event_pool [OF s2(1)] same by simp
  have snd: "sound s \<longrightarrow> sound s5"
  proof
    assume that: "sound s"
    have "registered (G_store s) (W_Name def) (W_Version def)"
      using loadWorkflow_registered [OF that a(2)] .
    then have reg: "registered (G_store ?b) (T_Workflow ?tk) (T_WorkflowVer ?tk)"
      by (simp add: same)
    have "sound a" using keepsD [OF keeps_sound_none [OF adds_loadWorkflow] a(2)] that
      by (simp add: keeps_sound_def)
    then have "sound ?b" by (rule sound_cong) (simp_all add: same av)
    from sound_SaveTicket [OF this reg, of SaveTicketFailed]
    obtain s' where "wrap_error SaveTicketFailed (store_SaveTicket ?tk) ?b = (Ok (), s')"
        "sound s'" "has_ticket (T_ID ?tk) s'" by blast
    with save have "sound ?s1 \<and> has_ticket i ?s1" by (simp only: prod.inject new_ticket_ID)
    then show "sound s5" by (rule first_events_sound [OF s2(1) s3(1) s4(1) s5(1)])
  qed
  have all: "emits r ([?p1, ?p2] @ sched_payloads sd (W_Initial def) (clock (G_world s) (G_ticks s3)) @ [?p4]) ?s1 s5"
    using emits_trans [OF s2(2) later] unfolding world by (simp only: append_Cons append_Nil)
  have handlers: "G_handlers s5 = G_handlers s"
    using emits_world [OF all] same(5) by simp
  have s1: "G_log ?s1 = G_log s" "G_store ?s1 = SaveTicket ?tk (G_store s)" "G_world ?s1 = G_world s"
    "G_world (tick_of (tick_of a)) = G_world s" "G_world (tick_of a) = G_world s" by (simp_all add: same)
  show ?thesis by (rule that [OF HOL.refl run r s1(4) i s1(5,1-3) all first pool handlers snd])
qed

text \<open>
  (C17) Creating a ticket on a deployed workflow whose initial step can be scheduled: the ticket
  is routed by the workflow's rules and stored, and the new run's first events are
  TICKET_CREATED with that ticket, RUN_STARTED, the scheduling of the initial step, and
  TICKET_ASSIGNED with the queue, assignee and priority that routing chose.
\<close>

theorem CreateTicket_effect:
  assumes av: "available (G_world s)" and w: "wf_of s name version = Some def"
    and sd: "Step def (W_Initial def) = Some sd" "step_ready sd" and fs: "fs = None \<or> marshals_obj fs"
  shows "\<exists>i r k m s1. let tk = new_ticket i def title fs (clock (G_world s) k) in
    G_log s1 = G_log s \<and> GetTicket (G_store s1) i = Inr tk \<and>
    begins r ([TicketCreated (json_ticket tk), RunStarted r (W_Initial def)] @
        sched_payloads sd (W_Initial def) (clock (G_world s) m) @
        [TicketAssigned (T_Queue tk) (T_Assignee tk) (T_Priority tk) 0]) s1
      (snd (CreateTicket n name version title fs s))"
proof -
  obtain i r k m tk t t' s1 s5 where p: "tk = new_ticket i def title fs (clock (G_world s) k)"
    "CreateTicket n name version title fs s =
       bnd (GetRun r) (\<lambda>run. bnd (dispatch n run def) (\<lambda>_. ret (tk, run))) s5"
    "G_log s1 = G_log s" "G_store s1 = SaveTicket tk (G_store s)"
    "emits r ([TicketCreated (json_ticket tk), RunStarted r (W_Initial def)] @
        sched_payloads sd (W_Initial def) (clock (G_world s) m) @
        [TicketAssigned (T_Queue tk) (T_Assignee tk) (T_Priority tk) 0]) s1 s5"
    by (rule CreateTicket_prefix [OF av w sd fs, of title n])
  have "adds (on_run r (\<lambda>_. False)) s5
      (snd (bnd (GetRun r) (\<lambda>run. bnd (dispatch n run def) (\<lambda>_. ret (tk, run))) s5))"
    by (rule keeps_at, intro adds_GetRun_bnd ad.keeps_bnd adds_dispatch ad.keeps_ret)
  with p(2,5) have "begins r ([TicketCreated (json_ticket tk), RunStarted r (W_Initial def)] @
        sched_payloads sd (W_Initial def) (clock (G_world s) m) @
        [TicketAssigned (T_Queue tk) (T_Assignee tk) (T_Priority tk) 0]) s1
      (snd (CreateTicket n name version title fs s))"
    unfolding begins_def by auto
  moreover have "GetTicket (G_store s1) i = Inr tk" by (simp add: p(1,4))
  ultimately show ?thesis using p(1,3) unfolding Let_def by blast
qed

section \<open>Witnesses\<close>

lemma task_ready_demo:
  "task_ready (task_demo h) ''run_0'' ''a'' (demo_run (task_demo h) task_flow) task_flow
    (task_step ''a'' ''b'' []) demo_ticket"
  unfolding task_ready_def
  by (intro conjI live_task_demo) (simp_all add: eval_run cong: eval_congs)

lemma demo_step_a: "\<exists>st. step_of (demo_run (task_demo h) task_flow) ''a'' = Some st \<and> SS_Attempt st = 0 \<and> SS_Error st = []"
  by (simp add: eval_run cong: eval_congs)

lemma demo_handlers: "G_handlers (task_demo h) ''do'' = Some h"
  by (simp add: task_demo_def demo_state_def)

theorem task_success_witness:
  "begins ''run_0'' [StepStarted ''a'', StepCompletedP ''a'' (Some [(''ok'', VBool True)]),
      StepScheduled ''b'' KindTask 0] (task_demo handler_ok)
    (snd (executeTask 3 \<lparr>TI_RunID = ''run_0'', TI_TicketID = ''tkt_0'', TI_Step = ''a''\<rparr> (task_demo handler_ok)))"
proof -
  have "\<exists>k. begins ''run_0'' ([StepStarted ''a'', StepCompletedP ''a'' (json_obj (Some [(''ok'', VBool True)]))] @
      follow (demo_run (task_demo handler_ok) task_flow) task_flow ''a'' (SD_Next (task_step ''a'' ''b'' [])) True
        (clock (G_world (task_demo handler_ok)) k)) (task_demo handler_ok)
    (snd (executeTask 3 \<lparr>TI_RunID = ''run_0'', TI_TicketID = ''tkt_0'', TI_Step = ''a''\<rparr> (task_demo handler_ok)))"
  proof (rule task_success [OF task_ready_demo, where h = handler_ok])
    show "step_of (demo_run (task_demo handler_ok) task_flow) ''a'' \<noteq> None" using demo_step_a by fastforce
    show "can_follow task_flow (SD_Next (task_step ''a'' ''b'' []))"
      by (simp add: can_follow_def task_flow_def flow_def task_step_def Step_def step_ready_def)
  qed (simp_all add: demo_handlers task_step_def handler_ok_def marshals_obj_def)
  then show ?thesis
    by (simp add: follow_def task_step_def task_flow_def flow_def Step_def sched_payloads_def json_obj_def)
qed

definition retry_step :: StepDef where
  "retry_step = (task_step ''a'' [] [])\<lparr>SD_Retry := \<lparr>RP_MaxAttempts = 3, RP_Delay = 10\<rparr>\<rparr>"

definition retry_demo :: Engine where
  "retry_demo = created handler_fails (flow [retry_step] [])"

lemma retry_demo_eq: "retry_demo = demo_state handler_fails (flow [retry_step] [])
     [TicketCreated demo_ticket, RunStarted ''run_0'' ''a'', StepScheduled ''a'' KindTask 0,
      TicketAssigned [] [] ''normal'' 0]
     [\<lparr>TI_RunID = ''run_0'', TI_TicketID = ''tkt_0'', TI_Step = ''a''\<rparr>] 22"
  unfolding retry_demo_def retry_step_def eval_created by (simp add: eval cong: eval_congs)

lemma retry_ready:
  "task_ready retry_demo ''run_0'' ''a'' (demo_run retry_demo (flow [retry_step] [])) (flow [retry_step] [])
    retry_step demo_ticket"
  unfolding task_ready_def live_def
proof (intro conjI)
  show "sound retry_demo"
    unfolding retry_demo_def by (rule reachable_sound [OF reachable_created]) simp
  show "keys_distinct (G_store retry_demo)"
    by (simp add: retry_demo_eq demo_state_def keys_distinct_single)
qed (simp_all add: eval_run retry_demo_eq retry_step_def def_of_def cong: eval_congs)

theorem task_retry_witness:
  "begins ''run_0'' [StepStarted ''a'', StepFailedP ''a'' ''boom'' 1, StepScheduled ''a'' KindTask 15] retry_demo
    (snd (executeTask 3 \<lparr>TI_RunID = ''run_0'', TI_TicketID = ''tkt_0'', TI_Step = ''a''\<rparr> retry_demo))"
proof -
  obtain st where st: "step_of (demo_run retry_demo (flow [retry_step] [])) ''a'' = Some st" "SS_Attempt st = 0"
    by (simp add: eval_run retry_demo_eq retry_step_def cong: eval_congs)
  have h: "G_handlers retry_demo (SD_Task retry_step) = Some handler_fails"
    by (simp add: retry_demo_eq demo_state_def retry_step_def task_step_def)
  have "\<forall>k. handler_fails k (demo_run retry_demo (flow [retry_step] [])) ''a'' (T_Fields demo_ticket) = Inl ''boom''"
    by (simp add: handler_fails_def)
  moreover have "SS_Attempt st + 1 < max_attempts retry_step"
    by (simp add: st(2) max_attempts_def retry_step_def)
  ultimately show ?thesis
    using task_retry [OF retry_ready h _ st(1), of "''boom''" 3 "''tkt_0''"] st(2)
    by (simp add: retry_step_def task_step_def) (simp add: retry_demo_eq demo_state_def calm_def)
qed

theorem task_gives_up_witness:
  "begins ''run_0'' [StepStarted ''a'', StepFailedP ''a'' ''boom'' 1, RunFailing ''a'' ''boom'', RunFailed ''a'' []]
    (task_demo handler_fails)
    (snd (executeTask 3 \<lparr>TI_RunID = ''run_0'', TI_TicketID = ''tkt_0'', TI_Step = ''a''\<rparr> (task_demo handler_fails)))"
proof -
  let ?run = "demo_run (task_demo handler_fails) task_flow"
  obtain st where st: "step_of ?run ''a'' = Some st" "SS_Attempt st = 0" "SS_Error st = []"
    using demo_step_a by blast
  have h: "G_handlers (task_demo handler_fails) (SD_Task (task_step ''a'' ''b'' [])) = Some handler_fails"
    by (simp add: demo_handlers task_step_def)
  have e: "\<forall>k. handler_fails k ?run ''a'' (T_Fields demo_ticket) = Inl ''boom''"
    by (simp add: handler_fails_def)
  have m: "max_attempts (task_step ''a'' ''b'' []) \<le> SS_Attempt st + 1"
    by (simp add: st(2) max_attempts_def task_step_def)
  have f: "can_follow task_flow (SD_OnError (task_step ''a'' ''b'' []))"
    by (simp add: can_follow_def task_step_def)
  from task_gives_up [OF task_ready_demo h e st(1) m f, of 3 "''tkt_0''"] st show ?thesis
    by (simp add: task_step_def)
qed

lemma demo_pending:
  "pending_of (demo_run approval_demo approval_flow) ''ok'' =
    Some \<lparr>AS_Chain = [\<lparr>A_Role = ''mgr'', A_User = []\<rparr>, \<lparr>A_Role = ''cfo'', A_User = []\<rparr>],
      AS_Index = 0, AS_Status = Pending, AS_DecidedBy = []\<rparr>"
  by (simp add: pending_of_def eval_run cong: eval_congs)

lemma demo_approval_step: "Step approval_flow ''ok'' = Some (approval_step ''ok'' [''mgr'', ''cfo''] [])"
  by (simp add: approval_flow_def flow_def Step_def approval_step_def)

lemma demo_equal_fold: "EqualFold ''Mgr'' ''mgr''" "EqualFold ''mgr'' ''mgr''"
  by code_simp+

lemma demo_rests: "timers_rest w (demo_run approval_demo approval_flow)"
  unfolding timers_rest_def by (simp add: eval_run cong: eval_congs)

theorem Approve_effect_witness:
  "emits ''run_0'' [ApprovalGranted ''ok'' 0 ''Mgr'', ApprovalRequested ''ok'' 1 ''cfo'' [] 2] approval_demo
    (snd (Approve 3 ''run_0'' ''ok'' ''Mgr'' [] approval_demo))"
  using Approve_effect [OF live_approval_demo demo_pending _ _ _ demo_approval_step, of "''Mgr''" 3 "[]"]
    demo_rests by (simp add: may_decide_def demo_equal_fold can_follow_def approval_step_def)

theorem Reject_effect_witness:
  "\<exists>t. Reject ''run_0'' ''ok'' ''mgr'' ''no'' approval_demo = (Ok (), t) \<and>
    run_status t ''run_0'' = RunStatusFailed"
  using Reject_effect [OF live_approval_demo demo_pending, of "''mgr''" "''no''"]
  by (auto simp: may_decide_def demo_equal_fold)

theorem CreateTicket_effect_witness:
  "\<exists>i r tk s1. GetTicket (G_store s1) i = Inr tk \<and>
    begins r [TicketCreated (json_ticket tk), RunStarted r ''ok'', ApprovalRequested ''ok'' 0 ''mgr'' [] 2,
        StepScheduled ''ok'' KindApproval 0, TicketAssigned (T_Queue tk) (T_Assignee tk) (T_Priority tk) 0] s1
      (snd (CreateTicket 3 ''wf'' ''1'' ''laptop'' None (engine_with (calm (\<lambda>_. 5)) approval_flow)))"
proof -
  let ?s = "engine_with (calm (\<lambda>_. 5)) approval_flow"
  have "wf_of ?s ''wf'' ''1'' = Some approval_flow"
    unfolding eval_created wf_of_def by (simp add: eval cong: eval_congs)
  moreover have "available (G_world ?s)"
    unfolding eval_created by (simp add: eval available_def cong: eval_congs)
  moreover have "Step approval_flow (W_Initial approval_flow) = Some (approval_step ''ok'' [''mgr'', ''cfo''] [])"
    by (simp add: approval_flow_def flow_def Step_def approval_step_def)
  moreover have "step_ready (approval_step ''ok'' [''mgr'', ''cfo''] [])"
    by (simp add: step_ready_def approval_step_def)
  ultimately show ?thesis
    using CreateTicket_effect [of ?s "''wf''" "''1''" approval_flow
        "approval_step ''ok'' [''mgr'', ''cfo''] []" None "''laptop''" 3]
    by (auto simp: Let_def sched_payloads_def approval_flow_def flow_def approval_step_def)
qed

end
