(* ===== verification/Engine_Progress.thy ===== *)
theory Engine_Progress
  imports Engine_Tasks
begin

text \<open>
  Progress: a run of a workflow that consists of tasks goes through them, one turn of a worker
  each, and completes. Between two turns exactly one task is queued, the one of the run's current
  step; what a turn appends is known event by event.
\<close>

section \<open>Workflows of tasks\<close>

definition task_only :: "WorkflowDef \<Rightarrow> bool" where
  "task_only def \<longleftrightarrow> (\<forall>sd \<in> set (W_Steps def). SD_Kind sd = KindTask)"

text \<open>No SLA of the run runs out while the clock gives the times of this world.\<close>

definition in_time :: "World \<Rightarrow> WorkflowRun \<Rightarrow> WorkflowDef \<Rightarrow> bool" where
  "in_time w run def \<longleftrightarrow> (\<forall>sla \<in> set (W_SLAs def). \<forall>k. clock w k \<le> R_CreatedAt run + SLA_Duration sla)"

text \<open>No SLA of a run that is created now runs out.\<close>

definition unhurried :: "World \<Rightarrow> WorkflowDef \<Rightarrow> bool" where
  "unhurried w def \<longleftrightarrow> (\<forall>sla \<in> set (W_SLAs def). \<forall>t \<in> times w. \<forall>k. clock w k \<le> t + SLA_Duration sla)"

text \<open>\<open>flows def path\<close>: the success edges lead from the first step of the path to its last and end there.\<close>

fun flows :: "WorkflowDef \<Rightarrow> string list \<Rightarrow> bool" where
  "flows def [] = False"
| "flows def [a] = (case Step def a of None \<Rightarrow> False | Some sd \<Rightarrow> SD_Next sd = [])"
| "flows def (a # b # path) =
     ((case Step def a of None \<Rightarrow> False | Some sd \<Rightarrow> SD_Next sd = b) \<and> b \<noteq> [] \<and> flows def (b # path))"

text \<open>Every task has a handler that succeeds, with some output that JSON can write.\<close>

definition willing :: "(string \<rightharpoonup> TaskHandler) \<Rightarrow> WorkflowDef \<Rightarrow> bool" where
  "willing handlers def \<longleftrightarrow> (\<forall>sd \<in> set (W_Steps def). \<exists>h. handlers (SD_Task sd) = Some h \<and>
     (\<forall>k run step fs. \<exists>out. h k run step fs = Inr out \<and> marshals_obj out))"

lemma step_kind_task: "task_only def \<Longrightarrow> step_kind def n = KindTask"
  by (auto simp: step_kind_def task_only_def split: option.split dest!: Step_SomeD)

section \<open>Dispatching a run of tasks\<close>

lemma for_each_ret: "(\<And>x. x \<in> set xs \<Longrightarrow> f x = ret ()) \<Longrightarrow> for_each xs f = ret ()"
proof (induction xs)
  case (Cons x xs)
  then have "f x = ret ()" "for_each xs f = ret ()" by auto
  then show ?case by (simp only: for_each.simps ret_bnd)
qed (simp only: for_each.simps)

text \<open>Only the step \<open>a\<close> is pending, and it is not delayed.\<close>

definition only_pending :: "WorkflowRun \<Rightarrow> string \<Rightarrow> bool" where
  "only_pending run a \<longleftrightarrow> (\<exists>st. step_of run a = Some st \<and> SS_Status st = StepPending \<and> SS_DueAt st = None) \<and>
     (\<forall>n st. step_of run n = Some st \<longrightarrow> n \<noteq> a \<longrightarrow> SS_Status st \<noteq> StepPending)"

definition item_of :: "WorkflowRun \<Rightarrow> string \<Rightarrow> taskItem" where
  "item_of run a = \<lparr>TI_RunID = R_ID run, TI_TicketID = R_TicketID run, TI_Step = a\<rparr>"

text \<open>The pool runs and takes another task without blocking.\<close>

definition has_room :: "Engine \<Rightarrow> bool" where
  "has_room s \<longleftrightarrow> length (P_tasks (G_pool s)) < pool_capacity \<and> \<not> P_closed (G_pool s)"

definition queued :: "WorkerPool \<Rightarrow> taskItem \<Rightarrow> WorkerPool" where
  "queued p item = p\<lparr>P_tasks := P_tasks p @ [item]\<rparr>"

definition fair_order :: "World \<Rightarrow> bool" where
  "fair_order w \<longleftrightarrow> (\<forall>k ks. set (order w k ks) = set ks \<and> (distinct ks \<longrightarrow> distinct (order w k ks)))"

lemma dispatch_step_skips:
  assumes "run_ok def run" "task_only def" "only_pending run a" "x \<noteq> a"
  shows "dispatch_step disp run def x = ret ()"
  using assms step_kind_task [OF assms(2)]
  by (auto simp: dispatch_step_def run_ok_def only_pending_def split: option.split)

lemma dispatch_approval_skips:
  assumes "run_ok def run" "task_only def"
  shows "dispatch_approval disp run def x = ret ()"
  using assms step_kind_task [OF assms(2)]
  by (auto simp: dispatch_approval_def run_ok_def split: option.split)

lemma dispatch_step_submits:
  assumes "run_ok def run" "task_only def" "only_pending run a"
    and "has_room s"
  shows "dispatch_step disp run def a s = (Ok (), (tick_of s)\<lparr>G_pool := queued (G_pool s) (item_of run a)\<rparr>)"
proof -
  from assms(3) obtain st where st: "step_of run a = Some st" "SS_Status st = StepPending" "SS_DueAt st = None"
    by (auto simp: only_pending_def)
  with assms(1) step_kind_task [OF assms(2)] have "SS_Kind st = KindTask" by (auto simp: run_ok_def)
  with st assms(4) show ?thesis
    by (simp add: dispatch_step_def submit_step_def pool_Submit_def bnd_run sample_def Submit_def
        Let_def item_of_def has_room_def queued_def)
qed

lemma dispatch_steps_submit:
  assumes "run_ok def run" "task_only def" "only_pending run a" "distinct xs" "a \<in> set xs"
    and "has_room s"
  shows "for_each xs (dispatch_step disp run def) s =
    (Ok (), (tick_of s)\<lparr>G_pool := queued (G_pool s) (item_of run a)\<rparr>)"
  using assms(4-6)
proof (induction xs)
  case (Cons x xs)
  show ?case
  proof (cases "x = a")
    case True
    then have "for_each xs (dispatch_step disp run def) = ret ()"
      using Cons.prems by (intro for_each_ret dispatch_step_skips [OF assms(1-3)]) auto
    with dispatch_step_submits [OF assms(1-3) Cons.prems(3)] True show ?thesis
      by (simp add: bnd_run)
  next
    case False
    with dispatch_step_skips [OF assms(1-3)] Cons show ?thesis by simp
  qed
qed simp

lemma CheckSLA_in_time:
  assumes "available (G_world s)" "in_time (G_world s) run def"
  shows "\<exists>j. CheckSLA disp run def s = (Ok (), s\<lparr>G_ticks := G_ticks s + j\<rparr>)"
proof (cases "W_SLAs def = [] \<or> R_Status run \<noteq> RunStatusActive \<and> R_Status run \<noteq> RunStatusWaiting")
  case True
  then have "CheckSLA disp run def s = (Ok (), s\<lparr>G_ticks := G_ticks s + 0\<rparr>)" by (auto simp: CheckSLA_def)
  then show ?thesis by blast
next
  case False
  have "for_each (W_SLAs def) (\<lambda>sla. if SLA_Name sla \<in> set (breached_names h) then ret ()
      else let deadline = R_CreatedAt run + SLA_Duration sla
        in if deadline < tm then
             bnd (ignore (emit run (SLABreached (SLA_Name sla) (R_Current run)))) (\<lambda>_.
               if SLA_OnBreach sla \<noteq> [] then ignore (jumpTo disp run def (SLA_OnBreach sla)) else ret ())
           else ret ()) = ret ()" if "tm \<in> range (clock (G_world s))" for h tm
    by (rule for_each_ret) (use assms(2) that in \<open>auto simp: in_time_def not_less [symmetric]\<close>)
  then have "CheckSLA disp run def s = (Ok (), s\<lparr>G_ticks := G_ticks s + 2\<rparr>)"
    using False assms(1)
    by (auto simp: CheckSLA_def bnd_run attempt_run log_History_def reading_available now_def sample_def)
  then show ?thesis by blast
qed

lemma dispatch_submits:
  assumes "run_ok def run" "task_only def" "only_pending run a" "\<not> terminal (R_Status run)"
    and "has_room s" "fair_order (G_world s)" "available (G_world s)" "in_time (G_world s) run def"
  shows "\<exists>j. dispatch (Suc n) run def s =
    (Ok (), s\<lparr>G_ticks := G_ticks s + j, G_pool := queued (G_pool s) (item_of run a)\<rparr>)"
proof -
  let ?keys = "map fst (R_Steps run)"
  obtain j where j: "CheckSLA (dispatch n) run def s = (Ok (), s\<lparr>G_ticks := G_ticks s + j\<rparr>)"
    using CheckSLA_in_time [OF assms(7,8)] by blast
  let ?s = "s\<lparr>G_ticks := G_ticks s + j\<rparr>"
  let ?xs = "order (G_world s) (G_ticks s + j) ?keys"
  have "distinct ?xs" "a \<in> set ?xs"
    using assms(1,3,6) by (auto simp: run_ok_def fair_order_def only_pending_def step_of_def
        dest!: map_of_SomeD intro: image_eqI [where x = "(a, _)"])
  from dispatch_steps_submit [OF assms(1-3) this, of "tick_of ?s" "dispatch n"] assms(5)
  have steps: "for_each ?xs (dispatch_step (dispatch n) run def) (tick_of ?s) =
      (Ok (), s\<lparr>G_ticks := G_ticks s + j + 2, G_pool := queued (G_pool s) (item_of run a)\<rparr>)"
    by (simp add: has_room_def)
  have "for_each ys (dispatch_approval (dispatch n) run def) = ret ()" for ys
    by (intro for_each_ret dispatch_approval_skips [OF assms(1,2)])
  with steps j assms(4) have "dispatch (Suc n) run def s =
      (Ok (), s\<lparr>G_ticks := G_ticks s + (j + 3), G_pool := queued (G_pool s) (item_of run a)\<rparr>)"
    by (simp add: dispatch_body_def in_map_order_def bnd_run sample_def add.assoc)
  then show ?thesis by blast
qed

section \<open>One turn of a worker\<close>

lemma emit_pool: "emit run p s = (x, t) \<Longrightarrow> G_pool t = G_pool s"
  unfolding emit_def by (rule append_event_pool)

lemma scheduleStep_task:
  assumes "available (G_world s)" "task_only def" "Step def b = Some sd"
  shows "\<exists>e t. scheduleStep r i def b s = (Ok e, t) \<and> emits r [StepScheduled b KindTask 0] s t \<and>
    G_pool t = G_pool s"
proof -
  have k: "SD_Kind sd = KindTask" using assms(2,3) by (auto simp: task_only_def dest: Step_SomeD)
  then have "step_ready sd" by (simp add: step_ready_def)
  from scheduleStep_emits [OF assms(1,3) this, of r i] k
  obtain e t where t: "scheduleStep r i def b s = (Ok e, t)" "emits r [StepScheduled b KindTask 0] s t"
    by (auto simp: sched_payloads_def)
  moreover from t(1) have "G_pool t = G_pool s"
    using k assms(3) by (auto simp: scheduleStep_def bnd_run now_def sample_def dest: append_event_pool)
  ultimately show ?thesis by blast
qed

text \<open>
  A run between turns: it is live, active and on no failure path, its only pending step is \<open>a\<close>, no
  step has a due time. Nothing is said of the queue.
\<close>

definition awaits :: "Engine \<Rightarrow> WorkflowRun \<Rightarrow> WorkflowDef \<Rightarrow> string \<Rightarrow> bool" where
  "awaits s run def a \<longleftrightarrow> live s (R_ID run) run def \<and> R_Status run = RunStatusActive \<and> \<not> R_Failed run \<and>
     only_pending run a \<and> (\<forall>n st. step_of run n = Some st \<longrightarrow> SS_DueAt st = None) \<and>
     (\<exists>tk. GetTicket (G_store s) (R_TicketID run) = Inr tk)"

lemma live_run_ok: "live s r run def \<Longrightarrow> run_ok def run"
  using live_parts(5) [of s r run def] run_ok_applyAll [OF run_ok_new] by (auto simp: replayed_def)

lemma R_CreatedAt_applyAll:
  "\<forall>p \<in> set (payloads es). \<forall>t. p \<noteq> TicketCreated t \<Longrightarrow> R_CreatedAt (applyAll run def es) = R_CreatedAt run"
proof (induction es arbitrary: run)
  case (Cons e es)
  then have "R_CreatedAt (applyOne def run e) = R_CreatedAt run"
    by (cases "E_Payload e") (auto simp: applyOne_def Let_def)
  with Cons show ?case by simp
qed simp

text \<open>What the three events of a turn make of the run.\<close>

lemma next_task_run:
  assumes "only_pending run a" "\<forall>n st. step_of run n = Some st \<longrightarrow> SS_DueAt st = None"
    and new: "payloads new = [StepStarted a, StepCompletedP a out, StepScheduled b KindTask 0]"
  shows "only_pending (applyAll run def new) b"
    "\<forall>n st. step_of (applyAll run def new) n = Some st \<longrightarrow> SS_DueAt st = None"
    "R_Status (applyAll run def new) = R_Status run" "R_Failed (applyAll run def new) = R_Failed run"
    "R_TicketID (applyAll run def new) = R_TicketID run" "R_CreatedAt (applyAll run def new) = R_CreatedAt run"
proof -
  have new_due: "SS_DueAt (new_step def n s) = None" for n s by (simp add: new_step_def)
  then have due: "SS_DueAt (ensured def n s (step_of run n)) = None" for n s
    using assms(2) by (cases "step_of run n") auto
  show "only_pending (applyAll run def new) b"
    using assms(1) due by (auto simp: only_pending_def step_of_applyAll new due_upd_def)
  show "\<forall>n st. step_of (applyAll run def new) n = Some st \<longrightarrow> SS_DueAt st = None"
    using assms(2) due new_due by (auto simp: step_of_applyAll new due_upd_def)
  show "R_Status (applyAll run def new) = R_Status run" "R_Failed (applyAll run def new) = R_Failed run"
    by (simp_all add: R_Status_applyAll R_Failed_applyAll new)
  show "R_TicketID (applyAll run def new) = R_TicketID run"
    using ticket_ident_applyAll [of run def new] by (simp add: new ticket_ident_def)
  show "R_CreatedAt (applyAll run def new) = R_CreatedAt run"
    by (rule R_CreatedAt_applyAll) (simp add: new)
qed

definition turn_payloads :: "string \<Rightarrow> string \<Rightarrow> goobj option \<Rightarrow> payload list" where
  "turn_payloads a nxt out = [StepStarted a, StepCompletedP a (json_obj out),
     if nxt = [] then RunCompleted a else StepScheduled nxt KindTask 0]"

lemma executeTask_succeeds:
  assumes "live s r run def" "Step def a = Some sd" "GetTicket (G_store s) (R_TicketID run) = Inr tk"
    and "willing (G_handlers s) def"
  shows "\<exists>out w. emits r [StepStarted a, StepCompletedP a (json_obj out)] s w \<and> G_pool w = G_pool s \<and>
    executeTask n \<lparr>TI_RunID = r, TI_TicketID = i, TI_Step = a\<rparr> s = advance (dispatch n) run def a True w"
proof -
  have rdy: "task_ready s r a run def sd tk" using assms(1-3) by (simp add: task_ready_def)
  have "sd \<in> set (W_Steps def)" using Step_SomeD [OF assms(2)] by blast
  with assms(4) obtain h where h: "G_handlers s (SD_Task sd) = Some h"
      "\<forall>k run step fs. \<exists>out. h k run step fs = Inr out \<and> marshals_obj out"
    unfolding willing_def by blast
  obtain u where u: "emits r [] s u" "live u r run def" "G_pool u = G_pool s"
    "executeTask n \<lparr>TI_RunID = r, TI_TicketID = i, TI_Step = a\<rparr> s =
      bnd (emit run (StepStarted a)) (\<lambda>_. bnd (call_handler h run a (T_Fields tk)) (\<lambda>res.
        case res of
          Inl herr \<Rightarrow> bnd (attempt (GetRun (R_ID run))) (\<lambda>fr.
            handleTaskFailure n (case fr of Inr r \<Rightarrow> r | Inl _ \<Rightarrow> run) def a sd herr)
        | Inr out \<Rightarrow> bnd (mustJSON (marshals_obj out) (json_obj out)) (\<lambda>jout.
            bnd (emit run (StepCompletedP a jout)) (\<lambda>_.
            advance (dispatch n) run def a True)))) u"
    using executeTask_prefix [OF rdy, of n i] h(1) by auto
  obtain e v ev where v: "emit run (StepStarted a) u = (Ok e, v)" "emits r [StepStarted a] u v"
      "live v r (applyOne def run ev) def"
    using emit_started [OF u(2)] by blast
  obtain out where out: "h (G_ticks v) run a (T_Fields tk) = Inr out" "marshals_obj out" using h(2) by blast
  obtain e' w where w: "emit run (StepCompletedP a (json_obj out)) (tick_of v) = (Ok e', w)"
      "emits r [StepCompletedP a (json_obj out)] (tick_of v) w"
    using live_emit [OF live_tick [OF v(3)] live_ID [OF u(2)], of "StepCompletedP a (json_obj out)"] by blast
  have "emits r [StepStarted a, StepCompletedP a (json_obj out)] s w"
    using emits_trans [OF emits_trans [OF u(1) v(2)] emits_trans [OF emits_tick w(2)]] by simp
  moreover have "G_pool w = G_pool s" using emit_pool [OF v(1)] emit_pool [OF w(1)] u(3) by simp
  moreover have "executeTask n \<lparr>TI_RunID = r, TI_TicketID = i, TI_Step = a\<rparr> s =
      advance (dispatch n) run def a True w"
    by (simp add: u(4) bnd_run v(1) call_handler_run out mustJSON_def w(1))
  ultimately show ?thesis by blast
qed

lemma advance_completes:
  assumes "available (G_world w)" "R_ID run = r" "\<not> R_Failed run" "Step def a = Some sd" "SD_Next sd = []"
  shows "\<exists>t. advance disp run def a True w = (Ok (), t) \<and> emits r [RunCompleted a] w t \<and> G_pool t = G_pool w"
  using emit_emits [OF assms(1,2), of "RunCompleted a"] assms(3-5)
  by (auto simp: advance_def Let_def bnd_run dest: emit_pool)

text \<open>Reading a run and dispatching it queues its pending step, and appends nothing.\<close>

lemma read_and_dispatch:
  assumes l: "live x r run def" and def: "task_only def" "only_pending run b" "\<not> terminal (R_Status run)"
    and pool: "has_room x" "fair_order (G_world x)" "in_time (G_world x) run def"
  shows "\<exists>y t. GetRun r x = (Ok run, y) \<and> dispatch (Suc n) run def y = (Ok (), t) \<and>
    emits r [] x t \<and> live t r run def \<and> G_pool t = queued (G_pool x) (item_of run b)"
proof -
  obtain y where y: "GetRun r x = (Ok run, y)" "emits r [] x y" using live_GetRun [OF l] by blast
  have same: "G_pool y = G_pool x" "G_world y = G_world x"
    using keepsD [OF reads_GetRun y(1)] by (simp_all add: reads_def)
  have ly: "live y r run def" using live_emits [OF l y(2)] by (auto simp: payloads_def)
  obtain j where d: "dispatch (Suc n) run def y =
      (Ok (), y\<lparr>G_ticks := G_ticks y + j, G_pool := queued (G_pool x) (item_of run b)\<rparr>)"
    using dispatch_submits [OF live_run_ok [OF ly] def, of y n] pool same live_available [OF ly]
    by (auto simp: has_room_def)
  let ?t = "y\<lparr>G_ticks := G_ticks y + j, G_pool := queued (G_pool x) (item_of run b)\<rparr>"
  have "adds (exactly_on r (\<lambda>_. True)) y ?t"
    using same(1) live_ID [OF l] by (intro addsI [of _ "[]" _ _ "[item_of run b]"])
      (simp_all add: item_of_def exactly_on_def queued_def)
  then have yt: "emits r [] y ?t" by (simp add: emits_def History_def)
  have "live ?t r run def" using live_emits [OF ly yt] by (auto simp: payloads_def)
  moreover have "emits r [] x ?t" using emits_trans [OF y(2) yt] by simp
  ultimately show ?thesis by (intro exI [of _ y] exI [of _ ?t] conjI y(1) d) simp_all
qed

lemma advance_queues:
  assumes l: "live w r cur def" "R_ID run = r" and def: "task_only def" "Step def a = Some sd"
    and b: "SD_Next sd = b" "b \<noteq> []" "Step def b \<noteq> None"
    and pool: "has_room w" "fair_order (G_world w)"
    and cur: "\<And>new. payloads new = [StepScheduled b KindTask 0] \<Longrightarrow>
      only_pending (applyAll cur def new) b \<and> \<not> terminal (R_Status (applyAll cur def new)) \<and>
      in_time (G_world w) (applyAll cur def new) def"
  shows "\<exists>t run'. advance (dispatch (Suc n)) run def a True w = (Ok (), t) \<and>
    emits r [StepScheduled b KindTask 0] w t \<and> live t r run' def \<and>
    G_pool t = queued (G_pool w) (item_of run' b)"
proof -
  obtain sd' where sd': "Step def b = Some sd'" using b(3) by blast
  obtain e x where x: "scheduleStep r (R_TicketID run) def b w = (Ok e, x)"
      "emits r [StepScheduled b KindTask 0] w x" "G_pool x = G_pool w"
    using scheduleStep_task [OF live_available [OF l(1)] def(1) sd'] by blast
  obtain new where new: "payloads new = [StepScheduled b KindTask 0]" "live x r (applyAll cur def new) def"
    using live_emits [OF l(1) x(2)] by auto
  let ?nr = "applyAll cur def new"
  have idle: "has_room x" "fair_order (G_world x)"
    using pool x(3) emits_world [OF x(2)] by (simp_all add: has_room_def)
  obtain y t where t: "GetRun r x = (Ok ?nr, y)" "dispatch (Suc n) ?nr def y = (Ok (), t)" "emits r [] x t"
      "live t r ?nr def" "G_pool t = queued (G_pool x) (item_of ?nr b)"
    using read_and_dispatch [OF new(2) def(1) _ _ idle, of b n] cur [OF new(1)] emits_world [OF x(2)] by auto
  have "emits r [StepScheduled b KindTask 0] w t" using emits_trans [OF x(2) t(3)] by simp
  moreover have "advance (dispatch (Suc n)) run def a True w = (Ok (), t)"
    using def(2) b(1,2) l(2) x(1) t(1,2) by (simp add: advance_def Let_def bnd_run)
  ultimately show ?thesis using t(4,5) x(3) by (intro exI [of _ t] exI [of _ ?nr]) simp
qed

lemma take_task_runs:
  assumes "P_tasks (G_pool s) = item # rest" "\<not> P_closed (G_pool s)"
  shows "take_task s = (Ok (Run item), (tick_of s)\<lparr>G_pool := (G_pool s)\<lparr>P_tasks := rest\<rparr>\<rparr>)"
  using assms by (simp add: take_task_def bnd_run sample_def loop_turn_def)

lemma live_cong:
  assumes "live s r run def" "G_log t = G_log s" "G_store t = G_store s"
    "G_workflows t = G_workflows s" "G_world t = G_world s"
  shows "live t r run def"
proof -
  have "sound t" using assms sound_cong live_sound live_available by metis
  moreover have d: "def_of t i = def_of s i" for i
    using assms by (simp add: def_of_def workflow_def cong: sum.case_cong option.case_cong)
  ultimately show ?thesis
    unfolding live_def assms(2,3) d using live_parts [OF assms(1)] by blast
qed

text \<open>The turn's effect: what it appends to the run; the world and the handlers stay.\<close>

definition extends_by :: "run_id \<Rightarrow> payload list \<Rightarrow> Engine \<Rightarrow> Engine \<Rightarrow> bool" where
  "extends_by r ps s t \<longleftrightarrow> (\<exists>new. History (G_log t) r = History (G_log s) r @ new \<and> payloads new = ps) \<and>
     G_world t = G_world s \<and> G_handlers t = G_handlers s"

lemma extends_by_trans: "extends_by r ps s t \<Longrightarrow> extends_by r qs t u \<Longrightarrow> extends_by r (ps @ qs) s u"
  unfolding extends_by_def by (metis append_assoc payloads_simps(3))

lemma emits_extends_by:
  "emits r ps s' t \<Longrightarrow> G_log s' = G_log s \<Longrightarrow> G_world s' = G_world s \<Longrightarrow> G_handlers s' = G_handlers s \<Longrightarrow>
    extends_by r ps s t"
  using emits_world [of r ps s' t] by (auto simp: extends_by_def emits_def)

definition with_queue :: "taskItem list \<Rightarrow> Engine \<Rightarrow> Engine" where
  "with_queue ts s = s\<lparr>G_pool := (G_pool s)\<lparr>P_tasks := ts\<rparr>\<rparr>"

text \<open>Apart from the task taken from the queue, a turn touches only the run of that task.\<close>

lemma worker_turn_task:
  assumes a: "awaits s run def a" and q: "P_tasks (G_pool s) = item_of run a # rest" "\<not> P_closed (G_pool s)"
    "length rest < pool_capacity"
    and def: "task_only def" "willing (G_handlers s) def"
    and o: "fair_order (G_world s)" "in_time (G_world s) run def"
    and sd: "Step def a = Some sd" "SD_Next sd = [] \<or> Step def (SD_Next sd) \<noteq> None"
  shows "\<exists>out t. worker_turn (Suc n) s = (Ok (), t) \<and> extends_by (R_ID run) (turn_payloads a (SD_Next sd) out) s t \<and>
    adds (exactly_on (R_ID run) (\<lambda>_. True)) (with_queue rest s) t \<and>
    (if SD_Next sd = [] then G_pool t = (G_pool s)\<lparr>P_tasks := rest\<rparr>
     else \<exists>run'. R_ID run' = R_ID run \<and> in_time (G_world s) run' def \<and> awaits t run' def (SD_Next sd) \<and>
       G_pool t = (G_pool s)\<lparr>P_tasks := rest @ [item_of run' (SD_Next sd)]\<rparr>)"
proof -
  let ?r = "R_ID run"
  let ?took = "with_queue rest s"
  let ?s = "(tick_of s)\<lparr>G_pool := (G_pool s)\<lparr>P_tasks := rest\<rparr>\<rparr>"
  from a obtain tk where l: "live s ?r run def" and tk: "GetTicket (G_store s) (R_TicketID run) = Inr tk"
    by (auto simp: awaits_def)
  have ls: "live ?s ?r run def" by (rule live_cong [OF l]) simp_all
  obtain out w where w: "emits ?r [StepStarted a, StepCompletedP a (json_obj out)] ?s w" "G_pool w = G_pool ?s"
      "executeTask (Suc n) (item_of run a) ?s = advance (dispatch (Suc n)) run def a True w"
    using executeTask_succeeds [OF ls sd(1), of tk "Suc n" "R_TicketID run"] tk def(2)
    by (auto simp: item_of_def)
  have turn: "worker_turn (Suc n) s = ignore (advance (dispatch (Suc n)) run def a True) w"
    using take_task_runs [OF q(1,2)] w(3) by (simp add: worker_turn_def bnd_run ignore_def attempt_run)
  obtain new where new: "payloads new = [StepStarted a, StepCompletedP a (json_obj out)]"
      "live w ?r (applyAll run def new) def"
    using live_emits [OF ls w(1)] by auto
  have ww: "G_world w = G_world s" "G_store w = G_store s" using emits_world [OF w(1)] by simp_all
  have turned: "extends_by ?r ([StepStarted a, StepCompletedP a (json_obj out)] @ ps) s t \<and>
      adds (exactly_on ?r (\<lambda>_. True)) ?took t" if "emits ?r ps w t" for ps t
  proof
    have e: "emits ?r ([StepStarted a, StepCompletedP a (json_obj out)] @ ps) ?s t"
      by (rule emits_trans [OF w(1) that])
    show "extends_by ?r ([StepStarted a, StepCompletedP a (json_obj out)] @ ps) s t"
      by (rule emits_extends_by [OF e]) simp_all
    show "adds (exactly_on ?r (\<lambda>_. True)) ?took t" using e by (simp add: emits_def adds_def with_queue_def)
  qed
  show ?thesis
  proof (cases "SD_Next sd = []")
    case True
    have ok: "\<not> R_Failed run" using a by (simp add: awaits_def)
    obtain t where t: "advance (dispatch (Suc n)) run def a True w = (Ok (), t)" "emits ?r [RunCompleted a] w t"
        "G_pool t = G_pool w"
      using advance_completes [OF live_available [OF new(2)] HOL.refl ok sd(1) True, of "dispatch (Suc n)"] by blast
    then show ?thesis using True turned [OF t(2)] w(2)
      by (auto simp: turn ignore_def bnd_run attempt_run turn_payloads_def)
  next
    case False
    have pend: "only_pending run a" "\<forall>n st. step_of run n = Some st \<longrightarrow> SS_DueAt st = None"
        "R_Status run = RunStatusActive" "\<not> R_Failed run"
      using a unfolding awaits_def by blast+
    have fin: "only_pending (applyAll run def (new @ es)) (SD_Next sd) \<and>
        (\<forall>n st. step_of (applyAll run def (new @ es)) n = Some st \<longrightarrow> SS_DueAt st = None) \<and>
        R_Status (applyAll run def (new @ es)) = RunStatusActive \<and> \<not> R_Failed (applyAll run def (new @ es)) \<and>
        R_TicketID (applyAll run def (new @ es)) = R_TicketID run \<and>
        R_CreatedAt (applyAll run def (new @ es)) = R_CreatedAt run"
      if "payloads es = [StepScheduled (SD_Next sd) KindTask 0]" for es
    proof -
      have "payloads (new @ es) = [StepStarted a, StepCompletedP a (json_obj out), StepScheduled (SD_Next sd) KindTask 0]"
        using that new(1) by simp
      from next_task_run [OF pend(1,2) this] pend(3,4) show ?thesis by (simp only: simp_thms)
    qed
    have pool: "has_room w" "fair_order (G_world w)"
      using w(2) ww(1) q o(1) by (simp_all add: has_room_def)
    have ahead: "Step def (SD_Next sd) \<noteq> None" using False sd(2) by blast
    have cur: "only_pending (applyAll (applyAll run def new) def es) (SD_Next sd) \<and>
        \<not> terminal (R_Status (applyAll (applyAll run def new) def es)) \<and>
        in_time (G_world w) (applyAll (applyAll run def new) def es) def"
      if "payloads es = [StepScheduled (SD_Next sd) KindTask 0]" for es
      using fin [OF that] o(2) ww(1) by (simp add: applyAll_append terminal_def in_time_def)
    obtain t run' where t: "advance (dispatch (Suc n)) run def a True w = (Ok (), t)"
        "emits ?r [StepScheduled (SD_Next sd) KindTask 0] w t" "live t ?r run' def"
        "G_pool t = queued (G_pool w) (item_of run' (SD_Next sd))"
      using advance_queues [OF new(2) HOL.refl def(1) sd(1) HOL.refl False ahead pool cur] by blast
    obtain es where es: "payloads es = [StepScheduled (SD_Next sd) KindTask 0]"
        "live t ?r (applyAll (applyAll run def new) def es) def"
      using live_emits [OF new(2) t(2)] by auto
    have run': "run' = applyAll run def (new @ es)"
      using live_parts(5) [OF t(3)] live_parts(5) [OF es(2)] by (simp add: applyAll_append)
    have rid: "R_ID run' = ?r" by (rule live_ID [OF t(3)])
    have "awaits t run' def (SD_Next sd)"
      using fin [OF es(1)] t(3) tk emits_world [OF t(2)] ww(2) unfolding awaits_def rid unfolding run' by simp
    moreover have "G_pool t = (G_pool s)\<lparr>P_tasks := rest @ [item_of run' (SD_Next sd)]\<rparr>"
      using t(4) w(2) by (simp add: queued_def)
    moreover have "in_time (G_world s) run' def"
      using fin [OF es(1)] o(2) unfolding run' by (simp add: in_time_def)
    ultimately show ?thesis using False t(1) turned [OF t(2)] rid
      by (auto simp: turn ignore_def bnd_run attempt_run turn_payloads_def)
  qed
qed

section \<open>Several runs in the queue\<close>

text \<open>A run with its definition and the steps it has still to go through.\<close>

type_synonym flight = "WorkflowRun \<times> WorkflowDef \<times> string list"

fun on_course :: "Engine \<Rightarrow> flight \<Rightarrow> bool" where
  "on_course s (run, def, path) \<longleftrightarrow> path \<noteq> [] \<and> awaits s run def (hd path) \<and> task_only def \<and> flows def path"

definition flight_id :: "flight \<Rightarrow> run_id" where
  "flight_id f = R_ID (fst f)"

definition flight_task :: "flight \<Rightarrow> taskItem" where
  "flight_task f = item_of (fst f) (hd (snd (snd f)))"

definition work :: "flight list \<Rightarrow> nat" where
  "work fl = sum_list (map (\<lambda>f. length (snd (snd f))) fl)"

text \<open>Its tasks have handlers that succeed, and its SLAs do not run out.\<close>

definition servable :: "World \<Rightarrow> (string \<rightharpoonup> TaskHandler) \<Rightarrow> flight \<Rightarrow> bool" where
  "servable w hs f \<longleftrightarrow> willing hs (fst (snd f)) \<and> in_time w (fst f) (fst (snd f))"

text \<open>The queue holds the tasks of these runs, in this order, one each.\<close>

definition in_flight :: "Engine \<Rightarrow> flight list \<Rightarrow> bool" where
  "in_flight s fl \<longleftrightarrow> distinct (map flight_id fl) \<and> (\<forall>f \<in> set fl. on_course s f \<and> servable (G_world s) (G_handlers s) f) \<and>
     P_tasks (G_pool s) = map flight_task fl \<and> \<not> P_closed (G_pool s) \<and> length fl \<le> pool_capacity \<and>
     fair_order (G_world s)"

lemma live_with_queue: "live s r run def \<Longrightarrow> live (with_queue ts s) r run def"
  by (erule live_cong) (simp_all add: with_queue_def)

lemma awaits_other:
  assumes a: "awaits s run def a" and ad: "adds (exactly_on r X) (with_queue ts s) t"
    and r: "History (G_log s) r \<noteq> []" "r \<noteq> R_ID run"
  shows "awaits t run def a"
proof -
  have ad': "adds (on_run r X) (with_queue ts s) t"
    using ad by (rule adds_mono) (simp add: exactly_on_def on_run_def)
  have "live (with_queue ts s) (R_ID run) run def" using a live_with_queue by (simp add: awaits_def)
  from live_other [OF this ad'] r have "live t (R_ID run) run def" by (simp add: with_queue_def)
  moreover have "G_store t = G_store s" using ad by (auto simp: with_queue_def elim: addsE)
  ultimately show ?thesis using a by (simp add: awaits_def)
qed

lemma on_course_other:
  "on_course s f \<Longrightarrow> adds (exactly_on r X) (with_queue ts s) t \<Longrightarrow> History (G_log s) r \<noteq> [] \<Longrightarrow>
    r \<noteq> flight_id f \<Longrightarrow> on_course t f"
  by (cases f) (auto simp: flight_id_def intro: awaits_other)

lemma history_other:
  assumes "adds (exactly_on r X) (with_queue ts s) t" "log_ok (G_log s)" "r' \<noteq> r"
  shows "History (G_log t) r' = History (G_log s) r'"
proof -
  have "adds (on_run r X) (with_queue ts s) t"
    using assms(1) by (rule adds_mono) (simp add: exactly_on_def on_run_def)
  from adds_other_run [OF this _ assms(3)] assms(2) show ?thesis by (simp add: with_queue_def)
qed

lemma flows_step:
  assumes "flows def (a # path)"
  shows "\<exists>sd. Step def a = Some sd \<and> SD_Next sd = (if path = [] then [] else hd path) \<and>
    (path \<noteq> [] \<longrightarrow> SD_Next sd \<noteq> [] \<and> Step def (SD_Next sd) \<noteq> None \<and> flows def path)"
proof (cases path)
  case (Cons b p)
  moreover from this have "flows def (b # p)" using assms by simp
  then have "Step def b \<noteq> None" by (cases p) (auto split: option.splits)
  ultimately show ?thesis using assms by (auto split: option.splits)
qed (use assms in \<open>auto split: option.splits\<close>)

text \<open>A turn serves the first run of the queue and sends it to the end, if it has more to do.\<close>

lemma in_flight_turn:
  assumes f: "in_flight s ((run, def, a # path) # fl)"
  shows "\<exists>out t fl'. worker_turn (Suc n) s = (Ok (), t) \<and>
    extends_by (R_ID run) (turn_payloads a (if path = [] then [] else hd path) out) s t \<and>
    (\<forall>r. r \<noteq> R_ID run \<longrightarrow> History (G_log t) r = History (G_log s) r) \<and>
    in_flight t (fl @ fl') \<and>
    (if path = [] then fl' = [] else \<exists>run'. R_ID run' = R_ID run \<and> fl' = [(run', def, path)])"
proof -
  let ?next = "if path = [] then [] else hd path" and ?r = "R_ID run"
  from f have aw: "awaits s run def a" and def: "task_only def" "flows def (a # path)" "willing (G_handlers s) def"
    and q: "P_tasks (G_pool s) = item_of run a # map flight_task fl" "\<not> P_closed (G_pool s)" "length fl < pool_capacity"
    and o: "fair_order (G_world s)" "in_time (G_world s) run def"
    and d: "?r \<notin> flight_id ` set fl" "distinct (map flight_id fl)"
    and rest: "\<forall>f \<in> set fl. on_course s f \<and> servable (G_world s) (G_handlers s) f"
    by (auto simp: in_flight_def flight_task_def flight_id_def servable_def)
  obtain sd where sd: "Step def a = Some sd" "SD_Next sd = ?next"
      "path \<noteq> [] \<longrightarrow> SD_Next sd \<noteq> [] \<and> Step def (SD_Next sd) \<noteq> None \<and> flows def path"
    using flows_step [OF def(2)] by blast
  have len: "length (map flight_task fl) < pool_capacity" using q(3) by simp
  have go: "SD_Next sd = [] \<or> Step def (SD_Next sd) \<noteq> None" using sd(2,3) by auto
  obtain out t where t: "worker_turn (Suc n) s = (Ok (), t)" "extends_by ?r (turn_payloads a ?next out) s t"
      "adds (exactly_on ?r (\<lambda>_. True)) (with_queue (map flight_task fl) s) t"
      "if SD_Next sd = [] then G_pool t = (G_pool s)\<lparr>P_tasks := map flight_task fl\<rparr>
       else \<exists>run'. R_ID run' = ?r \<and> in_time (G_world s) run' def \<and> awaits t run' def (SD_Next sd) \<and>
         G_pool t = (G_pool s)\<lparr>P_tasks := map flight_task fl @ [item_of run' (SD_Next sd)]\<rparr>"
    using worker_turn_task [OF aw q(1,2) len def(1,3) o sd(1) go, of n] unfolding sd(2) by blast
  have l: "live s ?r run def" using aw by (simp add: awaits_def)
  have ne: "History (G_log s) ?r \<noteq> []" by (rule live_parts(3) [OF l])
  have same: "G_world t = G_world s" "G_handlers t = G_handlers s" using t(2) by (simp_all add: extends_by_def)
  have others: "\<forall>f \<in> set fl. on_course t f \<and> servable (G_world t) (G_handlers t) f"
  proof
    fix f assume f: "f \<in> set fl"
    then have "on_course s f" "servable (G_world t) (G_handlers t) f" "?r \<noteq> flight_id f"
      using rest d(1) same by auto
    with on_course_other [OF _ t(3) ne] show "on_course t f \<and> servable (G_world t) (G_handlers t) f" by blast
  qed
  have hist: "\<forall>r. r \<noteq> ?r \<longrightarrow> History (G_log t) r = History (G_log s) r"
    using history_other [OF t(3) sound_log [OF live_sound [OF l]]] by blast
  show ?thesis
  proof (cases "path = []")
    case True
    with t(4) sd(2) have "G_pool t = (G_pool s)\<lparr>P_tasks := map flight_task fl\<rparr>" by simp
    then have "P_tasks (G_pool t) = map flight_task fl" "\<not> P_closed (G_pool t)" using q(2) by simp_all
    then have "in_flight t (fl @ [])"
      unfolding in_flight_def append_Nil2 by (intro conjI others d(2)) (use q(3) o(1) same(1) in simp_all)
    with t(1,2) hist show ?thesis unfolding True
      by (intro exI [of _ out] exI [of _ t] exI [of _ "[]"] conjI) simp_all
  next
    case False
    with t(4) sd(2,3) obtain run' where run': "R_ID run' = ?r" "awaits t run' def (hd path)" "in_time (G_world s) run' def"
        "G_pool t = (G_pool s)\<lparr>P_tasks := map flight_task fl @ [item_of run' (hd path)]\<rparr>"
      by auto
    have "on_course t (run', def, path) \<and> servable (G_world t) (G_handlers t) (run', def, path)"
      using run'(2,3) False sd(3) def(1,3) same by (simp add: servable_def)
    with others have all: "\<forall>f \<in> set (fl @ [(run', def, path)]). on_course t f \<and> servable (G_world t) (G_handlers t) f"
      by auto
    have "distinct (map flight_id (fl @ [(run', def, path)]))"
      using d run'(1) by (auto simp: flight_id_def)
    moreover have "P_tasks (G_pool t) = map flight_task (fl @ [(run', def, path)])" "\<not> P_closed (G_pool t)"
      using run'(4) q(2) by (simp_all add: flight_task_def)
    ultimately have "in_flight t (fl @ [(run', def, path)])"
      unfolding in_flight_def by (intro conjI all) (use q(3) o(1) same(1) in simp_all)
    with t(1,2) hist False run'(1) show ?thesis
      by (intro exI [of _ out] exI [of _ t] exI [of _ "[(run', def, path)]"] conjI) simp_all
  qed
qed

section \<open>All turns\<close>

fun turns :: "nat \<Rightarrow> nat \<Rightarrow> Engine \<Rightarrow> Engine" where
  "turns n 0 s = s"
| "turns n (Suc k) s = turns n k (snd (worker_turn n s))"

text \<open>The events of the run of a path, given the outputs of its tasks.\<close>

fun script :: "string list \<Rightarrow> goobj option list \<Rightarrow> payload list" where
  "script [a] [out] = turn_payloads a [] out"
| "script (a # b # path) (out # outs) = turn_payloads a b out @ script (b # path) outs"
| "script _ _ = []"

lemma script_completes:
  "length outs = length (a # path) \<Longrightarrow> fold status_upd (script (a # path) outs) st = RunStatusCompleted"
proof (induction path arbitrary: a outs st)
  case Nil
  then obtain out where "outs = [out]" by (auto simp: length_Suc_conv)
  then show ?case by (simp add: turn_payloads_def)
next
  case (Cons b path)
  then obtain out outs' where "outs = out # outs'" "length outs' = length (b # path)"
    by (auto simp: length_Suc_conv)
  with Cons.IH show ?case by simp
qed

text \<open>What has become of a run: it went through its path, and is completed.\<close>

definition completes :: "Engine \<Rightarrow> Engine \<Rightarrow> flight \<Rightarrow> bool" where
  "completes s t f \<longleftrightarrow> (\<exists>outs. length outs = length (snd (snd f)) \<and>
     extends_by (flight_id f) (script (snd (snd f)) outs) s t) \<and> run_status t (flight_id f) = RunStatusCompleted"

lemma completesI:
  assumes "path \<noteq> []" "length outs = length path" "extends_by (flight_id (run, def, path)) (script path outs) s t"
  shows "completes s t (run, def, path)"
proof -
  obtain a p where p: "path = a # p" using assms(1) by (cases path) auto
  have "run_status t (flight_id (run, def, path)) = RunStatusCompleted"
    using assms(3) script_completes [of outs a p] assms(2) by (auto simp: extends_by_def run_status_def p)
  with assms show ?thesis by (auto simp: completes_def)
qed

lemma extends_by_same:
  "History (G_log t) r = History (G_log s) r \<Longrightarrow> G_world t = G_world s \<Longrightarrow> G_handlers t = G_handlers s \<Longrightarrow>
    extends_by r [] s t"
  by (simp add: extends_by_def payloads_def)

lemma script_Cons:
  "path \<noteq> [] \<Longrightarrow> script (a # path) (out # outs) = turn_payloads a (hd path) out @ script path outs"
  by (cases path) simp_all

lemma work_Cons: "work ((run, def, path) # fl) = length path + work fl"
  by (simp add: work_def)

lemma work_append: "work (fl @ fl') = work fl + work fl'"
  by (simp add: work_def)

text \<open>
  When every run of the queue has had all its turns, each has gone through its path, and no other run
  has been touched.
\<close>

lemma in_flight_completes:
  assumes "in_flight s fl"
  shows "in_flight (turns (Suc n) (work fl) s) [] \<and> (\<forall>f \<in> set fl. completes s (turns (Suc n) (work fl) s) f) \<and>
    (\<forall>r. r \<notin> flight_id ` set fl \<longrightarrow> extends_by r [] s (turns (Suc n) (work fl) s))"
  using assms
proof (induction "work fl" arbitrary: s fl)
  case 0
  have "fl = []"
  proof (cases fl)
    case (Cons f fs)
    with "0.prems" have "on_course s f" by (simp add: in_flight_def)
    with "0.hyps" Cons show ?thesis by (cases f) (simp add: work_Cons)
  qed
  with "0.prems" show ?case by (simp add: work_def extends_by_same)
next
  case (Suc k)
  then obtain run def path' fs where fl: "fl = (run, def, path') # fs" by (cases fl) (auto simp: work_def)
  have "path' \<noteq> []" using Suc.prems by (simp add: in_flight_def fl)
  then obtain a path where p: "path' = a # path" by (cases path') auto
  have k: "k = length path + work fs" using Suc.hyps(2) by (simp add: fl p work_Cons)
  obtain out t fl' where t: "worker_turn (Suc n) s = (Ok (), t)"
      "extends_by (R_ID run) (turn_payloads a (if path = [] then [] else hd path) out) s t"
      "\<forall>r. r \<noteq> R_ID run \<longrightarrow> History (G_log t) r = History (G_log s) r" "in_flight t (fs @ fl')"
      "if path = [] then fl' = [] else \<exists>run'. R_ID run' = R_ID run \<and> fl' = [(run', def, path)]"
    using in_flight_turn [of s run def a path fs n] Suc.prems unfolding fl p by blast
  have "k = work (fs @ fl')" using t(5) k by (auto simp: work_append work_Cons work_def split: if_splits)
  from Suc.hyps(1) [OF this t(4)] have ih: "in_flight (turns (Suc n) k t) []"
      "\<forall>f \<in> set (fs @ fl'). completes t (turns (Suc n) k t) f"
      "\<And>r. r \<notin> flight_id ` set (fs @ fl') \<Longrightarrow> extends_by r [] t (turns (Suc n) k t)"
    using \<open>k = work (fs @ fl')\<close> by blast+
  have u: "turns (Suc n) (work fl) s = turns (Suc n) k t" using Suc.hyps(2) t(1) by (metis snd_conv turns.simps(2))
  have d: "R_ID run \<notin> flight_id ` set fs" using Suc.prems by (simp add: in_flight_def fl flight_id_def)
  have same: "G_world t = G_world s" "G_handlers t = G_handlers s" using t(2) by (simp_all add: extends_by_def)
  have ids: "flight_id ` set (fs @ fl') \<subseteq> flight_id ` set fl"
    using t(5) by (auto simp: fl flight_id_def split: if_splits)
  have others: "completes s (turns (Suc n) k t) f" if "f \<in> set fs" for f
  proof -
    have "flight_id f \<noteq> R_ID run" using d imageI [OF that, of flight_id] by metis
    then have "extends_by (flight_id f) [] s t" using t(3) same by (intro extends_by_same) auto
    with ih(2) that show ?thesis unfolding completes_def
      using extends_by_trans [of "flight_id f" "[]" s t] by fastforce
  qed
  have self: "completes s (turns (Suc n) k t) (run, def, path')"
  proof (cases "path = []")
    case True
    then have "fl' = []" using t(5) by simp
    then have "extends_by (R_ID run) [] t (turns (Suc n) k t)" using ih(3) d by simp
    from extends_by_trans [OF t(2) this] True
    have "extends_by (R_ID run) (script path' [out]) s (turns (Suc n) k t)" by (simp add: p)
    then show ?thesis using True by (intro completesI [of _ "[out]"]) (simp_all add: p flight_id_def)
  next
    case False
    then obtain run' where run': "R_ID run' = R_ID run" "fl' = [(run', def, path)]" using t(5) by auto
    then obtain outs where outs: "length outs = length path" "extends_by (R_ID run) (script path outs) t (turns (Suc n) k t)"
      using ih(2) by (auto simp: completes_def flight_id_def)
    have "extends_by (R_ID run) (script path' (out # outs)) s (turns (Suc n) k t)"
      using extends_by_trans [OF t(2) outs(2)] False by (simp add: p script_Cons)
    then show ?thesis using outs(1) by (intro completesI [of _ "out # outs"]) (simp_all add: p flight_id_def)
  qed
  have untouched: "extends_by r [] s (turns (Suc n) k t)" if "r \<notin> flight_id ` set fl" for r
  proof -
    have "r \<noteq> R_ID run" using that by (auto simp: fl flight_id_def)
    then have "extends_by r [] s t" using t(3) same by (intro extends_by_same) auto
    with extends_by_trans [OF this ih(3)] that ids show ?thesis by auto
  qed
  show ?case unfolding u using ih(1) others self untouched by (auto simp: fl)
qed

section \<open>From the creation of the ticket\<close>

text \<open>\<open>fresh_ids\<close>: an identifier drawn for a new run or ticket is not one already used.\<close>

definition fresh_ids :: "Engine \<Rightarrow> bool" where
  "fresh_ids s \<longleftrightarrow> (\<forall>t i t'. G_world t = G_world s \<longrightarrow>
     (newID ''run'' t = (Ok i, t') \<longrightarrow> History (G_log s) i = []) \<and>
     (newID ''tkt'' t = (Ok i, t') \<longrightarrow> \<not> has_ticket i s))"

definition start_payloads :: "Ticket \<Rightarrow> run_id \<Rightarrow> string \<Rightarrow> payload list" where
  "start_payloads tk r a = [TicketCreated (json_ticket tk), RunStarted r a, StepScheduled a KindTask 0,
     TicketAssigned (T_Queue tk) (T_Assignee tk) (T_Priority tk) 0]"

lemma wf_of_stored:
  "sound s \<Longrightarrow> wf_of s n v = Some def \<Longrightarrow> GetWorkflow (G_store s) (W_Name def) (W_Version def) = Inr def"
  by (auto simp: wf_of_def workflow_def split: option.splits sum.splits dest: sound_cache sound_names)

lemma keys_distinct_SaveTicket: "keys_distinct (SaveTicket tk st) = keys_distinct st"
  unfolding keys_distinct_def registered_def by (simp cong del: imp_cong)

text \<open>What the first events make of the run.\<close>

lemma started_run:
  assumes "payloads new = start_payloads tk r a"
  shows "only_pending (applyAll (new_run r i) def new) a"
    "\<forall>n st. step_of (applyAll (new_run r i) def new) n = Some st \<longrightarrow> SS_DueAt st = None"
    "R_Status (applyAll (new_run r i) def new) = RunStatusActive"
    "\<not> R_Failed (applyAll (new_run r i) def new)"
    "ticket_ident (applyAll (new_run r i) def new) = (T_ID tk, T_Workflow tk, T_WorkflowVer tk)"
    "R_CreatedAt (applyAll (new_run r i) def new) = E_At (hd new)"
proof -
  obtain e es where new: "new = e # es" "E_Payload e = TicketCreated (json_ticket tk)"
      "payloads es = tl (start_payloads tk r a)"
    using assms by (cases new) (auto simp: start_payloads_def)
  have "R_CreatedAt (applyAll (new_run r i) def (e # es)) = R_CreatedAt (applyOne def (new_run r i) e)"
    by (simp add: R_CreatedAt_applyAll new(3) start_payloads_def)
  also have "\<dots> = E_At e" by (simp add: applyOne_def new(2) Let_def new_run_def)
  finally show "R_CreatedAt (applyAll (new_run r i) def new) = E_At (hd new)" by (simp add: new(1))
  have due: "SS_DueAt (new_step def n s) = None" for n s by (simp add: new_step_def)
  show "only_pending (applyAll (new_run r i) def new) a"
    using due by (auto simp: only_pending_def step_of_applyAll assms start_payloads_def due_upd_def)
  show "\<forall>n st. step_of (applyAll (new_run r i) def new) n = Some st \<longrightarrow> SS_DueAt st = None"
    using due by (auto simp: step_of_applyAll assms start_payloads_def due_upd_def)
qed (simp_all add: R_Status_applyAll R_Failed_applyAll ticket_ident_applyAll assms start_payloads_def json_ticket_def)

text \<open>A ticket stored under a new identifier is not another run's.\<close>

lemma awaits_saved:
  assumes a: "awaits s run def a" and t: "sound t" "G_store t = SaveTicket tk (G_store s)" "\<not> has_ticket (T_ID tk) s"
    and h: "History (G_log t) (R_ID run) = History (G_log s) (R_ID run)"
  shows "awaits t run def a"
proof -
  have l: "live s (R_ID run) run def" using a by (simp add: awaits_def)
  note p = live_parts [OF l]
  have kt: "keys_distinct (G_store t)" using p(2) by (simp only: t(2) keys_distinct_SaveTicket)
  have other: "GetTicket (G_store t) i = GetTicket (G_store s) i" if "has_ticket i s" for i
    using that t(3) by (auto simp: t(2))
  have gw: "GetWorkflow (G_store t) = GetWorkflow (G_store s)" by (simp add: t(2) fun_eq_iff)
  let ?i = "E_TicketID (hd (History (G_log s) (R_ID run)))"
  have "def_of t ?i = def_of s ?i"
    unfolding def_of_store [OF p(1,2)] def_of_store [OF t(1) kt] using other [OF sound_runs [OF p(1,3)]] gw
    by (simp add: def_of_def workflow_def cong: sum.case_cong option.case_cong)
  then have "live t (R_ID run) run def" unfolding live_def h gw using t(1) kt p by (simp only: simp_thms)
  moreover obtain tk' where "GetTicket (G_store s) (R_TicketID run) = Inr tk'" using a by (auto simp: awaits_def)
  then have "GetTicket (G_store t) (R_TicketID run) = Inr tk'" using other by (auto simp: has_ticket_def)
  ultimately show ?thesis using a by (simp add: awaits_def)
qed

lemma CreateTicket_takes_off:
  assumes s: "sound s" "keys_distinct (G_store s)" "fresh_ids s" and fl: "in_flight s fl" "length fl < pool_capacity"
    and w: "wf_of s name version = Some def" "task_only def" "flows def (W_Initial def # path)"
    and h: "willing (G_handlers s) def" "unhurried (G_world s) def" and fs: "fs = None \<or> marshals_obj fs"
  shows "\<exists>tk run t. CreateTicket (Suc n) name version title fs s = (Ok (tk, run), t) \<and>
    in_flight t (fl @ [(run, def, W_Initial def # path)]) \<and>
    payloads (History (G_log t) (R_ID run)) = start_payloads tk (R_ID run) (W_Initial def) \<and>
    (\<forall>r. r \<noteq> R_ID run \<longrightarrow> extends_by r [] s t)"
proof -
  obtain sd where sd: "Step def (W_Initial def) = Some sd" using flows_step [OF w(3)] by blast
  then have k: "SD_Kind sd = KindTask" using w(2) by (auto simp: task_only_def dest: Step_SomeD)
  have ready: "step_ready sd" by (simp add: step_ready_def k)
  note av = sound_available [OF s(1)]
  obtain i r k' m tk u u' v v' s1 s5 where p: "tk = new_ticket i def title fs (clock (G_world s) k')"
    "CreateTicket (Suc n) name version title fs s =
       bnd (GetRun r) (\<lambda>run. bnd (dispatch (Suc n) run def) (\<lambda>_. ret (tk, run))) s5"
    "newID ''run'' u = (Ok r, u')" "G_world u = G_world s"
    "newID ''tkt'' v = (Ok i, v')" "G_world v = G_world s"
    "G_log s1 = G_log s" "G_store s1 = SaveTicket tk (G_store s)" "G_world s1 = G_world s"
    "emits r ([TicketCreated (json_ticket tk), RunStarted r (W_Initial def)] @
        sched_payloads sd (W_Initial def) (clock (G_world s) m) @
        [TicketAssigned (T_Queue tk) (T_Assignee tk) (T_Priority tk) 0]) s1 s5"
    "\<forall>new. History (G_log s5) r = History (G_log s1) r @ new \<longrightarrow>
       E_TicketID (hd new) = i \<and> E_At (hd new) \<in> times (G_world s)"
    "G_pool s5 = G_pool s" "G_handlers s5 = G_handlers s" "sound s \<longrightarrow> sound s5"
    by (rule CreateTicket_prefix [OF av w(1) sd ready fs, of title "Suc n"], rule that, assumption+)
  have sound5: "sound s5" using p(14) s(1) by blast
  have fresh: "History (G_log s) r = []" "\<not> has_ticket i s" using s(3) p(3-6) unfolding fresh_ids_def by blast+
  then have hist: "payloads (History (G_log s5) r) = start_payloads tk r (W_Initial def)"
      "E_TicketID (hd (History (G_log s5) r)) = i" "E_At (hd (History (G_log s5) r)) \<in> times (G_world s)"
    using p(7,10,11) k by (auto simp: emits_def start_payloads_def sched_payloads_def)
  have others5: "History (G_log s5) r' = History (G_log s) r'" if "r' \<noteq> r" for r'
    using emits_isolated [OF p(10) _ that] sound_log [OF s(1)] p(7) by simp
  let ?run = "applyAll (new_run r i) def (History (G_log s5) r)"
  note run = started_run [OF hist(1), of i def]
  have store: "G_store s5 = SaveTicket tk (G_store s)" "G_world s5 = G_world s"
    using emits_world [OF p(10)] p(8,9) by simp_all
  have gw: "GetWorkflow (G_store s5) (W_Name def) (W_Version def) = Inr def"
    using wf_of_stored [OF s(1) w(1)] store by simp
  have kd: "keys_distinct (G_store s5)" using s(2) by (simp only: store keys_distinct_SaveTicket)
  have l5: "live s5 r ?run def"
    unfolding live_def
  proof (intro conjI sound5 kd)
    show "def_of s5 (E_TicketID (hd (History (G_log s5) r))) = Some def"
      unfolding hist(2) def_of_store [OF sound5 kd] using gw
      by (simp add: def_of_def store p(1) workflow_def)
    show "?run = replayed r def (History (G_log s5) r)" by (simp add: replayed_def hist(2))
    show "GetWorkflow (G_store s5) (R_Workflow ?run) (R_WorkflowVer ?run) = Inr def"
      using gw run(5) by (simp add: ticket_ident_def p(1))
    show "History (G_log s5) r \<noteq> []" using hist(1) by (auto simp: start_payloads_def)
  qed
  have room: "has_room s5" "fair_order (G_world s5)" "\<not> terminal (R_Status ?run)"
    using fl run(3) p(12) store(2) by (simp_all add: has_room_def in_flight_def terminal_def)
  have it: "in_time (G_world s) ?run def"
    using h(2) hist(3) run(6) by (simp add: in_time_def unhurried_def)
  then have "in_time (G_world s5) ?run def" by (simp only: store(2))
  from read_and_dispatch [OF l5 w(2) run(1) room(3,1,2) this, of n]
  obtain y t where t: "GetRun r s5 = (Ok ?run, y)" "dispatch (Suc n) ?run def y = (Ok (), t)" "emits r [] s5 t"
      "live t r ?run def" "G_pool t = queued (G_pool s5) (item_of ?run (W_Initial def))"
    by blast
  have rid: "R_ID ?run = r" by (rule live_ID [OF t(4)])
  have same: "G_world t = G_world s" "G_handlers t = G_handlers s" "G_store t = SaveTicket tk (G_store s)"
    using emits_world [OF t(3)] store p(13) by simp_all
  have hist_t: "History (G_log t) r' = History (G_log s5) r'" for r'
    using t(3) emits_isolated [OF t(3) sound_log [OF sound5]] by (cases "r' = r") (auto simp: emits_def payloads_def)
  have "R_TicketID ?run = i" using run(5) by (simp add: ticket_ident_def p(1))
  then have aw: "awaits t ?run def (W_Initial def)"
    unfolding awaits_def rid using t(4) run same(3) by (simp add: p(1))
  have old: "on_course t f \<and> servable (G_world t) (G_handlers t) f \<and> flight_id f \<noteq> r" if "f \<in> set fl" for f
  proof -
    obtain run' def' path' where f: "f = (run', def', path')" by (cases f)
    have c: "on_course s f" "servable (G_world s) (G_handlers s) f" using fl(1) that by (auto simp: in_flight_def f)
    then have a: "awaits s run' def' (hd path')" by (simp add: f)
    then have "History (G_log s) (R_ID run') \<noteq> []" using live_parts(3) by (auto simp: awaits_def)
    then have ne: "R_ID run' \<noteq> r" using fresh(1) by auto
    have "awaits t run' def' (hd path')"
      by (rule awaits_saved [OF a live_sound [OF t(4)] same(3)])
         (use fresh(2) ne hist_t others5 in \<open>simp_all add: p(1)\<close>)
    then show ?thesis using c same(1,2) ne by (simp add: f flight_id_def)
  qed
  have "in_flight t (fl @ [(?run, def, W_Initial def # path)])"
    unfolding in_flight_def
  proof (intro conjI)
    show "distinct (map flight_id (fl @ [(?run, def, W_Initial def # path)]))"
      using fl(1) old rid by (auto simp: in_flight_def flight_id_def)
    show "\<forall>f \<in> set (fl @ [(?run, def, W_Initial def # path)]). on_course t f \<and> servable (G_world t) (G_handlers t) f"
      using old aw w(2,3) h(1) it same(1,2) by (auto simp: servable_def)
    show "P_tasks (G_pool t) = map flight_task (fl @ [(?run, def, W_Initial def # path)])"
      using fl(1) by (simp add: t(5) p(12) queued_def in_flight_def flight_task_def)
  qed (use fl t(5) p(12) same(1) in \<open>simp_all add: queued_def in_flight_def\<close>)
  moreover have "payloads (History (G_log t) r) = start_payloads tk r (W_Initial def)"
    using hist(1) hist_t by simp
  moreover have "CreateTicket (Suc n) name version title fs s = (Ok (tk, ?run), t)"
    unfolding p(2) by (simp add: bnd_run t(1,2) del: dispatch.simps)
  moreover have "\<forall>r'. r' \<noteq> r \<longrightarrow> extends_by r' [] s t"
    using hist_t others5 same by (simp add: extends_by_same)
  ultimately show ?thesis
    by (intro exI [of _ tk] exI [of _ ?run] exI [of _ t]) (simp only: rid simp_thms)
qed

section \<open>The property\<close>

lemma started_completes:
  assumes "payloads (History (G_log t) r) = ps" "completes t u f" "flight_id f = r"
  shows "\<exists>outs. length outs = length (snd (snd f)) \<and>
    payloads (History (G_log u) r) = ps @ script (snd (snd f)) outs \<and> run_status u r = RunStatusCompleted"
  using assms by (auto simp: completes_def extends_by_def)

lemma completes_after: "extends_by (flight_id f) [] s t \<Longrightarrow> completes t u f \<Longrightarrow> completes s u f"
  unfolding completes_def using extends_by_trans [of "flight_id f" "[]" s t] by fastforce

text \<open>
  (C8) Progress: let the queue of a sound engine hold the tasks of the runs \<open>fl\<close>, one each, with room
  for one more, and let the engine hold a workflow of tasks whose success edges lead from its initial
  step along \<open>path\<close> to an end; every task involved has a handler that succeeds, and no SLA runs out
  at the times that the clock gives. Creating a ticket on the
  workflow returns, and after as many worker turns as all these runs have steps left together, the new
  run and every run of \<open>fl\<close> is completed, whatever the order in which maps are iterated. Whole histories
  are known: for the new run the four events of the creation, then for each step STEP_STARTED,
  STEP_COMPLETED with the handler's output and the scheduling of the next step, or RUN_COMPLETED after
  the last; no other run is touched.
\<close>

theorem task_flow_completes:
  assumes "sound s" "keys_distinct (G_store s)" "fresh_ids s" "in_flight s fl" "length fl < pool_capacity"
    and "wf_of s name version = Some def" "task_only def" "flows def (W_Initial def # path)"
    and "willing (G_handlers s) def" "unhurried (G_world s) def" "fs = None \<or> marshals_obj fs"
  shows "\<exists>tk run t u outs. CreateTicket (Suc n) name version title fs s = (Ok (tk, run), t) \<and>
    u = turns (Suc m) (work fl + Suc (length path)) t \<and> length outs = Suc (length path) \<and>
    payloads (History (G_log u) (R_ID run)) =
      start_payloads tk (R_ID run) (W_Initial def) @ script (W_Initial def # path) outs \<and>
    run_status u (R_ID run) = RunStatusCompleted \<and> (\<forall>f \<in> set fl. completes s u f) \<and>
    (\<forall>r. r \<noteq> R_ID run \<longrightarrow> r \<notin> flight_id ` set fl \<longrightarrow> extends_by r [] s u)"
proof -
  obtain tk run t where t: "CreateTicket (Suc n) name version title fs s = (Ok (tk, run), t)"
      "in_flight t (fl @ [(run, def, W_Initial def # path)])"
      "payloads (History (G_log t) (R_ID run)) = start_payloads tk (R_ID run) (W_Initial def)"
      "\<forall>r. r \<noteq> R_ID run \<longrightarrow> extends_by r [] s t"
    using CreateTicket_takes_off [OF assms, of n title] by blast
  let ?f = "(run, def, W_Initial def # path)"
  define u where "u = turns (Suc m) (work fl + Suc (length path)) t"
  have u: "u = turns (Suc m) (work (fl @ [?f])) t" by (simp add: u_def work_append work_def)
  note all = in_flight_completes [OF t(2), of m, folded u]
  have d: "R_ID run \<notin> flight_id ` set fl" using t(2) by (auto simp: in_flight_def flight_id_def)
  have old: "completes s u f" if "f \<in> set fl" for f
  proof (rule completes_after [of f s t])
    show "extends_by (flight_id f) [] s t" using t(4) d that by (metis imageI)
    show "completes t u f" using all that by simp
  qed
  have rest: "extends_by r [] s u" if "r \<noteq> R_ID run" "r \<notin> flight_id ` set fl" for r
    using extends_by_trans [of r "[]" s t "[]" u] all t(4) that by (auto simp: flight_id_def)
  obtain outs where "length outs = Suc (length path)" "run_status u (R_ID run) = RunStatusCompleted"
    "payloads (History (G_log u) (R_ID run)) =
      start_payloads tk (R_ID run) (W_Initial def) @ script (W_Initial def # path) outs"
    using started_completes [OF t(3), of u ?f] all by (auto simp: flight_id_def)
  with t(1) u_def old rest show ?thesis by blast
qed

definition ready_demo :: Engine where
  "ready_demo = snd (RegisterTask ''do'' handler_ok (engine_with (calm (\<lambda>_. 5)) task_flow))"

lemma ready_demo_facts:
  "G_log ready_demo = NewInMemoryEventLog" "G_store ready_demo = \<lparr>S_tickets = [], S_workflows = [(''wf'', [(''1'', task_flow)])]\<rparr>"
  "G_world ready_demo = calm (\<lambda>_. 5)" "P_tasks (G_pool ready_demo) = []" "\<not> P_closed (G_pool ready_demo)"
  "G_handlers ready_demo = [''do'' \<mapsto> handler_ok]" "wf_of ready_demo ''wf'' ''1'' = Some task_flow"
  unfolding ready_demo_def wf_of_def by (simp_all add: eval_created eval cong: eval_congs)

lemma reachable_ready_demo: "reachable available 3 ready_demo"
proof -
  have "ready_demo = perform 3 (BindTask ''do'' handler_ok) (perform 3 (Deploy task_flow)
      (NewEngine NewInMemoryEventLog NewInMemoryStore 4 (calm (\<lambda>_. 5))))"
    by (simp add: ready_demo_def engine_with_def)
  moreover have "available (calm (\<lambda>_. 5))" by (simp add: available_def calm_def)
  ultimately show ?thesis unfolding \<open>ready_demo = _\<close> by (intro next_state [OF _ engine_step.call] start)
qed

lemma demo_flow:
  "task_only task_flow" "flows task_flow (W_Initial task_flow # [''b''])" "willing [''do'' \<mapsto> handler_ok] task_flow"
  "fair_order (calm (\<lambda>_. 5))"
  by (simp_all add: task_only_def task_flow_def flow_def task_step_def Step_def willing_def handler_ok_def
      marshals_obj_def fair_order_def calm_def)

theorem task_flow_completes_witness:
  "\<exists>tk run t. CreateTicket 3 ''wf'' ''1'' ''laptop'' None ready_demo = (Ok (tk, run), t) \<and>
    run_status (turns 3 2 t) (R_ID run) = RunStatusCompleted"
proof -
  have "sound ready_demo" by (rule reachable_sound [OF reachable_ready_demo])
  moreover have "keys_distinct (G_store ready_demo)"
    by (simp add: ready_demo_facts keys_distinct_single)
  moreover have "fresh_ids ready_demo"
    by (simp add: fresh_ids_def ready_demo_facts NewInMemoryEventLog_def History_def has_ticket_def GetTicket_def)
  moreover have "in_flight ready_demo []"
    using demo_flow(4) by (simp add: in_flight_def ready_demo_facts)
  moreover have "willing (G_handlers ready_demo) task_flow" by (simp only: ready_demo_facts demo_flow)
  moreover have "unhurried (G_world ready_demo) task_flow" by (simp add: unhurried_def task_flow_def flow_def)
  ultimately show ?thesis
    using task_flow_completes [of ready_demo "[]" "''wf''" "''1''" task_flow "[''b'']" None 2 "''laptop''" 2]
      ready_demo_facts(7) demo_flow(1,2) by (auto simp: eval_nat_numeral work_def pool_capacity_def)
qed

end
