(* ===== verification/Engine_Crash.thy ===== *)
theory Engine_Crash
  imports Engine_Progress "HOL-Library.Multiset"
begin

text \<open>
  Crashes: a process that dies between two turns leaves the log and the store. The next one starts
  with an empty queue; Recover queues the pending task of every unfinished run again, so that the
  runs complete as if nothing had happened.
\<close>

section \<open>The same log and store\<close>

lemma live_same:
  assumes l: "live s r run def" and t: "sound t" "G_log t = G_log s" "G_store t = G_store s"
  shows "live t r run def"
proof -
  note p = live_parts [OF l]
  have kt: "keys_distinct (G_store t)" using p(2) t(3) by simp
  have "def_of t i = def_of s i" for i
    unfolding def_of_store [OF p(1,2)] def_of_store [OF t(1) kt] by (rule def_of_cache_free [OF t(3)])
  then show ?thesis unfolding live_def t(2,3) using t(1) p by simp
qed

lemma on_course_same:
  "on_course s f \<Longrightarrow> sound t \<Longrightarrow> G_log t = G_log s \<Longrightarrow> G_store t = G_store s \<Longrightarrow> on_course t f"
  by (cases f) (auto simp: awaits_def intro: live_same)

section \<open>Recover, run by run\<close>

text \<open>During Recover: the log and the store are those of \<open>s\<close>, and the runs \<open>fl\<close> are queued again.\<close>

definition recovering :: "Engine \<Rightarrow> World \<Rightarrow> (string \<rightharpoonup> TaskHandler) \<Rightarrow> flight list \<Rightarrow> Engine \<Rightarrow> bool" where
  "recovering s w hs fl u \<longleftrightarrow> sound u \<and> G_log u = G_log s \<and> G_store u = G_store s \<and> G_world u = w \<and>
     G_handlers u = hs \<and> P_tasks (G_pool u) = map flight_task fl \<and> \<not> P_closed (G_pool u)"

lemma recovering_reads:
  "recovering s w hs fl u \<Longrightarrow> reads u v \<Longrightarrow> sound v \<Longrightarrow> recovering s w hs fl v"
  by (simp add: recovering_def reads_def)

lemma recovering_GetRun:
  assumes "recovering s w hs fl u" "GetRun r u = (x, v)"
  shows "recovering s w hs fl v"
proof (rule recovering_reads [OF assms(1)])
  show "reads u v" by (rule keepsD [OF reads_GetRun assms(2)])
  have "adds (\<lambda>_ _. False) u v" using keeps_at [OF adds_GetRun, of _ u r] assms(2) by simp
  with assms(1) show "sound v" by (auto simp: recovering_def intro: sound_adds)
qed

lemma recovering_loadWorkflow:
  assumes "recovering s w hs fl u" "loadWorkflow a b u = (x, v)"
  shows "recovering s w hs fl v"
proof (rule recovering_reads [OF assms(1)])
  show "reads u v" by (rule keepsD [OF reads_loadWorkflow assms(2)])
  have "adds (\<lambda>_ _. False) u v" using keeps_at [OF adds_loadWorkflow, of _ u a b] assms(2) by simp
  with assms(1) show "sound v" by (auto simp: recovering_def intro: sound_adds)
qed

definition revisit :: "nat \<Rightarrow> run_id \<Rightarrow> unit eng" where
  "revisit n i = bnd (GetRun i) (\<lambda>run.
     bnd (attempt (loadWorkflow (R_Workflow run) (R_WorkflowVer run))) (\<lambda>r.
       case r of Inl _ \<Rightarrow> ret () | Inr def \<Rightarrow> dispatch n run def))"

lemma Recover_revisits: "Recover n = bnd log_Runs (\<lambda>ids. for_each ids (revisit n))"
  by (simp add: Recover_def revisit_def [abs_def])

text \<open>An unfinished run on its course is queued.\<close>

lemma revisit_queues:
  assumes u: "recovering s w hs fl u" and f: "on_course s f" and room: "length fl < pool_capacity" "fair_order w"
    and w: "in_time w (fst f) (fst (snd f))"
  shows "\<exists>t. revisit (Suc n) (flight_id f) u = (Ok (), t) \<and> recovering s w hs (fl @ [f]) t"
proof -
  obtain run def path where f': "f = (run, def, path)" by (cases f)
  let ?r = "R_ID run"
  have id: "flight_id f = ?r" by (simp add: f' flight_id_def)
  have "on_course u f" using on_course_same [OF f] u by (simp add: recovering_def)
  then have a: "live u ?r run def" "R_Status run = RunStatusActive" "only_pending run (hd path)" "task_only def"
    by (simp_all add: f' awaits_def)
  obtain y where y: "GetRun ?r u = (Ok run, y)" "emits ?r [] u y" using live_GetRun [OF a(1)] by blast
  have ly: "live y ?r run def" using live_emits [OF a(1) y(2)] by (auto simp: payloads_def)
  obtain z where z: "loadWorkflow (R_Workflow run) (R_WorkflowVer run) y = (Ok def, z)" "emits ?r [] y z"
    using live_load [OF ly] by blast
  have lz: "live z ?r run def" using live_emits [OF ly z(2)] by (auto simp: payloads_def)
  have rz: "recovering s w hs fl z" by (rule recovering_loadWorkflow [OF recovering_GetRun [OF u y(1)] z(1)])
  obtain j where j: "dispatch (Suc n) run def z =
      (Ok (), z\<lparr>G_ticks := G_ticks z + j, G_pool := queued (G_pool z) (item_of run (hd path))\<rparr>)"
    using dispatch_submits [OF live_run_ok [OF lz] a(4,3), of z n] a(2) rz room w live_available [OF lz]
    by (auto simp: terminal_def has_room_def recovering_def f')
  let ?t = "z\<lparr>G_ticks := G_ticks z + j, G_pool := queued (G_pool z) (item_of run (hd path))\<rparr>"
  have "revisit (Suc n) ?r u = (Ok (), ?t)"
    by (simp add: revisit_def bnd_run attempt_run y(1) z(1) j del: dispatch.simps)
  moreover have "sound ?t"
    by (rule sound_cong [OF live_sound [OF lz]]) (simp_all add: live_available [OF lz])
  then have "recovering s w hs (fl @ [f]) ?t"
    using rz by (simp add: recovering_def queued_def flight_task_def f')
  ultimately show ?thesis unfolding id by blast
qed

text \<open>A finished run is left alone.\<close>

lemma revisit_finished:
  assumes u: "recovering s w hs fl u" and r: "r \<in> set (Runs (G_log s))" "terminal (run_status s r)"
  shows "\<exists>t. revisit (Suc n) r u = (Ok (), t) \<and> recovering s w hs fl t"
proof -
  have su: "sound u" "G_log u = G_log s" using u by (simp_all add: recovering_def)
  have "History (G_log u) r \<noteq> []"
    using r(1) sound_log [OF su(1)] by (simp add: su(2) log_ok_def Runs_def History_def)
  then obtain run where run: "run_view u r = Some run" using sound_run_view [OF su(1)] by auto
  obtain y where y: "GetRun r u = (Ok run, y)"
    using GetRun_available [OF sound_available [OF su(1)], of r] run by auto
  have ry: "recovering s w hs fl y" by (rule recovering_GetRun [OF u y])
  have "R_Status run = run_status s r" using GetRun_status [OF y] su(2) by (simp add: run_status_def)
  with r(2) have quiet: "dispatch (Suc n) run def z = (Ok (), z)" for def z by (simp add: dispatch_body_def)
  obtain x z where z: "loadWorkflow (R_Workflow run) (R_WorkflowVer run) y = (x, z)" by fastforce
  have rz: "recovering s w hs fl z" by (rule recovering_loadWorkflow [OF ry z])
  have nocrash: "x \<noteq> Crash c" for c
    using loadWorkflow_available [OF sound_available, of y "R_Workflow run" "R_WorkflowVer run"] ry z
    by (auto simp: recovering_def split: option.splits sum.splits)
  have "revisit (Suc n) r u = (Ok (), z)"
    using nocrash quiet by (cases x) (auto simp: revisit_def bnd_run attempt_run y z simp del: dispatch.simps)
  with rz show ?thesis by blast
qed

text \<open>Recover queues the unfinished runs in the order in which it visits them.\<close>

lemma revisit_all:
  assumes "recovering s w hs fl0 u" "\<forall>f \<in> set fl. on_course s f \<and> servable w hs f" "fair_order w"
    and "\<forall>i \<in> set ids. i \<in> flight_id ` set fl \<or> i \<in> set (Runs (G_log s)) \<and> terminal (run_status s i)"
    and "length fl0 + length (filter (\<lambda>i. i \<in> flight_id ` set fl) ids) \<le> pool_capacity"
  shows "\<exists>t new. for_each ids (revisit (Suc n)) u = (Ok (), t) \<and> recovering s w hs (fl0 @ new) t \<and>
    set new \<subseteq> set fl \<and> map flight_id new = filter (\<lambda>i. i \<in> flight_id ` set fl) ids"
  using assms(1,4,5)
proof (induction ids arbitrary: fl0 u)
  case Nil
  then show ?case by (intro exI [of _ u] exI [of _ "[]"]) simp
next
  case (Cons i ids)
  show ?case
  proof (cases "i \<in> flight_id ` set fl")
    case True
    then obtain f where f: "f \<in> set fl" "i = flight_id f" by blast
    have room: "length fl0 < pool_capacity" using Cons.prems(3) True by simp
    obtain v where v: "revisit (Suc n) i u = (Ok (), v)" "recovering s w hs (fl0 @ [f]) v"
      using revisit_queues [OF Cons.prems(1) _ room assms(3), of f n] assms(2) f by (auto simp: servable_def)
    obtain t new where t: "for_each ids (revisit (Suc n)) v = (Ok (), t)" "recovering s w hs ((fl0 @ [f]) @ new) t"
        "set new \<subseteq> set fl" "map flight_id new = filter (\<lambda>i. i \<in> flight_id ` set fl) ids"
      using Cons.IH [OF v(2)] Cons.prems(2,3) True by auto
    then show ?thesis using v(1) f True by (intro exI [of _ t] exI [of _ "f # new"]) (simp add: bnd_run)
  next
    case False
    then obtain v where v: "revisit (Suc n) i u = (Ok (), v)" "recovering s w hs fl0 v"
      using revisit_finished [OF Cons.prems(1), of i n] Cons.prems(2) by auto
    obtain t new where t: "for_each ids (revisit (Suc n)) v = (Ok (), t)" "recovering s w hs (fl0 @ new) t"
        "set new \<subseteq> set fl" "map flight_id new = filter (\<lambda>i. i \<in> flight_id ` set fl) ids"
      using Cons.IH [OF v(2)] Cons.prems(2,3) False by auto
    then show ?thesis using v(1) False by (intro exI [of _ t] exI [of _ new]) (simp add: bnd_run)
  qed
qed

section \<open>After a crash\<close>

text \<open>Every run of the log is finished, or is one of \<open>fl\<close>, on its course.\<close>

definition settled :: "Engine \<Rightarrow> flight list \<Rightarrow> bool" where
  "settled s fl \<longleftrightarrow> sound s \<and> distinct (map flight_id fl) \<and> (\<forall>f \<in> set fl. on_course s f) \<and>
     length fl \<le> pool_capacity \<and>
     (\<forall>r \<in> set (Runs (G_log s)). r \<in> flight_id ` set fl \<or> terminal (run_status s r))"

text \<open>A new process on the log and the store, after it has bound its handlers.\<close>

definition reborn :: "int \<Rightarrow> World \<Rightarrow> (string \<rightharpoonup> TaskHandler) \<Rightarrow> Engine \<Rightarrow> Engine" where
  "reborn workers w hs s = (restart workers w s)\<lparr>G_handlers := hs\<rparr>"

lemma reborn_recovering:
  assumes "sound s" "available w"
  shows "recovering s w hs [] (reborn workers w hs s)"
proof -
  have "sound (reborn workers w hs s)"
    by (rule sound_cong [OF sound_restart [OF assms, of workers]])
       (simp_all add: assms(2) reborn_def restart_def NewEngine_def)
  then show ?thesis
    by (simp add: recovering_def reborn_def restart_def NewEngine_def NewWorkerPool_def)
qed

lemma on_course_listed: "sound s \<Longrightarrow> on_course s f \<Longrightarrow> flight_id f \<in> set (Runs (G_log s))"
  using live_parts(3) sound_log by (cases f) (auto simp: flight_id_def awaits_def log_ok_def Runs_def History_def)

lemma Recover_requeues:
  assumes s: "settled s fl" and w: "available w" "fair_order w"
    and h: "\<forall>f \<in> set fl. servable w hs f"
  shows "\<exists>t fl'. Recover (Suc n) (reborn workers w hs s) = (Ok (), t) \<and> in_flight t fl' \<and> mset fl' = mset fl \<and>
    G_log t = G_log s"
proof -
  let ?u = "reborn workers w hs s"
  from s have sd: "sound s" "distinct (map flight_id fl)" "\<forall>f \<in> set fl. on_course s f" "length fl \<le> pool_capacity"
    "\<forall>r \<in> set (Runs (G_log s)). r \<in> flight_id ` set fl \<or> terminal (run_status s r)"
    by (simp_all add: settled_def)
  have u: "recovering s w hs [] ?u" by (rule reborn_recovering [OF sd(1) w(1)])
  let ?v = "tick_of (tick_of ?u)"
  obtain k where runs: "log_Runs ?u = (Ok (order w k (Runs (G_log s))), ?v)"
    using u w(1) by (simp add: recovering_def log_Runs_def in_map_order_def bnd_run reading_available sample_def)
  define ids where "ids = order w k (Runs (G_log s))"
  have ids: "set ids = set (Runs (G_log s))" "distinct ids"
    using w(2) sound_log [OF sd(1)] unfolding fair_order_def ids_def by (auto simp: log_ok_def Runs_def)
  have v: "recovering s w hs [] ?v"
    using u sound_cong [of ?u ?v] sound_available [of ?u] by (simp add: recovering_def)
  have sub: "flight_id ` set fl \<subseteq> set ids"
    using on_course_listed [OF sd(1)] sd(3) unfolding ids(1) by blast
  let ?mine = "filter (\<lambda>i. i \<in> flight_id ` set fl) ids"
  have "set ?mine = set (map flight_id fl)" using sub by auto
  then have "length ?mine = length fl"
    using distinct_card [of ?mine] distinct_card [OF sd(2)] ids(2) by simp
  then have room: "length ([] :: flight list) + length ?mine \<le> pool_capacity" using sd(4) by simp
  have each: "\<forall>i \<in> set ids. i \<in> flight_id ` set fl \<or> i \<in> set (Runs (G_log s)) \<and> terminal (run_status s i)"
    using sd(5) unfolding ids(1) by blast
  obtain t new where t: "for_each ids (revisit (Suc n)) ?v = (Ok (), t)" "recovering s w hs new t"
      "set new \<subseteq> set fl" "map flight_id new = ?mine"
    using revisit_all [OF v _ w(2) each room, of n] sd(3) h by auto
  have d: "distinct (map flight_id new)" using ids(2) by (simp add: t(4))
  have "set fl \<subseteq> set new"
  proof
    fix f assume f: "f \<in> set fl"
    then have "flight_id f \<in> set (map flight_id new)" using sub by (auto simp: t(4))
    then obtain g where g: "g \<in> set new" "flight_id g = flight_id f" by auto
    with t(3) f sd(2) have "g = f" by (auto simp: distinct_map inj_on_def)
    with g show "f \<in> set new" by simp
  qed
  with t(3) have "set new = set fl" by blast
  then have m: "mset new = mset fl"
    using d sd(2) set_eq_iff_mset_eq_distinct [of new fl] by (simp add: distinct_map)
  have "on_course t f \<and> servable (G_world t) (G_handlers t) f" if "f \<in> set new" for f
    using t(2,3) that sd(3) h on_course_same [of s f t] by (auto simp: recovering_def)
  moreover have "length new \<le> pool_capacity" using sd(4) m by (metis size_mset)
  ultimately have "in_flight t new" using d t(2) w(2) by (simp add: in_flight_def recovering_def)
  moreover have "Recover (Suc n) ?u = (Ok (), t)"
    using runs t(1) by (simp add: Recover_revisits bnd_run ids_def)
  ultimately show ?thesis using m t(2) by (auto simp: recovering_def)
qed

lemma work_mset:
  assumes "mset fl = mset fl'"
  shows "work fl = work fl'"
proof -
  have "work gl = sum_mset (image_mset (\<lambda>f. length (snd (snd f))) (mset gl))" for gl
    by (simp add: work_def flip: sum_mset_sum_list)
  with assms show ?thesis by simp
qed

text \<open>
  (C9) A crash between turns loses nothing: let every run of the log be finished or wait for a task
  on a path of success edges to an end, and let the process die. Recover in a new process, with
  handlers that succeed and before any SLA runs out, appends nothing and returns; then every unfinished run completes, after as
  many worker turns as they have steps left together, with the history it would have had, each task
  of the path once and in order; the finished runs are not touched.
\<close>

theorem crash_loses_nothing:
  assumes "settled s fl" "available w" "fair_order w" "\<forall>f \<in> set fl. servable w hs f"
  shows "\<exists>t. Recover (Suc n) (reborn workers w hs s) = (Ok (), t) \<and> G_log t = G_log s \<and>
    (\<forall>f \<in> set fl. completes t (turns (Suc m) (work fl) t) f) \<and>
    (\<forall>r. r \<notin> flight_id ` set fl \<longrightarrow>
       History (G_log (turns (Suc m) (work fl) t)) r = History (G_log s) r)"
proof -
  obtain t fl' where t: "Recover (Suc n) (reborn workers w hs s) = (Ok (), t)" "in_flight t fl'"
      "mset fl' = mset fl" "G_log t = G_log s"
    using Recover_requeues [OF assms] by blast
  have "extends_by r [] t u \<Longrightarrow> History (G_log u) r = History (G_log t) r" for r u
    by (auto simp: extends_by_def payloads_def)
  with in_flight_completes [OF t(2), of m] mset_eq_setD [OF t(3)] work_mset [OF t(3)] t(1,4)
  show ?thesis by auto
qed

lemma settled_demo:
  "settled (task_demo h) [(demo_run (task_demo h) task_flow, task_flow, [''a'', ''b''])]"
proof -
  have "R_ID (demo_run (task_demo h) task_flow) = ''run_0''" by (rule live_ID [OF live_task_demo])
  moreover have "awaits (task_demo h) (demo_run (task_demo h) task_flow) task_flow ''a''"
    unfolding awaits_def calculation only_pending_def
    by (intro conjI live_task_demo) (simp_all add: eval_run cong: eval_congs)
  moreover have "Runs (G_log (task_demo h)) = [''run_0'']"
    by (simp add: Runs_def task_demo_def demo_state_def)
  moreover have "flows task_flow [''a'', ''b'']" using demo_flow(2) by (simp add: task_flow_def flow_def task_step_def)
  ultimately show ?thesis
    using live_sound [OF live_task_demo] demo_flow(1) by (simp add: settled_def flight_id_def pool_capacity_def)
qed

theorem crash_loses_nothing_witness:
  "\<exists>t. Recover 3 (reborn 4 (calm (\<lambda>_. 5)) [''do'' \<mapsto> handler_ok] (task_demo handler_ok)) = (Ok (), t) \<and>
    run_status (turns 3 2 t) ''run_0'' = RunStatusCompleted"
proof -
  have "available (calm (\<lambda>_. 5))" by (simp add: available_def calm_def)
  moreover have "R_ID (demo_run (task_demo handler_ok) task_flow) = ''run_0''"
    by (rule live_ID [OF live_task_demo])
  moreover have "in_time w run task_flow" for w run by (simp add: in_time_def task_flow_def flow_def)
  ultimately show ?thesis
    using crash_loses_nothing [OF settled_demo _ demo_flow(4), of handler_ok "[''do'' \<mapsto> handler_ok]" 2 4 2]
      demo_flow(3) by (auto simp: completes_def servable_def flight_id_def eval_nat_numeral work_def)
qed

end
