(* ===== verification/Engine_Timers.thy ===== *)
theory Engine_Timers
  imports Engine_Tasks
begin

text \<open>
  Timers: what a delay step does before and after its time, and which SLAs CheckSLA flags when
  none of them escalates to a step.
\<close>

section \<open>Delays\<close>

definition waiting_until :: "WorkflowRun \<Rightarrow> string \<Rightarrow> time \<Rightarrow> bool" where
  "waiting_until run nm due \<longleftrightarrow> (\<exists>st. step_of run nm = Some st \<and> SS_Kind st = KindDelay \<and>
     SS_Status st = StepWaiting \<and> SS_DueAt st = Some due)"

lemma dispatch_step_delay:
  assumes "waiting_until run nm due"
  shows "dispatch_step disp run def nm s =
    (if due \<le> clock (G_world s) (G_ticks s) then ignore (fireTimer disp run def nm) (tick_of s) else (Ok (), tick_of s))"
  using assms by (auto simp: waiting_until_def dispatch_step_def is_due_def now_def sample_def bnd_run)

lemma live_quiet: "live s r run def \<Longrightarrow> adds (\<lambda>_ _. False) s t \<Longrightarrow> live t r run def"
  using live_emits [OF _ emits_none] by (fastforce simp: payloads_def)

lemma adds_tick: "adds Q s (tick_of s)"
  by (rule adds_same_log) simp_all

lemma begins_quiet: "adds (\<lambda>_ _. False) s t \<Longrightarrow> begins r ps t u \<Longrightarrow> begins r ps s u"
  using begins_trans [OF emits_none] by fastforce

lemma fireTimer_begins:
  assumes l: "live s r run def" and st: "step_of run nm \<noteq> None"
    and sd: "Step def nm = Some sd" and f: "can_follow def (SD_Next sd)"
  shows "\<exists>k. begins r ([TimerFired nm, StepCompletedP nm None] @
      follow run def nm (SD_Next sd) True (clock (G_world s) k)) s (snd (fireTimer (dispatch n) run def nm s))"
proof -
  obtain e1 s1 v1 where s1: "emit run (TimerFired nm) s = (Ok e1, s1)" "emits r [TimerFired nm] s s1"
      "live s1 r (applyOne def run v1) def"
    using live_emit [OF l live_ID [OF l]] by blast
  obtain e2 s2 v2 where s2: "emit run (StepCompletedP nm None) s1 = (Ok e2, s2)"
      "emits r [StepCompletedP nm None] s1 s2" "live s2 r (applyOne def (applyOne def run v1) v2) def"
    using live_emit [OF s1(3) live_ID [OF l]] by blast
  obtain k where k: "begins r (follow run def nm (SD_Next sd) True (clock (G_world s2) k)) s2
      (snd (advance (dispatch n) run def nm True s2))"
    using advance_begins [OF s2(3) live_ID [OF l] st sd _ f, of True n] by auto
  have "fireTimer (dispatch n) run def nm s = advance (dispatch n) run def nm True s2"
    by (simp add: fireTimer_def bnd_run s1(1) s2(1))
  moreover have "G_world s2 = G_world s" using emits_world [OF s1(2)] emits_world [OF s2(2)] by simp
  ultimately show ?thesis using begins_trans [OF emits_trans [OF s1(2) s2(2)] k] by auto
qed

section \<open>SLAs\<close>

definition overdue :: "WorkflowRun \<Rightarrow> WorkflowDef \<Rightarrow> Event list \<Rightarrow> time \<Rightarrow> SLADef list" where
  "overdue run def events tm = filter (\<lambda>sla. SLA_Name sla \<notin> set (breached_names events) \<and>
     R_CreatedAt run + SLA_Duration sla < tm) (W_SLAs def)"

definition flags :: "WorkflowRun \<Rightarrow> SLADef list \<Rightarrow> payload list" where
  "flags run slas = map (\<lambda>sla. SLABreached (SLA_Name sla) (R_Current run)) slas"

lemma ignore_emit:
  assumes "available (G_world s)" "R_ID run = r"
  shows "\<exists>t. ignore (emit run p) s = (Ok (), t) \<and> emits r [p] s t"
proof -
  obtain e t where "emit run p s = (Ok e, t)" "emits r [p] s t" using emit_emits [OF assms] by blast
  then show ?thesis by (intro exI [of _ t]) (simp add: ignore_def bnd_run attempt_run)
qed

lemma CheckSLA_loop:
  assumes "available (G_world s)" "R_ID run = r"
    and "\<forall>sla \<in> set slas. SLA_Name sla \<notin> B \<and> R_CreatedAt run + SLA_Duration sla < tm \<longrightarrow> SLA_OnBreach sla = []"
  shows "\<exists>t. for_each slas (\<lambda>sla.
      if SLA_Name sla \<in> B then ret ()
      else let deadline = R_CreatedAt run + SLA_Duration sla
        in if deadline < tm then
             bnd (ignore (emit run (SLABreached (SLA_Name sla) (R_Current run)))) (\<lambda>_.
               if SLA_OnBreach sla \<noteq> [] then ignore (jumpTo disp run def (SLA_OnBreach sla)) else ret ())
           else ret ()) s = (Ok (), t) \<and>
    emits r (flags run (filter (\<lambda>sla. SLA_Name sla \<notin> B \<and> R_CreatedAt run + SLA_Duration sla < tm) slas)) s t"
  using assms
proof (induction slas arbitrary: s)
  case Nil
  show ?case by (simp add: flags_def emits_refl)
next
  case (Cons sla slas)
  show ?case
  proof (cases "SLA_Name sla \<notin> B \<and> R_CreatedAt run + SLA_Duration sla < tm")
    case False
    with Cons.IH [OF Cons.prems(1,2)] Cons.prems(3) show ?thesis by (auto simp: bnd_run Let_def)
  next
    case True
    obtain t where t: "ignore (emit run (SLABreached (SLA_Name sla) (R_Current run))) s = (Ok (), t)"
        "emits r [SLABreached (SLA_Name sla) (R_Current run)] s t"
      using ignore_emit [OF Cons.prems(1,2)] by blast
    have "available (G_world t)" using emits_world [OF t(2)] Cons.prems(1) by simp
    from Cons.IH [OF this Cons.prems(2)] Cons.prems(3) obtain u where
      u: "for_each slas (\<lambda>sla.
        if SLA_Name sla \<in> B then ret ()
        else let deadline = R_CreatedAt run + SLA_Duration sla
          in if deadline < tm then
               bnd (ignore (emit run (SLABreached (SLA_Name sla) (R_Current run)))) (\<lambda>_.
                 if SLA_OnBreach sla \<noteq> [] then ignore (jumpTo disp run def (SLA_OnBreach sla)) else ret ())
             else ret ()) t = (Ok (), u)"
      "emits r (flags run (filter (\<lambda>sla. SLA_Name sla \<notin> B \<and> R_CreatedAt run + SLA_Duration sla < tm) slas)) t u"
      by auto
    from emits_trans [OF t(2) u(2)] t(1) u(1) True Cons.prems(3) show ?thesis
      by (simp add: bnd_run Let_def flags_def)
  qed
qed

lemma CheckSLA_flags:
  assumes l: "live s r run def" and st: "R_Status run = RunStatusActive \<or> R_Status run = RunStatusWaiting"
    and b: "\<forall>sla \<in> set (overdue run def (History (G_log s) r) (clock (G_world s) (Suc (G_ticks s)))). SLA_OnBreach sla = []"
  shows "\<exists>t. CheckSLA disp run def s = (Ok (), t) \<and>
    emits r (flags run (overdue run def (History (G_log s) r) (clock (G_world s) (Suc (G_ticks s))))) s t"
proof (cases "W_SLAs def = []")
  case True
  then show ?thesis by (simp add: CheckSLA_def overdue_def flags_def emits_refl)
next
  case False
  let ?s = "tick_of (tick_of s)" and ?tm = "clock (G_world s) (Suc (G_ticks s))"
  note av = live_available [OF l]
  have h: "attempt (log_History r) s = (Ok (Inr (History (G_log s) r)), tick_of s)"
    by (simp add: log_History_def reading_available [OF av] attempt_run)
  have n: "now (tick_of s) = (Ok ?tm, ?s)" by (simp add: now_def sample_def)
  have q: "emits r [] s ?s" by (rule emits_none, rule adds_same_log) simp_all
  have av': "available (G_world ?s)" using av by simp
  obtain t where t: "for_each (W_SLAs def) (\<lambda>sla.
      if SLA_Name sla \<in> set (breached_names (History (G_log s) r)) then ret ()
      else let deadline = R_CreatedAt run + SLA_Duration sla
        in if deadline < ?tm then
             bnd (ignore (emit run (SLABreached (SLA_Name sla) (R_Current run)))) (\<lambda>_.
               if SLA_OnBreach sla \<noteq> [] then ignore (jumpTo disp run def (SLA_OnBreach sla)) else ret ())
           else ret ()) ?s = (Ok (), t)"
    "emits r (flags run (overdue run def (History (G_log s) r) ?tm)) ?s t"
    using CheckSLA_loop [OF av' live_ID [OF l], of "W_SLAs def" "set (breached_names (History (G_log s) r))" ?tm disp def] b
    unfolding overdue_def by auto
  have "CheckSLA disp run def s = (Ok (), t)"
    using False st t(1) by (auto simp: CheckSLA_def live_ID [OF l] bnd_run h n)
  with emits_trans [OF q t(2)] show ?thesis by auto
qed

text \<open>The first overdue SLA that names a step to go to: its flag, then the scheduling of that step.\<close>

definition in_progress :: "WorkflowRun \<Rightarrow> string \<Rightarrow> bool" where
  "in_progress run nm \<longleftrightarrow> (case step_of run nm of None \<Rightarrow> False
     | Some st \<Rightarrow> SS_Status st = StepPending \<or> SS_Status st = StepRunning \<or> SS_Status st = StepWaiting)"

lemmas adds_jumpTo = adds_from_dispatch [OF fr.keeps_jumpTo [OF fr.good_dispatch]]

lemma jumpTo_begins:
  assumes "available (G_world s)" "R_ID run = r" "Step def nm = Some sd" "step_ready sd"
  shows "\<exists>k. begins r (if in_progress run nm then [] else sched_payloads sd nm (clock (G_world s) k)) s
    (snd (jumpTo (dispatch n) run def nm s))"
proof (cases "in_progress run nm")
  case True
  then have "jumpTo (dispatch n) run def nm s = (Ok (), s)" unfolding jumpTo_def in_progress_def by simp
  with True show ?thesis by (simp add: emits_begins emits_refl)
next
  case False
  obtain e t where t: "scheduleStep r (R_TicketID run) def nm s = (Ok e, t)"
      "emits r (sched_payloads sd nm (clock (G_world s) (G_ticks s))) s t"
    using scheduleStep_emits [OF assms(1,3,4)] by blast
  let ?rest = "bnd (attempt (GetRun r)) (\<lambda>x. case x of Inl _ \<Rightarrow> ret () | Inr nr \<Rightarrow> dispatch n nr def)"
  have "snd (jumpTo (dispatch n) run def nm s) = snd (?rest t)"
    using False assms(2) t(1) unfolding jumpTo_def in_progress_def by (simp add: bnd_run)
  moreover have "keeps (adds (on_run r (\<lambda>_. False))) ?rest"
    by (intro adds_attempt_GetRun_bnd ad.keeps_ret adds_dispatch)
  ultimately show ?thesis using False t(2) keeps_at unfolding begins_def by fastforce
qed

lemma CheckSLA_escalates:
  assumes "available (G_world s)" "R_ID run = r"
    and "filter (\<lambda>sla. SLA_Name sla \<notin> B \<and> R_CreatedAt run + SLA_Duration sla < tm) slas = pre @ esc # post"
    and "\<forall>sla \<in> set pre. SLA_OnBreach sla = []" "SLA_OnBreach esc \<noteq> []"
    and "Step def (SLA_OnBreach esc) = Some sd" "step_ready sd"
  shows "\<exists>k. begins r (flags run (pre @ [esc]) @ (if in_progress run (SLA_OnBreach esc) then []
        else sched_payloads sd (SLA_OnBreach esc) (clock (G_world s) k))) s
    (snd (for_each slas (\<lambda>sla.
      if SLA_Name sla \<in> B then ret ()
      else let deadline = R_CreatedAt run + SLA_Duration sla
        in if deadline < tm then
             bnd (ignore (emit run (SLABreached (SLA_Name sla) (R_Current run)))) (\<lambda>_.
               if SLA_OnBreach sla \<noteq> [] then ignore (jumpTo (dispatch n) run def (SLA_OnBreach sla)) else ret ())
           else ret ()) s))"
  using assms(1,3,4)
proof (induction slas arbitrary: s pre)
  case (Cons sla slas)
  let ?body = "\<lambda>sla. if SLA_Name sla \<in> B then ret ()
      else let deadline = R_CreatedAt run + SLA_Duration sla
        in if deadline < tm then
             bnd (ignore (emit run (SLABreached (SLA_Name sla) (R_Current run)))) (\<lambda>_.
               if SLA_OnBreach sla \<noteq> [] then ignore (jumpTo (dispatch n) run def (SLA_OnBreach sla)) else ret ())
           else ret ()"
  show ?case
  proof (cases "SLA_Name sla \<notin> B \<and> R_CreatedAt run + SLA_Duration sla < tm")
    case False
    then have "?body sla = ret ()" by (auto simp: Let_def)
    then show ?thesis using Cons.IH [OF Cons.prems(1) _ Cons.prems(3)] Cons.prems(2) False
      by (simp only: for_each.simps ret_bnd filter.simps if_False)
  next
    case True
    obtain t where t: "ignore (emit run (SLABreached (SLA_Name sla) (R_Current run))) s = (Ok (), t)"
        "emits r [SLABreached (SLA_Name sla) (R_Current run)] s t"
      using ignore_emit [OF Cons.prems(1) assms(2)] by blast
    have w: "G_world t = G_world s" using emits_world [OF t(2)] by simp
    have av: "available (G_world t)" using w Cons.prems(1) by simp
    show ?thesis
    proof (cases pre)
      case Nil
      with True Cons.prems(2) have esc: "sla = esc" by simp
      have one: "?body sla s = ignore (jumpTo (dispatch n) run def (SLA_OnBreach esc)) t"
        using True assms(5) t(1) by (simp add: esc bnd_run)
      obtain k where "begins r (if in_progress run (SLA_OnBreach esc) then []
          else sched_payloads sd (SLA_OnBreach esc) (clock (G_world s) k)) t (snd (?body sla s))"
        using jumpTo_begins [OF av assms(2,6,7), of n, unfolded w] unfolding one snd_ignore by blast
      from begins_trans [OF t(2) this] have b: "begins r (flags run (pre @ [esc]) @ (if in_progress run (SLA_OnBreach esc) then []
          else sched_payloads sd (SLA_OnBreach esc) (clock (G_world s) k))) s (snd (?body sla s))"
        by (simp add: Nil esc flags_def)
      have "keeps (adds (on_run r (\<lambda>_. False))) (for_each slas ?body)"
        unfolding Let_def
        by (intro ad.keeps_for_each ad.keeps_if ad.keeps_ret ad.keeps_bnd ad.keeps_ignore adds_emit_quiet
            adds_jumpTo assms(2)) (simp add: dispatch_payload_def)
      from begins_bnd [where m = "?body sla", OF b this] show ?thesis by (auto simp only: for_each.simps)
    next
      case (Cons p pre')
      with True Cons.prems(2) have p: "p = sla" "filter (\<lambda>sla. SLA_Name sla \<notin> B \<and> R_CreatedAt run + SLA_Duration sla < tm) slas =
          pre' @ esc # post" by simp_all
      have "SLA_OnBreach sla = []" using Cons.prems(3) Cons p(1) by simp
      then have one: "?body sla s = (Ok (), t)" using True t(1) by (simp add: bnd_run)
      have "\<forall>sla \<in> set pre'. SLA_OnBreach sla = []" using Cons.prems(3) Cons by simp
      from Cons.IH [OF av p(2) this] obtain k where
        k: "begins r (flags run (pre' @ [esc]) @ (if in_progress run (SLA_OnBreach esc) then []
          else sched_payloads sd (SLA_OnBreach esc) (clock (G_world s) k))) t (snd (for_each slas ?body t))"
        unfolding w by blast
      have "snd (for_each (sla # slas) ?body s) = snd (for_each slas ?body t)"
        using one by (simp only: for_each.simps bnd_run prod.case res.case)
      with begins_trans [OF t(2) k] show ?thesis by (auto simp only: Cons p(1) flags_def append_Cons list.map append_Nil)
    qed
  qed
qed simp

lemma CheckSLA_first:
  assumes l: "live s r run def" and st: "R_Status run = RunStatusActive \<or> R_Status run = RunStatusWaiting"
    and od: "overdue run def (History (G_log s) r) (clock (G_world s) (Suc (G_ticks s))) = pre @ esc # post"
    and esc: "\<forall>sla \<in> set pre. SLA_OnBreach sla = []" "SLA_OnBreach esc \<noteq> []"
      "Step def (SLA_OnBreach esc) = Some sd" "step_ready sd"
  shows "\<exists>k. begins r (flags run (pre @ [esc]) @ (if in_progress run (SLA_OnBreach esc) then []
      else sched_payloads sd (SLA_OnBreach esc) (clock (G_world s) k))) s (snd (CheckSLA (dispatch n) run def s))"
proof -
  let ?s = "tick_of (tick_of s)" and ?tm = "clock (G_world s) (Suc (G_ticks s))"
  let ?B = "set (breached_names (History (G_log s) r))"
  note av = live_available [OF l]
  have h: "attempt (log_History r) s = (Ok (Inr (History (G_log s) r)), tick_of s)"
    by (simp add: log_History_def reading_available [OF av] attempt_run)
  have now: "now (tick_of s) = (Ok ?tm, ?s)" by (simp add: now_def sample_def)
  have q: "adds (\<lambda>_ _. False) s ?s" by (rule adds_same_log) simp_all
  have world_ticks: "G_world ?s = G_world s" by simp
  have "available (G_world ?s)" using av by simp
  from CheckSLA_escalates [OF this live_ID [OF l] od [unfolded overdue_def] esc, of n] obtain k where
    k: "begins r (flags run (pre @ [esc]) @ (if in_progress run (SLA_OnBreach esc) then []
      else sched_payloads sd (SLA_OnBreach esc) (clock (G_world s) k))) ?s
     (snd (for_each (W_SLAs def) (\<lambda>sla.
      if SLA_Name sla \<in> ?B then ret ()
      else let deadline = R_CreatedAt run + SLA_Duration sla
        in if deadline < ?tm then
             bnd (ignore (emit run (SLABreached (SLA_Name sla) (R_Current run)))) (\<lambda>_.
               if SLA_OnBreach sla \<noteq> [] then ignore (jumpTo (dispatch n) run def (SLA_OnBreach sla)) else ret ())
           else ret ()) ?s))" unfolding world_ticks by blast
  have "W_SLAs def \<noteq> []" using od by (auto simp: overdue_def)
  then have c: "CheckSLA (dispatch n) run def s = for_each (W_SLAs def) (\<lambda>sla.
      if SLA_Name sla \<in> ?B then ret ()
      else let deadline = R_CreatedAt run + SLA_Duration sla
        in if deadline < ?tm then
             bnd (ignore (emit run (SLABreached (SLA_Name sla) (R_Current run)))) (\<lambda>_.
               if SLA_OnBreach sla \<noteq> [] then ignore (jumpTo (dispatch n) run def (SLA_OnBreach sla)) else ret ())
           else ret ()) ?s"
    using st by (auto simp: CheckSLA_def live_ID [OF l] bnd_run h now)
  show ?thesis using begins_quiet [OF q k] unfolding c by blast
qed

section \<open>Properties\<close>

text \<open>
  (C21) A delay holds until its time and then fires once per pass: before it is due dispatching
  the step appends nothing; from then on it appends TIMER_FIRED and STEP_COMPLETED and goes on to
  the next step, or ends the run.
\<close>

theorem delay_waits_then_fires:
  assumes "live s r run def" "waiting_until run nm due" "Step def nm = Some sd" "can_follow def (SD_Next sd)"
  shows "if clock (G_world s) (G_ticks s) < due
    then \<exists>t. dispatch_step (dispatch n) run def nm s = (Ok (), t) \<and> emits r [] s t
    else \<exists>k. begins r ([TimerFired nm, StepCompletedP nm None] @
      follow run def nm (SD_Next sd) True (clock (G_world s) k)) s (snd (dispatch_step (dispatch n) run def nm s))"
proof (cases "clock (G_world s) (G_ticks s) < due")
  case True
  then show ?thesis using emits_none [OF adds_tick] by (simp add: dispatch_step_delay [OF assms(2)])
next
  case False
  have l: "live (tick_of s) r run def" by (rule live_quiet [OF assms(1) adds_tick])
  have "step_of run nm \<noteq> None" using assms(2) by (auto simp: waiting_until_def)
  from fireTimer_begins [OF l this assms(3,4), of n] False begins_quiet [OF adds_tick] show ?thesis
    by (fastforce simp: dispatch_step_delay [OF assms(2)] snd_ignore)
qed

lemma flagged_run:
  assumes "payloads new = flags run slas"
  shows "R_CreatedAt (applyAll rn def new) = R_CreatedAt rn \<and> R_Status (applyAll rn def new) = R_Status rn"
  using assms
proof (induction slas arbitrary: new rn)
  case Nil
  then show ?case by (simp add: flags_def payloads_def)
next
  case (Cons sla slas)
  then obtain e es where "new = e # es" "payloads es = flags run slas"
      "E_Payload e = SLABreached (SLA_Name sla) (R_Current run)"
    by (cases new) (auto simp: flags_def payloads_def)
  with Cons.IH [of es "applyOne def rn e"] show ?case by (simp add: applyOne_def Let_def)
qed

lemma in_breached_names: "n \<in> set (breached_names es) \<longleftrightarrow> (\<exists>stp. SLABreached n stp \<in> set (payloads es))"
proof -
  have "n \<in> set (List.map_filter breach_name ps) \<longleftrightarrow> (\<exists>stp. SLABreached n stp \<in> set ps)" for ps
    by (induction ps) (auto simp: List.map_filter_simps elim: breach_name.elims split: option.splits)
  then show ?thesis by (simp add: breached_names_def)
qed

text \<open>
  (C22) CheckSLA flags the SLAs that are overdue and not flagged yet, in the order of the definition.
  While none of those names a step to go to, it flags all of them and appends nothing else, and
  checking the run again at a time that is not later flags none of them again. The first that names
  one is flagged after those before it, and then that step is scheduled, unless it is in progress;
  what follows is what dispatching the run appends.
\<close>

theorem CheckSLA_exact:
  assumes "live s r run def" "R_Status run = RunStatusActive \<or> R_Status run = RunStatusWaiting"
    and "od = overdue run def (History (G_log s) r) (clock (G_world s) (Suc (G_ticks s)))"
  shows "((\<forall>sla \<in> set od. SLA_OnBreach sla = []) \<longrightarrow>
      (\<exists>t run'. CheckSLA (dispatch n) run def s = (Ok (), t) \<and> live t r run' def \<and> emits r (flags run od) s t \<and>
        (clock (G_world s) (Suc (G_ticks t)) \<le> clock (G_world s) (Suc (G_ticks s)) \<longrightarrow>
          (\<exists>u. CheckSLA (dispatch n) run' def t = (Ok (), u) \<and> emits r [] t u)))) \<and>
    (\<forall>pre esc post sd. od = pre @ esc # post \<and> (\<forall>sla \<in> set pre. SLA_OnBreach sla = []) \<and>
        SLA_OnBreach esc \<noteq> [] \<and> Step def (SLA_OnBreach esc) = Some sd \<and> step_ready sd \<longrightarrow>
      (\<exists>k. begins r (flags run (pre @ [esc]) @ (if in_progress run (SLA_OnBreach esc) then []
          else sched_payloads sd (SLA_OnBreach esc) (clock (G_world s) k))) s (snd (CheckSLA (dispatch n) run def s))))"
proof (intro conjI impI allI)
  assume none: "\<forall>sla \<in> set od. SLA_OnBreach sla = []"
  let ?tm = "clock (G_world s) (Suc (G_ticks s))"
  obtain t where t: "CheckSLA (dispatch n) run def s = (Ok (), t)" "emits r (flags run od) s t"
    using CheckSLA_flags [OF assms(1,2)] none unfolding assms(3) by blast
  have "\<forall>p \<in> set (flags run od). \<forall>x. p \<noteq> TicketCreated x" by (auto simp: flags_def)
  then obtain new where new: "payloads new = flags run od" "live t r (applyAll run def new) def"
    using live_emits [OF assms(1) t(2)] by blast
  let ?run' = "applyAll run def new"
  note same = flagged_run [OF new(1), of run def]
  obtain es where es: "History (G_log t) r = History (G_log s) r @ es" "payloads es = flags run od"
    using t(2) by (auto simp: emits_def)
  have "\<exists>u. CheckSLA (dispatch n) ?run' def t = (Ok (), u) \<and> emits r [] t u"
    if le: "clock (G_world s) (Suc (G_ticks t)) \<le> ?tm"
  proof -
    have "overdue ?run' def (History (G_log t) r) (clock (G_world s) (Suc (G_ticks t))) = []"
      unfolding overdue_def filter_empty_conv
    proof (intro ballI notI, elim conjE)
      fix sla
      assume sla: "sla \<in> set (W_SLAs def)" "SLA_Name sla \<notin> set (breached_names (History (G_log t) r))"
        "R_CreatedAt ?run' + SLA_Duration sla < clock (G_world s) (Suc (G_ticks t))"
      then have "SLA_Name sla \<notin> set (breached_names (History (G_log s) r))"
        by (simp add: in_breached_names es(1))
      with sla(1,3) le same have "sla \<in> set od" by (simp add: overdue_def assms(3))
      then have "SLABreached (SLA_Name sla) (R_Current run) \<in> set (payloads (History (G_log t) r))"
        by (simp add: es flags_def)
      with sla(2) show False by (auto simp: in_breached_names)
    qed
    with CheckSLA_flags [OF new(2), of "dispatch n"] assms(2) same emits_world [OF t(2)] show ?thesis
      by (auto simp: flags_def)
  qed
  with t new(2) show "\<exists>t run'. CheckSLA (dispatch n) run def s = (Ok (), t) \<and> live t r run' def \<and>
      emits r (flags run od) s t \<and> (clock (G_world s) (Suc (G_ticks t)) \<le> ?tm \<longrightarrow>
        (\<exists>u. CheckSLA (dispatch n) run' def t = (Ok (), u) \<and> emits r [] t u))" by blast
next
  fix pre esc post sd
  assume "od = pre @ esc # post \<and> (\<forall>sla \<in> set pre. SLA_OnBreach sla = []) \<and>
    SLA_OnBreach esc \<noteq> [] \<and> Step def (SLA_OnBreach esc) = Some sd \<and> step_ready sd"
  then show "\<exists>k. begins r (flags run (pre @ [esc]) @ (if in_progress run (SLA_OnBreach esc) then []
      else sched_payloads sd (SLA_OnBreach esc) (clock (G_world s) k))) s (snd (CheckSLA (dispatch n) run def s))"
    using CheckSLA_first [OF assms(1,2)] unfolding assms(3) by blast
qed

definition delay_flow :: WorkflowDef where
  "delay_flow = flow [delay_step ''wait'' 10 []] [\<lparr>SLA_Name = ''day'', SLA_Duration = 8, SLA_OnBreach = []\<rparr>]"

definition timer_demo :: Engine where
  "timer_demo = snd (SetClock (\<lambda>_. 20) (created handler_ok delay_flow))"

lemma live_timer_demo: "live timer_demo ''run_0'' (demo_run timer_demo delay_flow) delay_flow"
proof -
  have "timer_demo = perform 3 (ChangeClock (\<lambda>_. 20)) (created handler_ok delay_flow)"
    by (simp add: timer_demo_def)
  moreover have "reachable available 3 (created handler_ok delay_flow)" by (rule reachable_created) simp
  ultimately have "reachable available 3 timer_demo" by (metis next_state engine_step.call)
  from reachable_sound [OF this] show ?thesis
    unfolding live_def demo_run_def timer_demo_def delay_flow_def created_def
    by (auto simp: eval SetClock_def replayed_def def_of_def keys_distinct_single cong: eval_congs)
qed

lemma timer_demo_facts:
  "waiting_until (demo_run timer_demo delay_flow) ''wait'' 15"
  "R_Status (demo_run timer_demo delay_flow) = RunStatusActive" "clock (G_world timer_demo) k = 20"
  "overdue (demo_run timer_demo delay_flow) delay_flow (History (G_log timer_demo) ''run_0'') 20 =
    [\<lparr>SLA_Name = ''day'', SLA_Duration = 8, SLA_OnBreach = []\<rparr>]"
  unfolding waiting_until_def overdue_def demo_run_def timer_demo_def delay_flow_def created_def
  by (simp_all add: eval SetClock_def replayed_def payloads_def cong: eval_congs)

theorem delay_waits_then_fires_witness:
  "begins ''run_0'' [TimerFired ''wait'', StepCompletedP ''wait'' None, RunCompleted ''wait''] timer_demo
    (snd (dispatch_step (dispatch 3) (demo_run timer_demo delay_flow) delay_flow ''wait'' timer_demo))"
proof -
  have sd: "Step delay_flow ''wait'' = Some (delay_step ''wait'' 10 [])"
    "can_follow delay_flow (SD_Next (delay_step ''wait'' 10 []))"
    by (simp_all add: delay_flow_def can_follow_def eval)
  have "\<not> R_Failed (demo_run timer_demo delay_flow)"
    unfolding demo_run_def timer_demo_def delay_flow_def created_def
    by (simp add: eval SetClock_def replayed_def cong: eval_congs)
  with delay_waits_then_fires [OF live_timer_demo timer_demo_facts(1) sd, of 3] timer_demo_facts(3)
  show ?thesis by (simp add: follow_def delay_step_def)
qed

theorem CheckSLA_exact_witness:
  "\<exists>t run' u. CheckSLA (dispatch 3) (demo_run timer_demo delay_flow) delay_flow timer_demo = (Ok (), t) \<and>
    emits ''run_0'' [SLABreached ''day'' (R_Current (demo_run timer_demo delay_flow))] timer_demo t \<and>
    CheckSLA (dispatch 3) run' delay_flow t = (Ok (), u) \<and> emits ''run_0'' [] t u"
proof -
  from CheckSLA_exact [OF live_timer_demo _ refl, of 3] timer_demo_facts(2) show ?thesis
    by (fastforce simp: timer_demo_facts(3,4) flags_def)
qed

end
