(* ===== verification/Engine_Orphans.thy ===== *)
theory Engine_Orphans
  imports Engine_Crash Engine_Timers
begin

text \<open>
  A process that dies inside a task. The log then ends with STEP_STARTED, and nothing brings the run
  on again: dispatch submits the PENDING steps only, and the queue died with the process. The comment
  on WorkerPool (engine/worker.go) says that Recover enqueues the task again.
\<close>

section \<open>A run that nothing moves\<close>

text \<open>Each step is running or finished: none is PENDING, none WAITING.\<close>

definition none_ready :: "WorkflowRun \<Rightarrow> bool" where
  "none_ready run \<longleftrightarrow> (\<forall>nm st. step_of run nm = Some st \<longrightarrow> SS_Status st \<noteq> StepPending \<and> SS_Status st \<noteq> StepWaiting)"

text \<open>The engine without its users: the workers, the timer, Recover, and new processes on the same data.\<close>

inductive unattended :: "nat \<Rightarrow> Engine \<Rightarrow> Engine \<Rightarrow> bool" for n where
  work: "unattended n s (snd (worker_turn n s))"
| tick: "unattended n s (snd (sweep n s))"
| recover: "unattended n s (snd (Recover n s))"
| reboot: "available world \<Longrightarrow> unattended n s (restart workers world s)"

definition orphan :: "run_id \<Rightarrow> WorkflowRun \<Rightarrow> WorkflowDef \<Rightarrow> Event list \<Rightarrow> Engine \<Rightarrow> bool" where
  "orphan r run def h s \<longleftrightarrow> live s r run def \<and> History (G_log s) r = h \<and> tasks_of s r = []"

definition stays :: "run_id \<Rightarrow> WorkflowRun \<Rightarrow> WorkflowDef \<Rightarrow> Event list \<Rightarrow> Engine \<Rightarrow> Engine \<Rightarrow> bool" where
  "stays r run def h s t \<longleftrightarrow> (orphan r run def h s \<longrightarrow> orphan r run def h t)"

interpretation st: frame "stays r run def h" for r run def h
  by unfold_locales (auto simp: stays_def)

lemma stays_quiet: "adds (\<lambda>_ _. False) s t \<Longrightarrow> stays r run def h s t"
  unfolding stays_def orphan_def using live_quiet adds_tasks_of [of "\<lambda>_ _. False" s t r] adds_none_log by metis

lemma stays_none: "keeps (adds (\<lambda>_ _. False)) m \<Longrightarrow> keeps (stays r run def h) m"
  unfolding keeps_def by (blast intro: stays_quiet)

lemma stays_other:
  assumes ad: "adds (on_run i X) s t" and ne: "History (G_log s) i \<noteq> []" "i \<noteq> r"
  shows "stays r run def h s t"
  unfolding stays_def
proof
  assume o: "orphan r run def h s"
  then have l: "live s r run def" by (simp add: orphan_def)
  have "live t r run def" by (rule live_other [OF l ad ne(1)]) (use ne(2) in simp)
  moreover have "History (G_log t) r = History (G_log s) r"
    by (rule adds_other_run [OF ad sound_log [OF live_sound [OF l]]]) (use ne(2) in simp)
  moreover have "tasks_of t r = tasks_of s r"
    by (rule adds_tasks_of [OF ad]) (use ne(2) in \<open>simp add: on_run_def\<close>)
  ultimately show "orphan r run def h t" using o by (simp add: orphan_def)
qed

text \<open>A call that derives another run first.\<close>

lemma stays_GetRun_bnd:
  assumes "keeps (adds (on_run i X)) (bnd (GetRun i) f)" "i \<noteq> r"
  shows "keeps (stays r run def h) (bnd (GetRun i) f)"
proof (rule keepsI)
  fix s
  have whole: "adds (on_run i X) s (snd (bnd (GetRun i) f s))" using assms(1) by (rule keeps_at)
  show "stays r run def h s (snd (bnd (GetRun i) f s))"
  proof (cases rule: bnd_cases [of "GetRun i" s f])
    case (ok x s')
    then have "History (G_log s) i \<noteq> []" by (auto elim: GetRun_OkD)
    then show ?thesis by (rule stays_other [OF whole _ assms(2)])
  qed (use keeps_at [OF stays_none [OF adds_GetRun], of r run def h s i] in simp_all)
qed

section \<open>Dispatching it\<close>

lemma dispatch_none_ready:
  assumes "W_SLAs def = []" "none_ready run"
  shows "keeps (adds (\<lambda>_ _. False)) (dispatch n run def)"
proof (cases n)
  case 0
  then show ?thesis by (simp add: ad.keeps_crash)
next
  case (Suc m)
  have "dispatch_step disp run def nm = ret ()" "dispatch_approval disp run def nm = ret ()" for disp nm
    using assms(2) by (auto simp: none_ready_def dispatch_step_def dispatch_approval_def
        split: option.split StepKind.split)
  then have "for_each ns (dispatch_step disp run def) = ret ()" "for_each ns (dispatch_approval disp run def) = ret ()"
    for ns disp by (simp_all add: for_each_ret)
  moreover have "CheckSLA disp run def = ret ()" for disp using assms(1) by (simp add: CheckSLA_def)
  ultimately show ?thesis
    by (simp only: Suc dispatch.simps dispatch_body_def)
       (intro ad.keeps_if ad.keeps_bnd ad.keeps_ret adds_in_map_order)
qed

lemma revisit_stays:
  assumes "W_SLAs def = []" "none_ready run"
  shows "keeps (stays r run def h) (revisit n i)"
proof (cases "i = r")
  case False
  show ?thesis
    unfolding revisit_def
    by (rule stays_GetRun_bnd [OF adds_GetRun_bnd [OF adds_dispatch_loaded [where X = "\<lambda>_. False"]] False])
next
  case True
  show ?thesis
  proof (rule keepsI)
    fix s
    show "stays r run def h s (snd (revisit n i s))"
    proof (cases "orphan r run def h s")
      case o: True
      then have l: "live s r run def" by (simp add: orphan_def)
      obtain y where y: "GetRun r s = (Ok run, y)" "emits r [] s y" using live_GetRun [OF l] by blast
      have ly: "live y r run def" using live_emits [OF l y(2)] by (auto simp: payloads_def)
      obtain z where z: "loadWorkflow (R_Workflow run) (R_WorkflowVer run) y = (Ok def, z)"
        using live_load [OF ly] by blast
      have "snd (revisit n i s) = snd (dispatch n run def z)"
        by (simp add: revisit_def True bnd_run attempt_run y(1) z)
      moreover have "stays r run def h s y" by (rule keepsD [OF stays_none [OF adds_GetRun] y(1)])
      moreover have "stays r run def h y z" by (rule keepsD [OF stays_none [OF adds_loadWorkflow] z])
      moreover have "stays r run def h z (snd (dispatch n run def z))"
        by (rule keeps_at [OF stays_none [OF dispatch_none_ready [OF assms]]])
      ultimately show ?thesis using st.trans by metis
    qed (simp add: stays_def)
  qed
qed

lemma stays_Recover:
  assumes "W_SLAs def = []" "none_ready run"
  shows "keeps (stays r run def h) (Recover n)"
  unfolding Recover_revisits
  by (intro st.keeps_bnd stays_none [OF adds_log_Runs] st.keeps_for_each revisit_stays assms)

lemma stays_sweep:
  assumes "W_SLAs def = []" "none_ready run"
  shows "keeps (stays r run def h) (sweep n)"
proof -
  have one: "keeps (stays r run def h) (bnd (attempt (GetRun i)) (\<lambda>x. case x of Inl e \<Rightarrow> ret ()
      | Inr run \<Rightarrow> bnd (attempt (loadWorkflow (R_Workflow run) (R_WorkflowVer run))) (\<lambda>d.
          case d of Inl e \<Rightarrow> ret () | Inr def \<Rightarrow> dispatch n run def)))" for i
    using revisit_stays [OF assms] unfolding keeps_def revisit_def snd_attempt_bnd by blast
  show ?thesis
    unfolding sweep_def
    by (intro st.keeps_bnd st.keeps_attempt stays_none [OF adds_log_Runs] st.keeps_sum st.keeps_ret
         st.keeps_for_each one)
qed

section \<open>The workers and new processes\<close>

lemma stays_worker_turn: "stays r run def h s (snd (worker_turn n s))"
proof -
  obtain x t where t: "take_task s = (x, t)" by fastforce
  have same: "G_log t = G_log s" "G_store t = G_store s" "G_world t = G_world s" "G_workflows t = G_workflows s"
    and tasks: "set (P_tasks (G_pool t)) \<subseteq> set (P_tasks (G_pool s))"
    and item: "x = Ok (Run item) \<Longrightarrow> item \<in> set (P_tasks (G_pool s))" for item
    using t by (auto simp: take_task_def bnd_def sample_def loop_turn_def split: prod.splits list.splits if_splits)
  have st: "stays r run def h s t"
    unfolding stays_def
  proof
    assume o: "orphan r run def h s"
    then have l: "live s r run def" by (simp add: orphan_def)
    have "sound t" by (rule sound_cong [OF live_sound [OF l]]) (simp_all add: same live_available [OF l])
    then have "live t r run def" by (rule live_same [OF l]) (simp_all add: same)
    with o tasks show "orphan r run def h t" by (auto simp: orphan_def same tasks_of_def filter_empty_conv)
  qed
  show ?thesis
  proof (cases "\<exists>item. x = Ok (Run item)")
    case True
    then obtain it where it: "x = Ok (Run it)" ..
    have "stays r run def h t (snd (executeTask n it t))" if "orphan r run def h s"
    proof -
      have "TI_RunID it \<noteq> r" using that item [OF it] by (auto simp: orphan_def tasks_of_def filter_empty_conv)
      then have "keeps (stays r run def h) (executeTask n it)"
        unfolding executeTask_def by (rule stays_GetRun_bnd [OF adds_executeTask [unfolded executeTask_def]])
      then show ?thesis by (rule keeps_at)
    qed
    moreover have "snd (worker_turn n s) = snd (executeTask n it t)"
      by (simp add: worker_turn_def bnd_run t it snd_ignore)
    ultimately show ?thesis using st by (auto simp: stays_def)
  next
    case False
    then have "snd (worker_turn n s) = t"
      by (cases x; cases "case x of Ok y \<Rightarrow> y | _ \<Rightarrow> undefined")
         (auto simp: worker_turn_def bnd_def t ret_def split: turn.splits)
    with st show ?thesis by simp
  qed
qed

lemma orphan_restart:
  assumes "live s r run def" "available world"
  shows "orphan r run def (History (G_log s) r) (restart workers world s)"
proof -
  have t: "sound (restart workers world s)" by (rule sound_restart [OF live_sound [OF assms(1)] assms(2)])
  have "live (restart workers world s) r run def"
    by (rule live_same [OF assms(1) t]) (simp_all add: restart_def NewEngine_def)
  then show ?thesis by (simp add: orphan_def tasks_of_def restart_def NewEngine_def NewWorkerPool_def)
qed

lemma stays_unattended:
  assumes "W_SLAs def = []" "none_ready run" "unattended n s t"
  shows "stays r run def h s t"
  using assms(3)
proof cases
  case work
  then show ?thesis by (simp add: stays_worker_turn)
next
  case tick
  then show ?thesis using keeps_at [OF stays_sweep [OF assms(1,2)]] by simp
next
  case recover
  then show ?thesis using keeps_at [OF stays_Recover [OF assms(1,2)]] by simp
next
  case (reboot world workers)
  then show ?thesis using orphan_restart by (auto simp: stays_def) (auto simp: orphan_def)
qed

text \<open>
  (C20) A task that was started when its process died is lost: when a step of an unfinished run is
  RUNNING, no other step is PENDING or WAITING and the workflow has no SLA, then after the restart no
  sequence of recoveries, sweeps, worker turns and further restarts ever queues a task of the run or
  appends to it; it is derived as ACTIVE with the step RUNNING for good.
\<close>

theorem started_task_is_lost:
  assumes "live s r run def" "W_SLAs def = []" "R_Status run = RunStatusActive" "none_ready run"
    and "step_of run nm = Some st" "SS_Status st = StepRunning"
    and "available world" "(unattended n)\<^sup>*\<^sup>* (restart workers world s) t"
  shows "filter (\<lambda>i. TI_RunID i = r) (P_tasks (G_pool t)) = [] \<and> History (G_log t) r = History (G_log s) r \<and>
    (\<exists>u. GetRun r t = (Ok run, u)) \<and> R_Status run = RunStatusActive \<and>
    map_option SS_Status (step_of run nm) = Some StepRunning"
proof -
  have "stays r run def (History (G_log s) r) (restart workers world s) t"
    using assms(8) by induction (auto intro: st.refl st.trans stays_unattended [OF assms(2,4)])
  with orphan_restart [OF assms(1,7)] have "orphan r run def (History (G_log s) r) t" by (simp add: stays_def)
  with live_GetRun [of t r run def] assms(3,5,6) show ?thesis by (auto simp: orphan_def tasks_of_def)
qed

text \<open>A task whose result cannot be written as JSON ends the process after STEP_STARTED.\<close>

definition handler_nan :: TaskHandler where
  "handler_nan = (\<lambda>n run step flds. Inr (Some [(''x'', VFloat64 NaN)]))"

definition dead_demo :: Engine where
  "dead_demo = snd (worker_turn 3 (task_demo handler_nan))"

lemma dead_demo_crash: "fst (worker_turn 3 (task_demo handler_nan)) = Crash JsonPanic"
  unfolding eval_created handler_nan_def by (simp add: eval cong: eval_congs)

lemma reachable_dead_demo: "reachable available 3 dead_demo"
  unfolding dead_demo_def
  by (intro next_state [OF _ engine_step.work] reachable_task_demo) (simp_all add: demo_workers)

lemma live_dead_demo: "live dead_demo ''run_0'' (demo_run dead_demo task_flow) task_flow"
  unfolding live_def demo_run_def
proof (intro conjI)
  show "sound dead_demo" by (rule reachable_sound [OF reachable_dead_demo])
  show "keys_distinct (G_store dead_demo)"
    unfolding dead_demo_def eval_created handler_nan_def
    by (simp add: eval keys_distinct_single cong: eval_congs)
qed (simp_all add: dead_demo_def handler_nan_def eval_created eval replayed_def def_of_def cong: eval_congs)

theorem started_task_is_lost_witness:
  "\<exists>run u. GetRun ''run_0'' (snd (worker_turn 3 (snd (Recover 3 (restart 4 (calm (\<lambda>_. 9)) dead_demo))))) = (Ok run, u) \<and>
     R_Status run = RunStatusActive \<and> map_option SS_Status (step_of run ''a'') = Some StepRunning"
proof -
  let ?run = "demo_run dead_demo task_flow" and ?s = "restart 4 (calm (\<lambda>_. 9)) dead_demo"
  have run: "R_Status ?run = RunStatusActive" "\<exists>st. R_Steps ?run = [(''a'', st)] \<and> SS_Status st = StepRunning"
    by (simp_all add: dead_demo_def handler_nan_def eval_run cong: eval_congs)
  then obtain st where st: "step_of ?run ''a'' = Some st" "SS_Status st = StepRunning" "none_ready ?run"
    by (auto simp: none_ready_def step_of_def)
  have "(unattended 3)\<^sup>*\<^sup>* ?s (snd (worker_turn 3 (snd (Recover 3 ?s))))"
    by (rule rtranclp.rtrancl_into_rtrancl [OF rtranclp.rtrancl_into_rtrancl [OF rtranclp.rtrancl_refl]],
        rule unattended.recover, rule unattended.work)
  from started_task_is_lost [OF live_dead_demo _ run(1) st(3,1,2) available_calm this] run(1)
  show ?thesis by (auto simp: task_flow_def flow_def)
qed

end
