(* ===== verification/Engine_Termination.thy ===== *)
theory Engine_Termination
  imports Engine_Timers
begin

text \<open>
  Dispatching ends. Each nested call of dispatch follows an event that takes something from what is
  urgent: a delay that is due is completed, a granted approval is completed or asks its next link, a
  breached SLA is flagged. When no delay can elapse during the call, nothing urgent is added, so the
  nesting is at most the number of the steps and SLAs of the workflow.
\<close>

section \<open>What is urgent\<close>

text \<open>\<open>T\<close> is a time that the clock does not reach during the call.\<close>

definition urgent :: "time \<Rightarrow> StepState \<Rightarrow> bool" where
  "urgent T st \<longleftrightarrow> SS_Status st = StepWaiting \<and>
     (SS_Kind st = KindDelay \<and> (\<exists>d < T. SS_DueAt st = Some d) \<or>
      SS_Kind st = KindApproval \<and> (\<exists>a. SS_Approval st = Some a \<and> AS_Status a = Granted))"

definition urgent_steps :: "time \<Rightarrow> WorkflowRun \<Rightarrow> string set" where
  "urgent_steps T run = {n. pred_option (urgent T) (step_of run n) \<and> step_of run n \<noteq> None}"

lemma urgent_stepsI: "step_of run n = Some st \<Longrightarrow> urgent T st \<Longrightarrow> n \<in> urgent_steps T run"
  by (simp add: urgent_steps_def)

lemma urgent_stepsD: "n \<in> urgent_steps T run \<Longrightarrow> \<exists>st. step_of run n = Some st \<and> urgent T st"
  by (auto simp: urgent_steps_def)

text \<open>The clock stays below \<open>T\<close>, and every delay of the workflow, begun at any time of it, ends later.\<close>

definition steady :: "time \<Rightarrow> World \<Rightarrow> WorkflowDef \<Rightarrow> bool" where
  "steady T w def \<longleftrightarrow> (\<forall>k. 0 < clock w k \<and> clock w k < T) \<and>
     (\<forall>sd \<in> set (W_Steps def). \<forall>d. SD_Delay sd = Some d \<longrightarrow> (\<forall>k. T \<le> clock w k + DD_Duration d))"

lemma steadyD:
  assumes "steady T w def"
  shows "0 < clock w k" "clock w k < T"
    and "Step def nm = Some sd \<Longrightarrow> SD_Delay sd = Some d \<Longrightarrow> T \<le> clock w k + DD_Duration d"
  using assms unfolding steady_def by (auto dest: Step_SomeD)

section \<open>Events and what is urgent\<close>

lemma urgent_other:
  assumes "\<And>n. step_upd def n (E_Payload ev) (step_of run n) = step_of run n"
  shows "urgent_steps T (applyOne def run ev) = urgent_steps T run"
  by (simp add: urgent_steps_def step_of_applyOne assms)

lemma urgent_completed:
  "E_Payload ev = StepCompletedP n out \<Longrightarrow>
    urgent_steps T (applyOne def run ev) = urgent_steps T run - {n}"
  by (auto simp: urgent_steps_def step_of_applyOne urgent_def)

lemma run_ok_kind: "run_ok def run \<Longrightarrow> step_of run n = Some st \<Longrightarrow> SS_Kind st = step_kind def n"
  by (simp add: run_ok_def)

lemma ensured_kind:
  "run_ok def run \<Longrightarrow> SS_Kind (ensured def n s (step_of run n)) = step_kind def n"
  by (cases "step_of run n") (simp_all add: new_step_def run_ok_kind)

lemma urgent_requested:
  assumes "run_ok def run" "E_Payload ev = ApprovalRequested n idx role user k" "step_kind def n = KindApproval"
  shows "urgent_steps T (applyOne def run ev) = urgent_steps T run - {n}"
  using assms ensured_kind [OF assms(1), of n StepWaiting]
  by (auto simp: urgent_steps_def step_of_applyOne urgent_def request_def split: option.splits)

lemma urgent_scheduled_delay:
  assumes "run_ok def run" "E_Payload ev = StepScheduled n KindDelay due" "step_kind def n = KindDelay"
    "T \<le> due" "due \<noteq> 0"
  shows "urgent_steps T (applyOne def run ev) = urgent_steps T run - {n}"
  using assms ensured_kind [OF assms(1), of n StepPending]
  by (auto simp: urgent_steps_def step_of_applyOne urgent_def due_upd_def)

lemma urgent_scheduled_other:
  assumes "run_ok def run" "E_Payload ev = StepScheduled n k due" "step_kind def n \<noteq> KindDelay"
    "step_kind def n \<noteq> KindApproval"
  shows "urgent_steps T (applyOne def run ev) = urgent_steps T run - {n}"
  using assms ensured_kind [OF assms(1), of n StepPending]
  by (auto simp: urgent_steps_def step_of_applyOne urgent_def due_upd_def)

lemma urgent_scheduled_approval:
  assumes "run_ok def run" "E_Payload ev = StepScheduled n KindApproval due" "step_kind def n = KindApproval"
    "\<exists>st a. step_of run n = Some st \<and> SS_Approval st = Some a \<and> AS_Status a \<noteq> Granted"
  shows "urgent_steps T (applyOne def run ev) = urgent_steps T run - {n}"
  using assms run_ok_kind [OF assms(1), of n]
  by (auto simp: urgent_steps_def step_of_applyOne urgent_def due_upd_def)

lemma step_kind_Some: "Step def nm = Some sd \<Longrightarrow> step_kind def nm = SD_Kind sd"
  by (simp add: step_kind_def)

lemma payloads_one: "payloads new = [p] \<Longrightarrow> \<exists>e. new = [e] \<and> E_Payload e = p"
  by (cases new) (auto simp: payloads_def)

lemma payloads_two: "payloads new = [p, q] \<Longrightarrow> \<exists>e f. new = [e, f] \<and> E_Payload e = p \<and> E_Payload f = q"
  by (cases new; cases "tl new") (auto simp: payloads_def)

lemma urgent_sched:
  assumes ok: "run_ok def run" and sd: "Step def nm = Some sd" "step_ready sd" and w: "steady T w def"
    and new: "payloads new = sched_payloads sd nm (clock w k)"
  shows "urgent_steps T (applyAll run def new) \<subseteq> urgent_steps T run"
proof (cases "SD_Kind sd")
  case KindDelay
  with sd obtain d where d: "SD_Delay sd = Some d" by (auto simp: step_ready_def)
  with KindDelay new obtain e where e: "new = [e]"
      "E_Payload e = StepScheduled nm KindDelay (clock w k + DD_Duration d)"
    by (auto simp: sched_payloads_def dest: payloads_one)
  have "T \<le> clock w k + DD_Duration d" "clock w k + DD_Duration d \<noteq> 0"
    using steadyD(3) [OF w sd(1) d, of k] steadyD(1,2) [OF w, of k] by simp_all
  with KindDelay ok e step_kind_Some [OF sd(1)] urgent_scheduled_delay show ?thesis by simp
next
  case KindApproval
  let ?chain = "AD_Chain (the (SD_Approval sd))"
  from KindApproval new obtain e f where ef: "new = [e, f]"
      "E_Payload e = ApprovalRequested nm 0 (A_Role (hd ?chain)) (A_User (hd ?chain)) (int (length ?chain))"
      "E_Payload f = StepScheduled nm KindApproval 0"
    by (auto simp: sched_payloads_def Let_def dest!: payloads_two)
  have kind: "step_kind def nm = KindApproval" using KindApproval step_kind_Some [OF sd(1)] by simp
  have "urgent_steps T (applyOne def run e) = urgent_steps T run - {nm}"
    using urgent_requested [OF ok ef(2) kind] .
  moreover have "\<exists>st a. step_of (applyOne def run e) nm = Some st \<and> SS_Approval st = Some a \<and> AS_Status a \<noteq> Granted"
    using ef(2) by (auto simp: step_of_applyOne request_def split: option.split)
  with urgent_scheduled_approval [OF run_ok_applyOne [OF ok] ef(3) kind]
  have "urgent_steps T (applyOne def (applyOne def run e) f) = urgent_steps T (applyOne def run e) - {nm}"
    by blast
  ultimately show ?thesis using ef(1) by auto
next
  case KindTask
  with new obtain e where e: "new = [e]" "E_Payload e = StepScheduled nm KindTask 0"
    by (auto simp: sched_payloads_def dest: payloads_one)
  with KindTask ok step_kind_Some [OF sd(1)] urgent_scheduled_other [of def run e nm KindTask] show ?thesis by simp
next
  case (KindOther x)
  with new obtain e where e: "new = [e]" "E_Payload e = StepScheduled nm (KindOther x) 0"
    by (auto simp: sched_payloads_def dest: payloads_one)
  with KindOther ok step_kind_Some [OF sd(1)] urgent_scheduled_other [of def run e nm "KindOther x"] show ?thesis
    by simp
qed

section \<open>States from which a run goes on\<close>

definition urgent_in :: "time \<Rightarrow> run_id \<Rightarrow> WorkflowDef \<Rightarrow> Engine \<Rightarrow> string set" where
  "urgent_in T r def s = urgent_steps T (replayed r def (History (G_log s) r))"

definition open_slas :: "run_id \<Rightarrow> WorkflowDef \<Rightarrow> Engine \<Rightarrow> string set" where
  "open_slas r def s = SLA_Name ` set (W_SLAs def) - set (breached_names (History (G_log s) r))"

definition weight :: "time \<Rightarrow> run_id \<Rightarrow> WorkflowDef \<Rightarrow> Engine \<Rightarrow> nat" where
  "weight T r def s = card (urgent_in T r def s) + card (open_slas r def s)"

definition alive :: "run_id \<Rightarrow> WorkflowDef \<Rightarrow> Engine \<Rightarrow> bool" where
  "alive r def s \<longleftrightarrow> live s r (replayed r def (History (G_log s) r)) def"

text \<open>\<open>calms T r def s t\<close>: nothing is urgent in \<open>t\<close> that was not urgent in \<open>s\<close>.\<close>

definition calms :: "time \<Rightarrow> run_id \<Rightarrow> WorkflowDef \<Rightarrow> Engine \<Rightarrow> Engine \<Rightarrow> bool" where
  "calms T r def s t \<longleftrightarrow> alive r def t \<and> G_world t = G_world s \<and>
     urgent_in T r def t \<subseteq> urgent_in T r def s \<and> open_slas r def t \<subseteq> open_slas r def s"

lemma calms_trans: "calms T r def s t \<Longrightarrow> calms T r def t u \<Longrightarrow> calms T r def s u"
  unfolding calms_def by auto

lemma calms_refl: "alive r def s \<Longrightarrow> calms T r def s s"
  by (simp add: calms_def)

lemma live_alive: "live s r run def \<Longrightarrow> alive r def s \<and> run = replayed r def (History (G_log s) r)"
  using live_parts(5) by (auto simp: alive_def)

lemma finite_urgent: "finite (urgent_in T r def s)"
proof -
  let ?steps = "R_Steps (replayed r def (History (G_log s) r))"
  have "urgent_in T r def s \<subseteq> fst ` set ?steps"
    unfolding urgent_in_def urgent_steps_def step_of_def
    by (auto dest: map_of_SomeD simp: rev_image_eqI)
  then show ?thesis by (rule finite_subset) simp
qed

lemma finite_open: "finite (open_slas r def s)"
  by (simp add: open_slas_def)

lemma weight_le: "calms T r def s t \<Longrightarrow> weight T r def t \<le> weight T r def s"
  unfolding weight_def calms_def
  by (intro add_mono card_mono finite_urgent finite_open) auto

lemma weight_urgent:
  assumes "calms T r def s t" "n \<in> urgent_in T r def s" "n \<notin> urgent_in T r def t"
  shows "weight T r def t < weight T r def s"
proof -
  have "card (urgent_in T r def t) < card (urgent_in T r def s)"
    by (rule psubset_card_mono [OF finite_urgent]) (use assms in \<open>auto simp: calms_def\<close>)
  moreover have "card (open_slas r def t) \<le> card (open_slas r def s)"
    by (rule card_mono [OF finite_open]) (use assms(1) in \<open>simp add: calms_def\<close>)
  ultimately show ?thesis by (simp add: weight_def)
qed

lemma weight_open:
  assumes "calms T r def s t" "n \<in> open_slas r def s" "n \<notin> open_slas r def t"
  shows "weight T r def t < weight T r def s"
proof -
  have "card (open_slas r def t) < card (open_slas r def s)"
    by (rule psubset_card_mono [OF finite_open]) (use assms in \<open>auto simp: calms_def\<close>)
  moreover have "card (urgent_in T r def t) \<le> card (urgent_in T r def s)"
    by (rule card_mono [OF finite_urgent]) (use assms(1) in \<open>simp add: calms_def\<close>)
  ultimately show ?thesis by (simp add: weight_def)
qed

lemma calms_emits:
  assumes s: "alive r def s" and e: "emits r ps s t" and ps: "\<forall>p \<in> set ps. \<forall>x. p \<noteq> TicketCreated x"
    and X: "\<And>run new. run_ok def run \<Longrightarrow> payloads new = ps \<Longrightarrow>
      urgent_steps T (applyAll run def new) \<subseteq> urgent_steps T run - X"
  shows "calms T r def s t \<and> urgent_in T r def t \<inter> X = {} \<and>
    (\<forall>n stp. SLABreached n stp \<in> set ps \<longrightarrow> n \<notin> open_slas r def t)"
proof -
  let ?run = "replayed r def (History (G_log s) r)"
  have l: "live s r ?run def" using s by (simp add: alive_def)
  obtain new where new: "payloads new = ps" "History (G_log t) r = History (G_log s) r @ new"
    using e by (auto simp: emits_def)
  obtain new' where "live t r (applyAll ?run def new') def"
    using live_emits [OF l e ps] by blast
  then have t: "alive r def t" using live_alive by blast
  have "replayed r def (History (G_log t) r) = applyAll ?run def new"
    using live_parts(3) [OF l] by (simp add: replayed_def new(2) applyAll_append)
  moreover have "run_ok def ?run" unfolding replayed_def by (rule run_ok_applyAll [OF run_ok_new])
  ultimately have "urgent_in T r def t \<subseteq> urgent_in T r def s - X"
    using X [OF _ new(1)] by (simp add: urgent_in_def)
  moreover have "set (breached_names (History (G_log t) r)) =
      set (breached_names (History (G_log s) r)) \<union> {n. \<exists>stp. SLABreached n stp \<in> set ps}"
    using new by (auto simp: in_breached_names)
  ultimately show ?thesis
    using t emits_world [OF e] by (auto simp: calms_def open_slas_def)
qed

section \<open>Calls that keep the run calm\<close>

definition upholds :: "time \<Rightarrow> run_id \<Rightarrow> WorkflowDef \<Rightarrow> World \<Rightarrow> (Engine \<Rightarrow> bool) \<Rightarrow> bool" where
  "upholds T r def w I \<longleftrightarrow>
     (\<forall>s. I s \<longrightarrow> alive r def s \<and> G_world s = w \<and> (\<forall>t. calms T r def s t \<longrightarrow> I t))"

lemma upholdsD:
  assumes "upholds T r def w I" "I s"
  shows "alive r def s" "G_world s = w" "calms T r def s t \<Longrightarrow> I t"
  using assms unfolding upholds_def by blast+

lemma stable_calms: "alive r def s0 \<Longrightarrow> upholds T r def (G_world s0) (calms T r def s0)"
  unfolding upholds_def by (auto simp: calms_def)

lemma stable_below:
  "alive r def s0 \<Longrightarrow> upholds T r def (G_world s0) (\<lambda>t. calms T r def s0 t \<and> weight T r def t < m)"
proof -
  assume "alive r def s0"
  have "alive r def s \<and> G_world s = G_world s0" if "calms T r def s0 s" for s
    using that by (simp add: calms_def)
  moreover have "weight T r def t < m" if "calms T r def s t" "weight T r def s < m" for s t
    using weight_le [OF that(1)] that(2) by simp
  ultimately show ?thesis unfolding upholds_def by (blast intro: calms_trans)
qed

lemma returns_OkI: "(\<And>s. I s \<Longrightarrow> \<exists>x t. m s = (Ok x, t) \<and> J x t) \<Longrightarrow> returns I m J"
  by (rule returnsI; drule meta_spec; drule (1) meta_mp; elim exE conjE; simp)

lemma returns_ErrI: "(\<And>s. I s \<Longrightarrow> \<exists>e t. m s = (Err e, t) \<and> I t) \<Longrightarrow> returns I m J"
  by (rule returnsI; drule meta_spec; drule (1) meta_mp; elim exE conjE; simp)

lemma alive_available: "alive r def s \<Longrightarrow> available (G_world s)"
  unfolding alive_def by (rule live_available)

lemma stable_emits_none:
  assumes "upholds T r def w I" "I s" "emits r [] s t"
  shows "I t"
proof (rule upholdsD(3) [OF assms(1,2)])
  have "urgent_steps T (applyAll run def new) \<subseteq> urgent_steps T run - {}" if "payloads new = []" for run new
    using that by (simp add: payloads_def)
  then show "calms T r def s t"
    using calms_emits [OF upholdsD(1) [OF assms(1,2)] assms(3), of T "{}"] by simp
qed

text \<open>A program that appends nothing and returns.\<close>

lemma returns_quiet:
  assumes "upholds T r def w I" "keeps (adds (\<lambda>_ _. False)) m" "\<And>s c. fst (m s) \<noteq> Crash c"
  shows "returns I m (\<lambda>_. I)"
proof -
  have "I t" if "I s" "m s = (x, t)" for s t x
    by (rule stable_emits_none [OF assms(1) that(1)], rule emits_none)
       (use keeps_at [OF assms(2), of s] that(2) in simp)
  then show ?thesis using assms(3) by (intro returnsI) (auto, metis fst_conv)
qed

lemma reading_no_crash: "(\<And>s c. fst (m s) \<noteq> Crash c) \<Longrightarrow> fst (reading m s) \<noteq> Crash c"
  by (auto simp: reading_def bnd_def sample_def fail_def)

lemma returns_now: "upholds T r def w I \<Longrightarrow> returns I now (\<lambda>_. I)"
  by (rule returns_quiet [OF _ adds_now]) (simp_all add: now_def sample_def)

lemma returns_order: "upholds T r def w I \<Longrightarrow> returns I (in_map_order ks) (\<lambda>_. I)"
  by (rule returns_quiet [OF _ adds_in_map_order]) (simp_all add: in_map_order_def bnd_def sample_def ret_def)

lemma returns_is_due:
  assumes "upholds T r def w I" "steady T w def"
  shows "returns I (is_due d) (\<lambda>b t. I t \<and> (b \<longrightarrow> d < T))"
proof (rule returnsI)
  fix s x t
  assume s: "I s" "is_due d s = (Ok x, t)"
  have "returns I (is_due d) (\<lambda>_. I)"
    by (rule returns_quiet [OF assms(1) adds_is_due]) (simp_all add: is_due_def bnd_def now_def sample_def ret_def)
  with s have "I t" by (metis returnsD(1))
  moreover have "clock (G_world s) (G_ticks s) < T"
    using steadyD(2) [OF assms(2)] upholdsD(2) [OF assms(1) s(1)] by simp
  then have "x \<longrightarrow> d < T" using s(2) by (auto simp: is_due_def bnd_def now_def sample_def ret_def)
  ultimately show "I t \<and> (x \<longrightarrow> d < T)" by simp
qed (auto simp: is_due_def bnd_def now_def sample_def ret_def)

lemma returns_submit_step:
  assumes "upholds T r def w I" "R_ID run = r"
  shows "returns I (submit_step run nm) (\<lambda>_. I)"
proof -
  have log: "G_log (snd (submit_step run nm s)) = G_log s" for s
    by (auto simp: submit_step_def pool_Submit_def bnd_def sample_def split: option.split)
  have crash: "fst (submit_step run nm s) \<noteq> Crash OutOfFuel \<and> (\<forall>e. fst (submit_step run nm s) \<noteq> Err e)" for s
    by (auto simp: submit_step_def pool_Submit_def bnd_def sample_def split: option.split)
  have "I (snd (submit_step run nm s))" if "I s" for s
  proof (rule stable_emits_none [OF assms(1) that])
    have "keeps (adds (exactly_on r (\<lambda>_. True))) (submit_step run nm)"
      by (rule adds_submit_step) (simp add: exactly_on_def assms(2))
    then show "emits r [] s (snd (submit_step run nm s))"
      by (auto simp: emits_def log payloads_def dest: keeps_at)
  qed
  then show ?thesis using crash by (intro returnsI) (metis fst_conv snd_conv)+
qed

text \<open>Appending an event: \<open>J\<close> is what is gained.\<close>

lemma returns_emit:
  assumes I: "upholds T r def w I" "R_ID run = r" "\<forall>x. p \<noteq> TicketCreated x"
    and X: "\<And>rn ev. run_ok def rn \<Longrightarrow> E_Payload ev = p \<Longrightarrow>
      urgent_steps T (applyOne def rn ev) \<subseteq> urgent_steps T rn - X"
  shows "returns I (emit run p) (\<lambda>_ t. I t \<and> urgent_in T r def t \<inter> X = {} \<and>
      (\<forall>n stp. p = SLABreached n stp \<longrightarrow> n \<notin> open_slas r def t))"
    and "I s \<Longrightarrow> \<exists>x. fst (emit run p s) = Ok x"
proof -
  have one: "\<exists>x t. emit run p s = (Ok x, t) \<and> I t \<and> urgent_in T r def t \<inter> X = {} \<and>
      (\<forall>n stp. p = SLABreached n stp \<longrightarrow> n \<notin> open_slas r def t)" if s: "I s" for s
  proof -
    note a = upholdsD(1) [OF I(1) s]
    obtain x t where t: "emit run p s = (Ok x, t)" "emits r [p] s t"
      using emit_emits [OF alive_available [OF a] I(2)] by blast
    have "urgent_steps T (applyAll def0 def new) \<subseteq> urgent_steps T def0 - X"
      if ok: "run_ok def def0" "payloads new = [p]" for def0 new
    proof -
      obtain e where e: "new = [e]" "E_Payload e = p" using payloads_one [OF ok(2)] by blast
      with X [OF ok(1) e(2)] show ?thesis by simp
    qed
    from calms_emits [OF a t(2) _ this] I(3) have
      "calms T r def s t \<and> urgent_in T r def t \<inter> X = {} \<and>
       (\<forall>n stp. p = SLABreached n stp \<longrightarrow> n \<notin> open_slas r def t)" by auto
    with t(1) upholdsD(3) [OF I(1) s] show ?thesis by blast
  qed
  then show "I s \<Longrightarrow> \<exists>x. fst (emit run p s) = Ok x" by fastforce
  show "returns I (emit run p) (\<lambda>_ t. I t \<and> urgent_in T r def t \<inter> X = {} \<and>
      (\<forall>n stp. p = SLABreached n stp \<longrightarrow> n \<notin> open_slas r def t))"
    by (rule returns_OkI) (rule one)
qed

lemma returns_emit_other:
  assumes "upholds T r def w I" "R_ID run = r"
    and "(\<exists>n. p = TimerFired n) \<or> (\<exists>n x. p = SLABreached n x) \<or> (\<exists>n. p = RunCompleted n) \<or> (\<exists>n x. p = RunFailed n x)"
  shows "returns I (emit run p) (\<lambda>_ t. I t \<and> (\<forall>n stp. p = SLABreached n stp \<longrightarrow> n \<notin> open_slas r def t))"
proof -
  have e: "urgent_steps T (applyOne def rn ev) \<subseteq> urgent_steps T rn - {}" if "E_Payload ev = p" for rn ev
    using urgent_other [of def ev rn T] assms(3) that by auto
  show ?thesis
    by (rule returns_mono [OF returns_emit(1) [OF assms(1,2) _ e]]) (use assms(3) in auto)
qed

lemma returns_emit_completed:
  assumes "upholds T r def w I" "R_ID run = r"
  shows "returns I (emit run (StepCompletedP n out)) (\<lambda>_ t. I t \<and> n \<notin> urgent_in T r def t)"
proof -
  have e: "urgent_steps T (applyOne def rn ev) \<subseteq> urgent_steps T rn - {n}"
    if "E_Payload ev = StepCompletedP n out" for rn ev
    using urgent_completed [OF that, of T def rn] by simp
  show ?thesis by (rule returns_mono [OF returns_emit(1) [OF assms _ e]]) auto
qed

lemma returns_emit_requested:
  assumes "upholds T r def w I" "R_ID run = r" "step_kind def n = KindApproval"
  shows "returns I (emit run (ApprovalRequested n idx role user k)) (\<lambda>_. I)"
proof -
  have e: "urgent_steps T (applyOne def rn ev) \<subseteq> urgent_steps T rn - {n}"
    if "run_ok def rn" "E_Payload ev = ApprovalRequested n idx role user k" for rn ev
    using urgent_requested [OF that assms(3)] by simp
  show ?thesis by (rule returns_mono [OF returns_emit(1) [OF assms(1,2) _ e]]) auto
qed

lemma returns_scheduleStep:
  assumes I: "upholds T r def w I" and w: "steady T w def"
  shows "returns I (scheduleStep r i def nm) (\<lambda>_. I)"
proof (cases "\<exists>sd. Step def nm = Some sd \<and> step_ready sd")
  case True
  then obtain sd where sd: "Step def nm = Some sd" "step_ready sd" by blast
  have "\<exists>x t. scheduleStep r i def nm s = (Ok x, t) \<and> I t" if s: "I s" for s
  proof -
    note a = upholdsD(1) [OF I s]
    obtain x t where t: "scheduleStep r i def nm s = (Ok x, t)"
        "emits r (sched_payloads sd nm (clock w (G_ticks s))) s t"
      using scheduleStep_emits [OF alive_available [OF a] sd, of r i] upholdsD(2) [OF I s] by auto
    have "calms T r def s t"
      using calms_emits [OF a t(2), of T "{}"] urgent_sched [OF _ sd w] sched_payloads_new by simp
    with t(1) upholdsD(3) [OF I s] show ?thesis by blast
  qed
  then show ?thesis by (rule returns_OkI)
next
  case False
  have "\<exists>e t. scheduleStep r i def nm s = (Err e, t) \<and> I t" if s: "I s" for s
  proof -
    have "\<exists>e t. scheduleStep r i def nm s = (Err e, t) \<and> (t = s \<or> t = tick_of s)"
    proof (cases "Step def nm")
      case (Some sd)
      with False consider (delay) "SD_Kind sd = KindDelay" "SD_Delay sd = None"
        | (none) "SD_Kind sd = KindApproval" "SD_Approval sd = None"
        | (empty) a where "SD_Kind sd = KindApproval" "SD_Approval sd = Some a" "AD_Chain a = []"
        unfolding step_ready_def by (cases "SD_Approval sd") auto
      then show ?thesis
        by cases (simp_all add: Some scheduleStep_def now_def bnd_def sample_def Let_def)
    qed (simp add: scheduleStep_def)
    moreover have "emits r [] s (tick_of s)"
      by (rule emits_none, rule adds_same_log) simp_all
    ultimately show ?thesis using s stable_emits_none [OF I s] by blast
  qed
  then show ?thesis by (rule returns_ErrI)
qed

section \<open>Moving on\<close>

text \<open>The recursive call returns when it is made from a state in \<open>I\<close>, on the run as it then is.\<close>

definition recur :: "time \<Rightarrow> run_id \<Rightarrow> WorkflowDef \<Rightarrow> (Engine \<Rightarrow> bool) \<Rightarrow>
    (WorkflowRun \<Rightarrow> WorkflowDef \<Rightarrow> unit eng) \<Rightarrow> bool" where
  "recur T r def I disp \<longleftrightarrow> (\<forall>nr t. I t \<and> live t r nr def \<longrightarrow>
     returns (calms T r def t) (disp nr def) (\<lambda>_. calms T r def t))"

lemma alive_GetRun:
  assumes I: "upholds T r def w I" and s: "I s"
  shows "\<exists>nr t. GetRun r s = (Ok nr, t) \<and> I t \<and> live t r nr def"
proof -
  obtain t where t: "GetRun r s = (Ok (replayed r def (History (G_log s) r)), t)" "emits r [] s t"
    using live_GetRun [OF upholdsD(1) [OF I s, unfolded alive_def]] by blast
  have "I t" by (rule stable_emits_none [OF I s t(2)])
  moreover have "History (G_log t) r = History (G_log s) r" using t(2) by (auto simp: emits_def payloads_def)
  ultimately show ?thesis using t(1) upholdsD(1) [OF I, of t] by (simp add: alive_def)
qed

lemma returns_at:
  assumes I: "upholds T r def w I" and s: "I s" and m: "returns (calms T r def s) m (\<lambda>_. calms T r def s)"
  shows "m s = (Ok x, t) \<Longrightarrow> I t" "m s = (Err e, t) \<Longrightarrow> I t" "m s = (Crash c, t) \<Longrightarrow> I t \<and> c \<noteq> OutOfFuel"
  using returnsD [OF m calms_refl [OF upholdsD(1) [OF I s]]] upholdsD(3) [OF I s] by blast+

lemma returns_GetRun_disp:
  assumes I: "upholds T r def w I" and rec: "recur T r def I disp"
  shows "returns I (bnd (GetRun r) (\<lambda>nr. disp nr def)) (\<lambda>_. I)"
proof -
  have step: "\<exists>nr t. bnd (GetRun r) (\<lambda>nr. disp nr def) s = disp nr def t \<and> I t \<and>
      returns (calms T r def t) (disp nr def) (\<lambda>_. calms T r def t)" if s: "I s" for s
  proof -
    obtain nr t where t: "GetRun r s = (Ok nr, t)" "I t" "live t r nr def"
      using alive_GetRun [OF I s] by blast
    with rec have "returns (calms T r def t) (disp nr def) (\<lambda>_. calms T r def t)"
      unfolding recur_def by blast
    moreover have "bnd (GetRun r) (\<lambda>nr. disp nr def) s = disp nr def t"
      by (simp add: bnd_run t(1))
    ultimately show ?thesis using t(2) by blast
  qed
  show ?thesis
  proof (rule returnsI)
    fix s x t assume "I s" "bnd (GetRun r) (\<lambda>nr. disp nr def) s = (Ok x, t)"
    with step returns_at(1) [OF I] show "I t" by metis
  next
    fix s e t assume "I s" "bnd (GetRun r) (\<lambda>nr. disp nr def) s = (Err e, t)"
    with step returns_at(2) [OF I] show "I t" by metis
  next
    fix s c t assume "I s" "bnd (GetRun r) (\<lambda>nr. disp nr def) s = (Crash c, t)"
    with step returns_at(3) [OF I] show "I t \<and> c \<noteq> OutOfFuel" by metis
  qed
qed

lemma attempt_GetRun_disp:
  assumes I: "upholds T r def w I" and s: "I s"
  shows "bnd (attempt (GetRun r)) (\<lambda>x. case x of Inl e \<Rightarrow> g e | Inr nr \<Rightarrow> f nr) s = bnd (GetRun r) f s"
  using alive_GetRun [OF I s] by (auto simp: bnd_run attempt_run)

lemma returns_cong: "(\<And>s. I s \<Longrightarrow> m s = m' s) \<Longrightarrow> returns I m J = returns I m' J"
  by (simp add: returns_def)

lemma returns_attempt_GetRun_disp:
  assumes "upholds T r def w I" "recur T r def I disp"
  shows "returns I (bnd (attempt (GetRun r)) (\<lambda>x. case x of Inl e \<Rightarrow> ret () | Inr nr \<Rightarrow> disp nr def)) (\<lambda>_. I)"
  by (subst returns_cong [OF attempt_GetRun_disp [OF assms(1)]], assumption)
     (rule returns_GetRun_disp [OF assms])

lemma returns_follow:
  assumes "upholds T r def w I" "steady T w def" "recur T r def I disp" "R_ID run = r"
  shows "returns I (bnd (scheduleStep (R_ID run) (R_TicketID run) def nm)
    (\<lambda>_. bnd (GetRun (R_ID run)) (\<lambda>nr. disp nr def))) (\<lambda>_. I)"
  unfolding assms(4)
  by (rule returns_bnd [OF returns_scheduleStep [OF assms(1,2)] returns_GetRun_disp [OF assms(1,3)]])

lemma returns_emit_end:
  assumes "upholds T r def w I" "R_ID run = r" "(\<exists>n. p = RunCompleted n) \<or> (\<exists>n x. p = RunFailed n x)"
  shows "returns I (bnd (emit run p) (\<lambda>_. ret ())) (\<lambda>_. I)"
proof (rule returns_bnd)
  show "returns I (emit run p) (\<lambda>_. I)"
    by (rule returns_mono [OF returns_emit_other [OF assms(1,2)]]) (use assms(3) in auto)
qed (simp_all add: returns_ret)

lemma returns_advance:
  assumes "upholds T r def w I" "steady T w def" "recur T r def I disp" "R_ID run = r"
  shows "returns I (advance disp run def step b) (\<lambda>_. I)"
proof -
  have "returns I (if nxt = [] then
      if b \<and> \<not> R_Failed run then bnd (emit run (RunCompleted step)) (\<lambda>_. ret ())
      else (case step_of run step of
              None \<Rightarrow> crash NilDeref
            | Some st \<Rightarrow> bnd (emit run (RunFailed step (SS_Error st))) (\<lambda>_. ret ()))
    else bnd (scheduleStep (R_ID run) (R_TicketID run) def nxt) (\<lambda>_.
           bnd (GetRun (R_ID run)) (\<lambda>nr. disp nr def))) (\<lambda>_. I)" for nxt
    using returns_emit_end [OF assms(1,4)] returns_follow [OF assms]
    by (auto intro: returns_crash split: option.split)
  then show ?thesis unfolding advance_def Let_def .
qed

lemma returns_fireTimer:
  assumes I: "upholds T r def w I" and J: "upholds T r def w J" and w: "steady T w def"
    and rec: "recur T r def J disp" and r: "R_ID run = r"
    and IJ: "\<And>s. I s \<Longrightarrow> step \<notin> urgent_in T r def s \<Longrightarrow> J s" "\<And>s. J s \<Longrightarrow> I s"
  shows "returns I (fireTimer disp run def step) (\<lambda>_. I)"
  unfolding fireTimer_def
proof (rule returns_bnd)
  show "returns I (emit run (TimerFired step)) (\<lambda>_. I)"
    by (rule returns_mono [OF returns_emit_other [OF I r]]) auto
  show "returns I (bnd (emit run (StepCompletedP step None)) (\<lambda>_. advance disp run def step True)) (\<lambda>_. I)"
  proof (rule returns_bnd)
    show "returns I (emit run (StepCompletedP step None)) (\<lambda>_. J)"
      by (rule returns_mono [OF returns_emit_completed [OF I r]]) (use IJ in auto)
    show "returns J (advance disp run def step True) (\<lambda>_. I)"
      by (rule returns_mono [OF returns_advance [OF J w rec r]]) (rule IJ)
  qed (rule IJ)
qed

lemma returns_advanceApproval:
  assumes I: "upholds T r def w I" and J: "upholds T r def w J" and w: "steady T w def"
    and rec: "recur T r def J disp" and r: "R_ID run = r" and k: "step_kind def step = KindApproval"
    and IJ: "\<And>s. I s \<Longrightarrow> step \<notin> urgent_in T r def s \<Longrightarrow>
        (\<exists>st a. step_of run step = Some st \<and> SS_Approval st = Some a \<and> AS_Status a = Granted) \<Longrightarrow> J s"
      "\<And>s. J s \<Longrightarrow> I s"
  shows "returns I (advanceApproval disp run def step) (\<lambda>_. I)"
proof (cases "\<exists>st a. step_of run step = Some st \<and> SS_Approval st = Some a \<and> AS_Status a = Granted")
  case False
  then show ?thesis unfolding advanceApproval_def
    by (auto intro!: returns_crash returns_ret split: option.split)
next
  case True
  then obtain st a where a: "step_of run step = Some st" "SS_Approval st = Some a" "AS_Status a = Granted"
    by blast
  have req: "returns I (bnd (emit run (ApprovalRequested step i role user n)) (\<lambda>_. ret ())) (\<lambda>_. I)" for i role user n
    by (rule returns_bnd [OF returns_emit_requested [OF I r k]]) (simp_all add: returns_ret)
  have fin: "returns I (bnd (emit run (StepCompletedP step None)) (\<lambda>_. advance disp run def step True)) (\<lambda>_. I)"
  proof (rule returns_bnd)
    show "returns I (emit run (StepCompletedP step None)) (\<lambda>_. J)"
      by (rule returns_mono [OF returns_emit_completed [OF I r]]) (use IJ True in auto)
    show "returns J (advance disp run def step True) (\<lambda>_. I)"
      by (rule returns_mono [OF returns_advance [OF J w rec r]]) (rule IJ)
  qed (rule IJ)
  show ?thesis
    unfolding advanceApproval_def Let_def a option.case
    using req fin by (auto intro: returns_crash simp: a(3))
qed

section \<open>Dispatching\<close>

lemma returns_jumpTo:
  assumes I: "upholds T r def w I" and w: "steady T w def" and rec: "recur T r def I disp" and r: "R_ID run = r"
  shows "returns I (jumpTo disp run def step) (\<lambda>_. I)"
proof -
  have "returns I (bnd (scheduleStep r (R_TicketID run) def step) (\<lambda>_. bnd (attempt (GetRun r))
      (\<lambda>x. case x of Inl e \<Rightarrow> ret () | Inr nr \<Rightarrow> disp nr def))) (\<lambda>_. I)"
    by (rule returns_bnd [OF returns_scheduleStep [OF I w] returns_attempt_GetRun_disp [OF I rec]])
  then show ?thesis unfolding jumpTo_def r by (simp add: returns_ret)
qed

text \<open>
  The loop over the SLAs: \<open>J\<close> holds where an SLA of the list has been flagged since \<open>I\<close> was
  established.
\<close>

lemma returns_CheckSLA_loop:
  assumes I: "upholds T r def w I" and J: "upholds T r def w J" and w: "steady T w def"
    and rec: "recur T r def J disp" and r: "R_ID run = r"
    and IJ: "\<And>s n. I s \<Longrightarrow> n \<in> names \<Longrightarrow> n \<notin> open_slas r def s \<Longrightarrow> J s" "\<And>s. J s \<Longrightarrow> I s"
    and names: "\<And>sla. sla \<in> set slas \<Longrightarrow> SLA_Name sla \<notin> B \<Longrightarrow> SLA_Name sla \<in> names"
  shows "returns I (for_each slas (\<lambda>sla.
      if SLA_Name sla \<in> B then ret ()
      else let deadline = R_CreatedAt run + SLA_Duration sla
        in if deadline < t then
             bnd (ignore (emit run (SLABreached (SLA_Name sla) (R_Current run)))) (\<lambda>_.
               if SLA_OnBreach sla \<noteq> [] then ignore (jumpTo disp run def (SLA_OnBreach sla)) else ret ())
           else ret ())) (\<lambda>_. I)"
proof (rule returns_for_each)
  fix sla
  assume sla: "sla \<in> set slas"
  let ?p = "SLABreached (SLA_Name sla) (R_Current run)"
  have flag: "returns I (ignore (emit run ?p)) (\<lambda>_. J)" if n: "SLA_Name sla \<notin> B"
  proof (rule returns_OkI)
    fix s
    assume s: "I s"
    have e: "urgent_steps T (applyOne def rn ev) \<subseteq> urgent_steps T rn - {}" if "E_Payload ev = ?p" for rn ev
      using urgent_other [of def ev rn T] that by auto
    obtain x u where u: "emit run ?p s = (Ok x, u)"
      using returns_emit(2) [OF I r _ e s] by (metis payload.distinct prod.collapse)
    have "I u \<and> SLA_Name sla \<notin> open_slas r def u"
      using returnsD(1) [OF returns_emit_other [OF I r] s u] by auto
    then have "J u" using IJ(1) names [OF sla n] by blast
    with u show "\<exists>x t. ignore (emit run ?p) s = (Ok x, t) \<and> J t"
      by (simp add: ignore_def bnd_run attempt_run)
  qed
  have jump: "returns J (ignore (jumpTo disp run def step)) (\<lambda>_. I)" for step
    by (rule returns_mono [OF returns_ignore [OF returns_jumpTo [OF J w rec r]]]) (simp_all add: IJ)
  have "returns I (bnd (ignore (emit run ?p)) (\<lambda>_.
      if SLA_OnBreach sla \<noteq> [] then ignore (jumpTo disp run def (SLA_OnBreach sla)) else ret ())) (\<lambda>_. I)"
    if "SLA_Name sla \<notin> B"
    by (rule returns_bnd [OF flag [OF that]]) (auto intro: jump returns_ret IJ)
  then show "returns I (if SLA_Name sla \<in> B then ret ()
      else let deadline = R_CreatedAt run + SLA_Duration sla
        in if deadline < t then
             bnd (ignore (emit run ?p)) (\<lambda>_.
               if SLA_OnBreach sla \<noteq> [] then ignore (jumpTo disp run def (SLA_OnBreach sla)) else ret ())
           else ret ()) (\<lambda>_. I)"
    by (simp add: Let_def returns_ret)
qed

lemma returns_log_History:
  assumes I: "upholds T r def w I"
  shows "returns I (attempt (log_History r)) (\<lambda>x t. I t \<and>
    (\<forall>es. x = Inr es \<longrightarrow> SLA_Name ` set (W_SLAs def) - set (breached_names es) = open_slas r def t))"
proof (rule returns_OkI)
  fix s
  assume s: "I s"
  have av: "available (G_world s)" by (rule alive_available [OF upholdsD(1) [OF I s]])
  have "attempt (log_History r) s = (Ok (Inr (History (G_log s) r)), tick_of s)"
    by (simp add: log_History_def reading_available [OF av] attempt_run)
  moreover have "I (tick_of s)"
    by (rule stable_emits_none [OF I s], rule emits_none, rule adds_same_log) simp_all
  ultimately show "\<exists>x t. attempt (log_History r) s = (Ok x, t) \<and> I t \<and>
      (\<forall>es. x = Inr es \<longrightarrow> SLA_Name ` set (W_SLAs def) - set (breached_names es) = open_slas r def t)"
    by (simp add: open_slas_def)
qed

definition below :: "time \<Rightarrow> run_id \<Rightarrow> WorkflowDef \<Rightarrow> Engine \<Rightarrow> Engine \<Rightarrow> bool" where
  "below T r def s0 t \<longleftrightarrow> calms T r def s0 t \<and> weight T r def t < weight T r def s0"

lemma stable_below_start: "alive r def s0 \<Longrightarrow> upholds T r def (G_world s0) (below T r def s0)"
  unfolding below_def by (rule stable_below)

lemma below_urgent:
  "calms T r def s0 s \<Longrightarrow> n \<in> urgent_in T r def s0 \<Longrightarrow> n \<notin> urgent_in T r def s \<Longrightarrow> below T r def s0 s"
  by (simp add: below_def weight_urgent)

lemma below_open:
  "calms T r def s0 s \<Longrightarrow> n \<in> open_slas r def s0 \<Longrightarrow> n \<notin> open_slas r def s \<Longrightarrow> below T r def s0 s"
  by (simp add: below_def weight_open)

lemma below_calms: "below T r def s0 s \<Longrightarrow> calms T r def s0 s"
  by (simp add: below_def)

lemma returns_CheckSLA:
  assumes l: "live s0 r run def" and w: "steady T (G_world s0) def"
    and rec: "recur T r def (below T r def s0) disp"
  shows "returns (calms T r def s0) (CheckSLA disp run def) (\<lambda>_. calms T r def s0)"
proof -
  note a = live_alive [OF l, THEN conjunct1] and r = live_ID [OF l]
  note I = stable_calms [OF a, of T] and J = stable_below_start [OF a, of T]
  have loop: "returns (calms T r def s0) (for_each (W_SLAs def) (\<lambda>sla.
      if SLA_Name sla \<in> set (breached_names es) then ret ()
      else let deadline = R_CreatedAt run + SLA_Duration sla
        in if deadline < t then
             bnd (ignore (emit run (SLABreached (SLA_Name sla) (R_Current run)))) (\<lambda>_.
               if SLA_OnBreach sla \<noteq> [] then ignore (jumpTo disp run def (SLA_OnBreach sla)) else ret ())
           else ret ())) (\<lambda>_. calms T r def s0)"
    if "SLA_Name ` set (W_SLAs def) - set (breached_names es) \<subseteq> open_slas r def s0" for es t
    by (rule returns_CheckSLA_loop [OF I J w rec r, where names = "open_slas r def s0"])
       (use that in \<open>auto intro: below_open below_calms\<close>)
  let ?hist = "\<lambda>x t. calms T r def s0 t \<and>
    (\<forall>es. x = Inr es \<longrightarrow> SLA_Name ` set (W_SLAs def) - set (breached_names es) \<subseteq> open_slas r def s0)"
  have hist: "returns (calms T r def s0) (attempt (log_History r)) ?hist"
    by (rule returns_mono [OF returns_log_History [OF I]]) (auto simp: calms_def)
  have rest: "returns (?hist x) (case x of Inl e \<Rightarrow> ret () | Inr es \<Rightarrow>
      bnd now (\<lambda>t. for_each (W_SLAs def) (\<lambda>sla.
      if SLA_Name sla \<in> set (breached_names es) then ret ()
      else let deadline = R_CreatedAt run + SLA_Duration sla
        in if deadline < t then
             bnd (ignore (emit run (SLABreached (SLA_Name sla) (R_Current run)))) (\<lambda>_.
               if SLA_OnBreach sla \<noteq> [] then ignore (jumpTo disp run def (SLA_OnBreach sla)) else ret ())
           else ret ()))) (\<lambda>_. calms T r def s0)" for x
  proof (cases x)
    case (Inl e)
    then show ?thesis by (simp add: returns_ret)
  next
    case (Inr es)
    show ?thesis
    proof (cases "SLA_Name ` set (W_SLAs def) - set (breached_names es) \<subseteq> open_slas r def s0")
      case True
      have "returns (calms T r def s0) (bnd now (\<lambda>t. for_each (W_SLAs def) (\<lambda>sla.
        if SLA_Name sla \<in> set (breached_names es) then ret ()
        else let deadline = R_CreatedAt run + SLA_Duration sla
          in if deadline < t then
               bnd (ignore (emit run (SLABreached (SLA_Name sla) (R_Current run)))) (\<lambda>_.
                 if SLA_OnBreach sla \<noteq> [] then ignore (jumpTo disp run def (SLA_OnBreach sla)) else ret ())
             else ret ()))) (\<lambda>_. calms T r def s0)"
        by (rule returns_bnd [OF returns_now [OF I] loop [OF True]])
      with Inr True show ?thesis by simp
    next
      case False
      with Inr show ?thesis by (simp add: returns_def)
    qed
  qed
  have "returns (calms T r def s0) (bnd (attempt (log_History r)) (\<lambda>x. case x of Inl e \<Rightarrow> ret () | Inr es \<Rightarrow>
      bnd now (\<lambda>t. for_each (W_SLAs def) (\<lambda>sla.
      if SLA_Name sla \<in> set (breached_names es) then ret ()
      else let deadline = R_CreatedAt run + SLA_Duration sla
        in if deadline < t then
             bnd (ignore (emit run (SLABreached (SLA_Name sla) (R_Current run)))) (\<lambda>_.
               if SLA_OnBreach sla \<noteq> [] then ignore (jumpTo disp run def (SLA_OnBreach sla)) else ret ())
           else ret ())))) (\<lambda>_. calms T r def s0)"
    by (rule returns_bnd [OF hist rest]) simp
  then show ?thesis unfolding CheckSLA_def r by (auto intro: returns_ret)
qed

lemma returns_dispatch_step:
  assumes l: "live s0 r run def" and w: "steady T (G_world s0) def"
    and rec: "recur T r def (below T r def s0) disp"
  shows "returns (calms T r def s0) (dispatch_step disp run def nm) (\<lambda>_. calms T r def s0)"
proof (cases "step_of run nm")
  case None
  then show ?thesis by (simp add: dispatch_step_def returns_ret)
next
  case (Some st)
  note a = live_alive [OF l, THEN conjunct1] and run = live_alive [OF l, THEN conjunct2] and r = live_ID [OF l]
  note I = stable_calms [OF a, of T] and J = stable_below_start [OF a, of T]
  have submit: "returns (calms T r def s0) (if b then submit_step run nm else ret ()) (\<lambda>_. calms T r def s0)" for b
    using returns_submit_step [OF I r] by (simp add: returns_ret)
  have task: "returns (calms T r def s0)
      (bnd (case SS_DueAt st of None \<Rightarrow> ret True | Some due \<Rightarrow> is_due due)
        (\<lambda>ready. if ready then submit_step run nm else ret ())) (\<lambda>_. calms T r def s0)"
  proof (rule returns_bnd)
    show "returns (calms T r def s0) (case SS_DueAt st of None \<Rightarrow> ret True | Some due \<Rightarrow> is_due due)
        (\<lambda>_. calms T r def s0)"
      by (cases "SS_DueAt st") (auto intro: returns_ret returns_mono [OF returns_is_due [OF I w]])
  qed (use submit in auto)
  have delay: "returns (calms T r def s0) (bnd (is_due due) (\<lambda>ready.
      if ready then ignore (fireTimer disp run def nm) else ret ())) (\<lambda>_. calms T r def s0)"
    if st: "SS_Kind st = KindDelay" "SS_Status st = StepWaiting" "SS_DueAt st = Some due" for due
  proof (rule returns_bnd [OF returns_is_due [OF I w]])
    show "returns (\<lambda>t. calms T r def s0 t \<and> (ready \<longrightarrow> due < T))
        (if ready then ignore (fireTimer disp run def nm) else ret ()) (\<lambda>_. calms T r def s0)" for ready
    proof (cases "ready \<and> due < T")
      case True
      then have "nm \<in> urgent_in T r def s0"
        unfolding urgent_in_def using Some run st by (intro urgent_stepsI) (auto simp: urgent_def)
      then have "returns (calms T r def s0) (fireTimer disp run def nm) (\<lambda>_. calms T r def s0)"
        by (intro returns_fireTimer [OF I J w rec r]) (auto intro: below_urgent below_calms)
      with True show ?thesis by (simp add: returns_ignore)
    qed (auto intro: returns_ret simp: returns_def)
  qed simp
  show ?thesis
    using Some task delay
    by (cases "SS_Kind st"; cases "SS_DueAt st") (auto simp: dispatch_step_def intro: returns_ret)
qed

lemma returns_dispatch_approval:
  assumes l: "live s0 r run def" and w: "steady T (G_world s0) def"
    and rec: "recur T r def (below T r def s0) disp"
  shows "returns (calms T r def s0) (dispatch_approval disp run def nm) (\<lambda>_. calms T r def s0)"
proof (cases "step_of run nm")
  case None
  then show ?thesis by (simp add: dispatch_approval_def returns_ret)
next
  case (Some st)
  note a = live_alive [OF l, THEN conjunct1] and run = live_alive [OF l, THEN conjunct2] and r = live_ID [OF l]
  note I = stable_calms [OF a, of T] and J = stable_below_start [OF a, of T]
  have ok: "run_ok def run" unfolding run replayed_def by (rule run_ok_applyAll [OF run_ok_new])
  have "returns (calms T r def s0) (advanceApproval disp run def nm) (\<lambda>_. calms T r def s0)"
    if st: "SS_Kind st = KindApproval" "SS_Status st = StepWaiting"
  proof (rule returns_advanceApproval [OF I J w rec r])
    show "step_kind def nm = KindApproval" using run_ok_kind [OF ok Some] st(1) by simp
    fix s
    assume s: "calms T r def s0 s" "nm \<notin> urgent_in T r def s"
      and g: "\<exists>st a. step_of run nm = Some st \<and> SS_Approval st = Some a \<and> AS_Status a = Granted"
    have "nm \<in> urgent_in T r def s0"
      unfolding urgent_in_def using Some run st g by (intro urgent_stepsI) (auto simp: urgent_def)
    with s show "below T r def s0 s" by (auto intro: below_urgent)
  qed (rule below_calms)
  with Some show ?thesis by (auto simp: dispatch_approval_def intro: returns_ret returns_ignore)
qed

lemma returns_dispatch_body:
  assumes l: "live s0 r run def" and w: "steady T (G_world s0) def"
    and rec: "recur T r def (below T r def s0) disp"
  shows "returns (calms T r def s0) (dispatch_body disp run def) (\<lambda>_. calms T r def s0)"
proof -
  note order = returns_order [OF stable_calms [OF live_alive [OF l, THEN conjunct1]]]
  have "returns (calms T r def s0) (bnd (CheckSLA disp run def) (\<lambda>_.
      bnd (in_map_order (map fst (R_Steps run))) (\<lambda>names.
      bnd (for_each names (dispatch_step disp run def)) (\<lambda>_.
      bnd (in_map_order (map fst (R_Steps run))) (\<lambda>names.
      for_each names (dispatch_approval disp run def)))))) (\<lambda>_. calms T r def s0)"
    by (intro returns_bnd [where J = "\<lambda>_. calms T r def s0"] returns_for_each order
         returns_CheckSLA [OF assms] returns_dispatch_step [OF assms] returns_dispatch_approval [OF assms])
  then show ?thesis unfolding dispatch_body_def by (simp add: returns_ret)
qed

lemma returns_dispatch:
  "live s r run def \<Longrightarrow> steady T (G_world s) def \<Longrightarrow> weight T r def s < n \<Longrightarrow>
    returns (calms T r def s) (dispatch n run def) (\<lambda>_. calms T r def s)"
proof (induction n arbitrary: s run)
  case (Suc n)
  have "recur T r def (below T r def s) (dispatch n)"
    unfolding recur_def
  proof (intro allI impI, elim conjE)
    fix nr t
    assume t: "below T r def s t" "live t r nr def"
    have "steady T (G_world t) def" using t(1) Suc.prems(2) by (simp add: below_def calms_def)
    moreover have "weight T r def t < n" using t(1) Suc.prems(3) by (simp add: below_def)
    ultimately show "returns (calms T r def t) (dispatch n nr def) (\<lambda>_. calms T r def t)"
      using Suc.IH t(2) by blast
  qed
  from returns_dispatch_body [OF Suc.prems(1,2) this] show ?case by simp
qed simp

section \<open>The calls that dispatch\<close>

text \<open>\<open>big_enough n T w def\<close>: the bound \<open>n\<close> on the depth is more than the steps and the SLAs together.\<close>

definition big_enough :: "nat \<Rightarrow> time \<Rightarrow> World \<Rightarrow> WorkflowDef \<Rightarrow> bool" where
  "big_enough n T w def \<longleftrightarrow> steady T w def \<and> length (W_Steps def) + length (W_SLAs def) < n"

lemma urgent_steps_defined:
  assumes "run_ok def run"
  shows "urgent_steps T run \<subseteq> SD_Name ` set (W_Steps def)"
proof
  fix n
  assume "n \<in> urgent_steps T run"
  then obtain st where st: "step_of run n = Some st" "urgent T st" by (auto dest: urgent_stepsD)
  have "SS_Kind st = step_kind def n" using run_ok_kind [OF assms st(1)] .
  with st(2) have "step_kind def n \<noteq> KindTask" by (auto simp: urgent_def)
  then have "Step def n \<noteq> None" by (auto simp: step_kind_def split: option.splits)
  then show "n \<in> SD_Name ` set (W_Steps def)" by (simp add: Step_None_iff)
qed

lemma weight_bound: "weight T r def s \<le> length (W_Steps def) + length (W_SLAs def)"
proof -
  have "run_ok def (replayed r def (History (G_log s) r))"
    unfolding replayed_def by (rule run_ok_applyAll [OF run_ok_new])
  then have "card (urgent_in T r def s) \<le> card (SD_Name ` set (W_Steps def))"
    unfolding urgent_in_def by (intro card_mono urgent_steps_defined) simp_all
  also have "\<dots> \<le> length (W_Steps def)"
    using card_length [of "map SD_Name (W_Steps def)"] by simp
  finally have "card (urgent_in T r def s) \<le> length (W_Steps def)" .
  moreover have "card (open_slas r def s) \<le> card (SLA_Name ` set (W_SLAs def))"
    unfolding open_slas_def by (intro card_mono) auto
  moreover have "card (SLA_Name ` set (W_SLAs def)) \<le> length (W_SLAs def)"
    using card_length [of "map SLA_Name (W_SLAs def)"] by simp
  ultimately show ?thesis by (simp add: weight_def)
qed

text \<open>The states in which \<open>r\<close> can be worked on.\<close>

definition at_work :: "run_id \<Rightarrow> WorkflowDef \<Rightarrow> World \<Rightarrow> Engine \<Rightarrow> bool" where
  "at_work r def w s \<longleftrightarrow> alive r def s \<and> G_world s = w"

lemma stable_at_work: "upholds T r def w (at_work r def w)"
  by (simp add: upholds_def at_work_def calms_def)

lemma at_work_dispatch:
  assumes "big_enough n T w def" "at_work r def w s" "live s r run def"
  shows "returns (calms T r def s) (dispatch n run def) (\<lambda>_. calms T r def s)"
proof (rule returns_dispatch [OF assms(3)])
  show "steady T (G_world s) def" using assms(1,2) by (simp add: big_enough_def at_work_def)
  show "weight T r def s < n" using assms(1) weight_bound [of T r def s] by (simp add: big_enough_def)
qed

lemma dispatch_fits:
  assumes "live s r run def" "big_enough n T (G_world s) def"
  shows "fst (dispatch n run def s) \<noteq> Crash OutOfFuel"
proof -
  have "returns (calms T r def s) (dispatch n run def) (\<lambda>_. calms T r def s)"
    using at_work_dispatch [OF assms(2) _ assms(1)] live_alive [OF assms(1)] by (simp add: at_work_def)
  with returnsD(3) [OF this calms_refl] live_alive [OF assms(1)] show ?thesis by (metis prod.collapse)
qed

lemma recur_dispatch: "big_enough n T w def \<Longrightarrow> recur T r def (at_work r def w) (dispatch n)"
  unfolding recur_def using at_work_dispatch by blast

lemma returns_work_append:
  assumes "E_RunID ev = r" "\<forall>x. E_Payload ev \<noteq> TicketCreated x"
  shows "returns (at_work r def w) (append_event ev) (\<lambda>_. at_work r def w)"
proof (rule returns_OkI)
  fix s
  assume s: "at_work r def w s"
  then have l: "live s r (replayed r def (History (G_log s) r)) def" by (simp add: at_work_def alive_def)
  obtain e t where t: "append_event ev s = (Ok e, t)" "emits r [E_Payload ev] s t"
    using append_event_emits [OF live_available [OF l] assms(1) refl] by blast
  then have "alive r def t" using live_emits [OF l t(2)] assms(2) live_alive by auto
  with t emits_world [OF t(2)] s show "\<exists>x t. append_event ev s = (Ok x, t) \<and> at_work r def w t"
    by (simp add: at_work_def)
qed

lemma returns_work_emit:
  "R_ID run = r \<Longrightarrow> \<forall>x. p \<noteq> TicketCreated x \<Longrightarrow> returns (at_work r def w) (emit run p) (\<lambda>_. at_work r def w)"
  unfolding emit_def by (rule returns_work_append) simp_all

lemmas returns_work_quiet = returns_quiet [OF stable_at_work]
lemmas returns_work_advance = returns_advance [OF stable_at_work]

lemma returns_failStep:
  assumes n: "big_enough n T w def" and r: "R_ID run = r"
  shows "returns (at_work r def w) (failStep n run def step reason) (\<lambda>_. at_work r def w)"
proof -
  have "steady T w def" using n by (simp add: big_enough_def)
  then have "returns (at_work r def w) (bnd (emit run (StepFailedP step reason k)) (\<lambda>_.
      bnd (emit run (RunFailing step reason)) (\<lambda>_. advance (dispatch n) run def step False)))
      (\<lambda>_. at_work r def w)" for k
    by (intro returns_bnd [where J = "\<lambda>_. at_work r def w"] returns_work_emit [OF r]
        returns_work_advance [OF _ recur_dispatch [OF n] r]) simp_all
  then show ?thesis unfolding failStep_def by (auto intro: returns_crash split: option.split)
qed

lemma returns_handleTaskFailure:
  assumes n: "big_enough n T w def" and r: "R_ID run = r"
  shows "returns (at_work r def w) (handleTaskFailure n run def step sd herr) (\<lambda>_. at_work r def w)"
proof -
  have retry: "returns (at_work r def w) (bnd (emit run (StepFailedP step herr k)) (\<lambda>_.
      bnd now (\<lambda>t. let due = (if 0 < delay then Some (t + delay) else None) in
      bnd (append_event ((event (R_TicketID run) (R_ID run)
         (StepScheduled step KindTask (case due of None \<Rightarrow> zero_time | Some d \<Rightarrow> d)))
         \<lparr>E_At := t, E_ScheduleAt := due\<rparr>)) (\<lambda>_.
      bnd (attempt (GetRun (R_ID run))) (\<lambda>r. case r of Inl _ \<Rightarrow> ret () | Inr nr \<Rightarrow> dispatch n nr def)))))
      (\<lambda>_. at_work r def w)" for k delay
    unfolding r Let_def
    by (intro returns_bnd [where J = "\<lambda>_. at_work r def w"] returns_work_emit [OF r] returns_work_append
        returns_now [OF stable_at_work] returns_attempt_GetRun_disp [OF stable_at_work recur_dispatch [OF n]])
       simp_all
  show ?thesis
    unfolding handleTaskFailure_def Let_def
    using returns_failStep [OF n r] retry [unfolded Let_def]
    by (auto intro: returns_crash split: option.split)
qed

lemma returns_task_failed:
  assumes n: "big_enough n T w def" and r: "R_ID run = r"
  shows "returns (at_work r def w) (bnd (attempt (GetRun (R_ID run)))
    (\<lambda>fr. handleTaskFailure n (case fr of Inr r \<Rightarrow> r | Inl _ \<Rightarrow> run) def step sd herr)) (\<lambda>_. at_work r def w)"
proof (rule returns_bnd)
  show "returns (at_work r def w) (attempt (GetRun (R_ID run)))
      (\<lambda>fr t. at_work r def w t \<and> R_ID (case fr of Inr r \<Rightarrow> r | Inl _ \<Rightarrow> run) = r)"
  proof (rule returns_OkI)
    fix s
    assume s: "at_work r def w s"
    obtain nr t where t: "GetRun r s = (Ok nr, t)" "at_work r def w t"
      using alive_GetRun [OF stable_at_work s] by blast
    then show "\<exists>x t. attempt (GetRun (R_ID run)) s = (Ok x, t) \<and> at_work r def w t \<and>
        R_ID (case x of Inr r \<Rightarrow> r | Inl _ \<Rightarrow> run) = r"
      using GetRun_R_ID [OF t(1)] by (simp add: r attempt_run)
  qed
  show "returns (\<lambda>t. at_work r def w t \<and> R_ID (case fr of Inr r \<Rightarrow> r | Inl _ \<Rightarrow> run) = r)
      (handleTaskFailure n (case fr of Inr r \<Rightarrow> r | Inl _ \<Rightarrow> run) def step sd herr) (\<lambda>_. at_work r def w)" for fr
  proof (cases "R_ID (case fr of Inr r \<Rightarrow> r | Inl _ \<Rightarrow> run) = r")
    case True
    with returns_handleTaskFailure [OF n True] show ?thesis by simp
  qed (simp add: returns_def)
qed simp

lemma returns_via:
  assumes m: "\<And>s. I s \<Longrightarrow> \<exists>k t. m s = f k t \<and> I t \<and> P k" and f: "\<And>k. P k \<Longrightarrow> returns I (f k) J"
  shows "returns I m J"
proof (rule returnsI)
  fix s x u assume "I s" "m s = (Ok x, u)"
  with m obtain k t where "f k t = (Ok x, u)" "I t" "P k" by metis
  with f show "J x u" by (blast dest: returnsD(1))
next
  fix s e u assume "I s" "m s = (Err e, u)"
  with m obtain k t where "f k t = (Err e, u)" "I t" "P k" by metis
  with f show "I u" by (blast dest: returnsD(2))
next
  fix s c u assume "I s" "m s = (Crash c, u)"
  with m obtain k t where "f k t = (Crash c, u)" "I t" "P k" by metis
  with f show "I u \<and> c \<noteq> OutOfFuel" by (blast dest: returnsD(3))
qed

lemma returns_work_load:
  assumes f: "\<And>run. R_ID run = r \<Longrightarrow> returns (at_work r def w) (f run def) (\<lambda>_. at_work r def w)"
  shows "returns (at_work r def w) (bnd (GetRun r) (\<lambda>run.
    bnd (loadWorkflow (R_Workflow run) (R_WorkflowVer run)) (f run))) (\<lambda>_. at_work r def w)"
proof (rule returns_via [where f = "\<lambda>run. f run def" and P = "\<lambda>run. R_ID run = r"])
  fix s
  assume s: "at_work r def w s"
  obtain run t where t: "GetRun r s = (Ok run, t)" "at_work r def w t" "live t r run def"
    using alive_GetRun [OF stable_at_work s] by blast
  obtain u where u: "loadWorkflow (R_Workflow run) (R_WorkflowVer run) t = (Ok def, u)" "emits r [] t u"
    using live_load [OF t(3)] by blast
  have "at_work r def w u" by (rule stable_emits_none [OF stable_at_work t(2) u(2)])
  with t(1) u(1) live_ID [OF t(3)]
  show "\<exists>k v. bnd (GetRun r) (\<lambda>run. bnd (loadWorkflow (R_Workflow run) (R_WorkflowVer run)) (f run)) s =
      f k def v \<and> at_work r def w v \<and> R_ID k = r"
    by (intro exI [of _ run] exI [of _ u]) (simp add: bnd_run)
qed (rule f)

lemma returns_option:
  "(x = None \<Longrightarrow> returns I m J) \<Longrightarrow> (\<And>y. x = Some y \<Longrightarrow> returns I (f y) J) \<Longrightarrow>
    returns I (case x of None \<Rightarrow> m | Some y \<Rightarrow> f y) J"
  by (cases x) simp_all

lemma returns_sum:
  "(\<And>e. x = Inl e \<Longrightarrow> returns I (g e) J) \<Longrightarrow> (\<And>y. x = Inr y \<Longrightarrow> returns I (f y) J) \<Longrightarrow>
    returns I (case x of Inl e \<Rightarrow> g e | Inr y \<Rightarrow> f y) J"
  by (cases x) simp_all

lemma returns_if:
  "(b \<Longrightarrow> returns I m J) \<Longrightarrow> (\<not> b \<Longrightarrow> returns I m' J) \<Longrightarrow> returns I (if b then m else m') J"
  by simp

lemma returns_get: "returns I (get g) (\<lambda>_. I)"
  by (simp add: returns_def)

lemma returns_executeTask:
  assumes n: "big_enough n T w def"
  shows "returns (at_work (TI_RunID item) def w) (executeTask n item) (\<lambda>_. at_work (TI_RunID item) def w)"
  unfolding executeTask_def
proof (rule returns_work_load, goal_cases)
  case (1 run)
  let ?I = "at_work (TI_RunID item) def w"
  have w: "steady T w def" using n by (simp add: big_enough_def)
  have ticket: "returns ?I (store_GetTicket i) (\<lambda>_. ?I)" for i
    by (rule returns_work_quiet [OF adds_store(1)])
       (auto simp: store_GetTicket_def lift_sum_def bnd_def fail_def ret_def get_def split: sum.splits
         intro!: reading_no_crash)
  have handler: "returns ?I (call_handler h run x y) (\<lambda>_. ?I)" for h x y
    by (rule returns_work_quiet [OF adds_call_handler]) (simp add: call_handler_def bnd_def sample_def ret_def)
  have json: "returns ?I (mustJSON b x) (\<lambda>_. ?I)" for b and x :: "goobj option"
    by (simp add: mustJSON_def returns_ret returns_crash)
  show ?case
    by (intro returns_option returns_sum returns_fail returns_bnd [where J = "\<lambda>_. ?I"] returns_get ticket
        handler json returns_work_emit [OF 1] returns_failStep [OF n 1] returns_task_failed [OF n 1]
        returns_work_advance [OF w recur_dispatch [OF n] 1]) simp_all
qed

lemma returns_work_GetRun:
  assumes f: "\<And>run. R_ID run = r \<Longrightarrow> returns (at_work r def w) (f run) (\<lambda>_. at_work r def w)"
  shows "returns (at_work r def w) (bnd (attempt (GetRun r)) (\<lambda>x. case x of Inl e \<Rightarrow> g e | Inr run \<Rightarrow> f run))
    (\<lambda>_. at_work r def w)"
proof (rule returns_via [where f = f and P = "\<lambda>run. R_ID run = r"])
  fix s
  assume s: "at_work r def w s"
  obtain run t where t: "GetRun r s = (Ok run, t)" "at_work r def w t" "live t r run def"
    using alive_GetRun [OF stable_at_work s] by blast
  with live_ID [OF t(3)] show "\<exists>k t. bnd (attempt (GetRun r)) (\<lambda>x. case x of Inl e \<Rightarrow> g e | Inr run \<Rightarrow> f run) s = f k t \<and>
      at_work r def w t \<and> R_ID k = r"
    by (intro exI [of _ run] exI [of _ t]) (simp add: bnd_run attempt_run)
qed (rule f)

lemma returns_work_advanceApproval:
  assumes n: "big_enough n T w def" and r: "R_ID run = r"
  shows "returns (at_work r def w) (advanceApproval (dispatch n) run def step) (\<lambda>_. at_work r def w)"
proof -
  have w: "steady T w def" using n by (simp add: big_enough_def)
  show ?thesis
    unfolding advanceApproval_def Let_def
    by (intro returns_option returns_if returns_crash returns_bnd [where J = "\<lambda>_. at_work r def w"] returns_ret
        returns_work_emit [OF r] returns_work_advance [OF w recur_dispatch [OF n] r]) simp_all
qed

lemma returns_dispatchAfter:
  assumes n: "big_enough n T w def" and r: "R_ID run = r"
  shows "returns (at_work r def w) (dispatchAfter n run def) (\<lambda>_. at_work r def w)"
proof -
  let ?I = "at_work r def w"
  have w: "steady T w def" using n by (simp add: big_enough_def)
  have fire: "returns ?I (fireTimer (dispatch n) run def nm) (\<lambda>_. ?I)" for nm
    by (rule returns_fireTimer [OF stable_at_work stable_at_work w recur_dispatch [OF n] r])
  have timer: "returns ?I (bnd (is_due due) (\<lambda>ready.
      if ready then ignore (fireTimer (dispatch n) run def nm) else ret ())) (\<lambda>_. ?I)" for due nm
    by (rule returns_bnd [where J = "\<lambda>_. ?I"])
       (auto intro: returns_mono [OF returns_is_due [OF stable_at_work w]] returns_ignore fire returns_ret)
  have step: "returns ?I (dispatchAfter_step (dispatch n) run def nm) (\<lambda>_. ?I)" for nm
    unfolding dispatchAfter_step_def
    by (intro returns_option returns_ret returns_bnd [where J = "\<lambda>_. ?I"])
       (auto intro: returns_ret timer returns_submit_step [OF stable_at_work r] split: option.split)
  have "returns ?I (bnd (in_map_order ks) (\<lambda>names. for_each names (dispatchAfter_step (dispatch n) run def))) (\<lambda>_. ?I)" for ks
    by (intro returns_bnd [where J = "\<lambda>_. ?I"] returns_for_each step returns_order [OF stable_at_work])
  then show ?thesis unfolding dispatchAfter_def by (simp add: returns_ret)
qed

lemma returns_Approve:
  assumes n: "big_enough n T w def"
  shows "returns (at_work r def w) (Approve n r step who comment) (\<lambda>_. at_work r def w)"
  unfolding Approve_def
proof (rule returns_work_load, goal_cases)
  case (1 run)
  let ?I = "at_work r def w"
  have pending: "returns ?I (pending_approval run step b) (\<lambda>_. ?I)" for b
    unfolding pending_approval_def by (intro returns_option returns_fail) (simp add: returns_fail returns_ret)
  have check: "returns ?I (check e) (\<lambda>_. ?I)" for e
    unfolding check_def by (intro returns_option returns_fail returns_ret)
  have after: "returns ?I (bnd (ignore (advanceApproval (dispatch n) nr def step)) (\<lambda>_. dispatchAfter n nr def)) (\<lambda>_. ?I)"
    if "R_ID nr = r" for nr :: WorkflowRun
    by (intro returns_bnd [where J = "\<lambda>_. ?I"] returns_ignore [OF returns_work_advanceApproval [OF n that]]
        returns_dispatchAfter [OF n that])
  show ?case
    by (intro returns_bnd [where J = "\<lambda>_. ?I"] pending check returns_work_emit [OF 1] returns_work_GetRun after)
       simp_all
qed

section \<open>All runs\<close>

text \<open>Every run of the log is live and its workflow fits the bound.\<close>

definition fleet :: "nat \<Rightarrow> time \<Rightarrow> World \<Rightarrow> Engine \<Rightarrow> bool" where
  "fleet n T w s \<longleftrightarrow> G_world s = w \<and> sound s \<and>
     (\<forall>r. History (G_log s) r \<noteq> [] \<longrightarrow> (\<exists>def. alive r def s \<and> big_enough n T w def))"

lemma alive_parts: "alive r def s \<Longrightarrow> sound s \<and> keys_distinct (G_store s) \<and> History (G_log s) r \<noteq> []"
  unfolding alive_def using live_parts by blast

lemma alive_other:
  assumes a: "alive r' def s" and ad: "adds (on_run r X) s t" and ne: "History (G_log s) r \<noteq> []" "r' \<noteq> r"
  shows "alive r' def t"
proof -
  have l: "live s r' (replayed r' def (History (G_log s) r')) def" using a by (simp add: alive_def)
  have "History (G_log t) r' = History (G_log s) r'"
    by (rule adds_other_run [OF ad sound_log [OF live_sound [OF l]] ne(2)])
  with live_other [OF l ad ne] show ?thesis by (simp add: alive_def)
qed

lemma fleet_quiet:
  assumes f: "fleet n T w s" and q: "adds (\<lambda>_ _. False) s t"
  shows "fleet n T w t"
proof -
  have "sound t" using f by (intro sound_adds(1) [OF _ q]) (auto simp: fleet_def)
  moreover have "G_world t = w" using f q by (auto simp: fleet_def elim: addsE)
  moreover have "alive r def t" if "alive r def s" for r def
    using stable_emits_none [OF stable_at_work, of r def w s t] emits_none [OF q, of r] f that
    by (simp add: at_work_def fleet_def)
  ultimately show ?thesis using f adds_none_log [OF q] unfolding fleet_def by metis
qed

text \<open>Dispatching one run in a fleet.\<close>

lemma fleet_dispatch:
  assumes f: "fleet n T w s" and l: "live s r run def" and n: "big_enough n T w def"
    and run: "dispatch n run def s = (x, t)"
  shows "fleet n T w t \<and> x \<noteq> Crash OutOfFuel"
proof -
  have a: "alive r def s" using live_alive [OF l] by blast
  have w: "at_work r def w s" using a f by (simp add: at_work_def fleet_def)
  note ret = at_work_dispatch [OF n w l]
  have "calms T r def s t \<and> x \<noteq> Crash OutOfFuel"
    using returnsD [OF ret calms_refl [OF a]] run by (cases x) auto
  then have t: "calms T r def s t" and x: "x \<noteq> Crash OutOfFuel" by blast+
  have ad: "adds (on_run r (\<lambda>_. False)) s t"
    using keeps_at [OF adds_dispatch [of run r "\<lambda>_. False" n def], of s] live_ID [OF l] run by simp
  have ne: "History (G_log s) r \<noteq> []" using alive_parts [OF a] by blast
  have others: "alive r' def' t" if "alive r' def' s" "r' \<noteq> r" for r' def'
    by (rule alive_other [OF that(1) ad ne that(2)])
  have st: "sound t" using alive_parts t by (auto simp: calms_def)
  have hist: "History (G_log s) r' \<noteq> []" if ne': "History (G_log t) r' \<noteq> []" for r'
    using adds_other_run [OF ad, of r'] f ne ne' sound_log by (cases "r' = r") (auto simp: fleet_def)
  have "\<exists>d. alive r' d t \<and> big_enough n T w d" if "History (G_log t) r' \<noteq> []" for r'
  proof (cases "r' = r")
    case True
    with t n show ?thesis by (auto simp: calms_def)
  next
    case False
    with others hist [OF that] f show ?thesis unfolding fleet_def by blast
  qed
  with st t f x show ?thesis by (simp add: fleet_def calms_def)
qed

lemma fleet_visit:
  assumes f: "fleet n T w s"
  shows "\<exists>u. fleet n T w u \<and>
    ((\<exists>e. GetRun r s = (Err e, u)) \<or>
     (\<exists>run t def. GetRun r s = (Ok run, t) \<and> loadWorkflow (R_Workflow run) (R_WorkflowVer run) t = (Ok def, u) \<and>
        live u r run def \<and> big_enough n T w def))"
proof (cases "History (G_log s) r = []")
  case True
  have av: "available (G_world s)" using f sound_available by (auto simp: fleet_def)
  obtain u where "GetRun r s = (Err ErrNotFound, u)"
    using GetRun_available [OF av, of r] True by (auto simp: run_view_def)
  moreover from this have "fleet n T w u"
    using fleet_quiet [OF f keeps_at [OF adds_GetRun]] by (metis snd_conv)
  ultimately show ?thesis by blast
next
  case False
  with f obtain def where d: "alive r def s" "big_enough n T w def" unfolding fleet_def by blast
  let ?run = "replayed r def (History (G_log s) r)"
  obtain t where t: "GetRun r s = (Ok ?run, t)" "emits r [] s t"
    using live_GetRun [OF d(1) [unfolded alive_def]] by blast
  have ft: "fleet n T w t" using fleet_quiet [OF f keeps_at [OF adds_GetRun]] t(1) by (metis snd_conv)
  have lt: "live t r ?run def"
    using live_emits [OF d(1) [unfolded alive_def] t(2)] by (auto simp: payloads_def)
  obtain u where u: "loadWorkflow (R_Workflow ?run) (R_WorkflowVer ?run) t = (Ok def, u)" "emits r [] t u"
    using live_load [OF lt] by blast
  have fu: "fleet n T w u" using fleet_quiet [OF ft keeps_at [OF adds_loadWorkflow]] u(1) by (metis snd_conv)
  have "live u r ?run def" using live_emits [OF lt u(2)] by (auto simp: payloads_def)
  with t(1) u(1) fu d(2) show ?thesis by blast
qed

lemma returns_visit:
  assumes err: "\<And>s e u. GetRun i s = (Err e, u) \<Longrightarrow> m s = (Ok (), u) \<or> m s = (Err e, u)"
    and ok: "\<And>s run t def u. GetRun i s = (Ok run, t) \<Longrightarrow>
      loadWorkflow (R_Workflow run) (R_WorkflowVer run) t = (Ok def, u) \<Longrightarrow> m s = dispatch n run def u"
  shows "returns (fleet n T w) m (\<lambda>_. fleet n T w)"
proof -
  have "fleet n T w t \<and> x \<noteq> Crash OutOfFuel" if s: "fleet n T w s" and run: "m s = (x, t)" for s x t
  proof -
    obtain u where u: "fleet n T w u" "(\<exists>e. GetRun i s = (Err e, u)) \<or>
       (\<exists>run t def. GetRun i s = (Ok run, t) \<and> loadWorkflow (R_Workflow run) (R_WorkflowVer run) t = (Ok def, u) \<and>
          live u i run def \<and> big_enough n T w def)"
      using fleet_visit [OF s, of i] by blast
    from u(2) show ?thesis
    proof (elim disjE exE conjE)
      fix e assume "GetRun i s = (Err e, u)"
      from err [OF this] run u(1) show ?thesis by auto
    next
      fix rn v def
      assume g: "GetRun i s = (Ok rn, v)" "loadWorkflow (R_Workflow rn) (R_WorkflowVer rn) v = (Ok def, u)"
        and l: "live u i rn def" "big_enough n T w def"
      have "dispatch n rn def u = (x, t)" using run ok [OF g] by simp
      then show ?thesis by (rule fleet_dispatch [OF u(1) l])
    qed
  qed
  then show ?thesis by (intro returnsI) blast+
qed

lemma returns_log_Runs: "returns (fleet n T w) log_Runs (\<lambda>_. fleet n T w)"
proof -
  have "fst (log_Runs s) \<noteq> Crash c" for s c
    by (auto simp: log_Runs_def reading_def in_map_order_def bnd_def sample_def fail_def get_def ret_def)
  moreover have "fleet n T w t" if "fleet n T w s" "log_Runs s = (x, t)" for s t x
    using fleet_quiet [OF that(1) keeps_at [OF adds_log_Runs]] that(2) by (metis snd_conv)
  ultimately show ?thesis by (intro returnsI) (blast, blast, metis fst_conv)
qed

lemma returns_Recover: "returns (fleet n T w) (Recover n) (\<lambda>_. fleet n T w)"
  unfolding Recover_def
proof (intro returns_bnd [OF returns_log_Runs] returns_for_each, goal_cases)
  case (1 ids i)
  show ?case by (rule returns_visit [where i = i]) (simp_all add: bnd_run attempt_run)
qed

lemma returns_sweep: "returns (fleet n T w) (sweep n) (\<lambda>_. fleet n T w)"
  unfolding sweep_def
proof (rule returns_bnd [where J = "\<lambda>_. fleet n T w"])
  show "returns (fleet n T w) (attempt log_Runs) (\<lambda>_. fleet n T w)"
    by (rule returns_mono [OF returns_attempt [OF returns_log_Runs]]) (auto split: sum.splits)
  have "returns (fleet n T w) (bnd (attempt (GetRun i)) (\<lambda>r. case r of
      Inl _ \<Rightarrow> ret ()
    | Inr run \<Rightarrow> bnd (attempt (loadWorkflow (R_Workflow run) (R_WorkflowVer run))) (\<lambda>d.
        case d of Inl _ \<Rightarrow> ret () | Inr def \<Rightarrow> dispatch n run def))) (\<lambda>_. fleet n T w)" for i
    by (rule returns_visit [where i = i]) (simp_all add: bnd_run attempt_run)
  then show "returns (fleet n T w) (case ids of Inl _ \<Rightarrow> ret () | Inr ids \<Rightarrow> for_each ids (\<lambda>i.
           bnd (attempt (GetRun i)) (\<lambda>r. case r of Inl _ \<Rightarrow> ret () | Inr run \<Rightarrow>
                 bnd (attempt (loadWorkflow (R_Workflow run) (R_WorkflowVer run))) (\<lambda>d.
                   case d of Inl _ \<Rightarrow> ret () | Inr def \<Rightarrow> dispatch n run def)))) (\<lambda>_. fleet n T w)" for ids
    by (intro returns_sum returns_ret returns_for_each)
qed simp

section \<open>Properties\<close>

text \<open>
  (C4) Dispatching a run ends: when no delay of its workflow can elapse during the call, nested
  calls of dispatch go no deeper than the number of steps and SLAs of the workflow, whatever the
  run's history, the order of map iterations and the other runs are.
\<close>

theorem dispatch_returns:
  assumes "live s r run def" "big_enough n T (G_world s) def"
  shows "fst (dispatch n run def s) \<noteq> Crash OutOfFuel"
  by (rule dispatch_fits [OF assms])

text \<open>
  (C19) The calls that dispatch end too: executing a task and approving a step of a live run, and
  the passes of the timer and of recovery when every run of the log is live, all stay within the
  same depth.
\<close>

theorem calls_return:
  assumes "fleet n T (G_world s) s"
  shows "fst (sweep n s) \<noteq> Crash OutOfFuel \<and> fst (Recover n s) \<noteq> Crash OutOfFuel \<and>
    (History (G_log s) (TI_RunID item) \<noteq> [] \<longrightarrow> fst (executeTask n item s) \<noteq> Crash OutOfFuel) \<and>
    (History (G_log s) r \<noteq> [] \<longrightarrow> fst (Approve n r step who comment s) \<noteq> Crash OutOfFuel)"
proof (intro conjI impI)
  have alive: "\<exists>def. at_work r def (G_world s) s \<and> big_enough n T (G_world s) def"
    if "History (G_log s) r \<noteq> []" for r
    using assms that unfolding fleet_def at_work_def by blast
  show "fst (sweep n s) \<noteq> Crash OutOfFuel" "fst (Recover n s) \<noteq> Crash OutOfFuel"
    using returnsD(3) [OF returns_sweep assms] returnsD(3) [OF returns_Recover assms] by (metis prod.collapse)+
  show "fst (executeTask n item s) \<noteq> Crash OutOfFuel" if "History (G_log s) (TI_RunID item) \<noteq> []"
    using alive [OF that] returnsD(3) [OF returns_executeTask] by (metis prod.collapse)
  show "fst (Approve n r step who comment s) \<noteq> Crash OutOfFuel" if "History (G_log s) r \<noteq> []"
    using alive [OF that] returnsD(3) [OF returns_Approve] by (metis prod.collapse)
qed

lemma big_enough_demo: "big_enough 2 6 (calm (\<lambda>_. 5)) approval_flow"
  by (simp add: big_enough_def steady_def approval_flow_def eval)

theorem dispatch_returns_witness:
  "fst (dispatch 2 (demo_run approval_demo approval_flow) approval_flow approval_demo) \<noteq> Crash OutOfFuel"
proof -
  have "G_world approval_demo = calm (\<lambda>_. 5)" by (simp add: approval_demo_def demo_state_def)
  with dispatch_returns [OF live_approval_demo] big_enough_demo show ?thesis by simp
qed

lemma fleet_demo: "fleet 2 6 (G_world approval_demo) approval_demo"
proof -
  have "G_world approval_demo = calm (\<lambda>_. 5)" by (simp add: approval_demo_def demo_state_def)
  moreover have "r = ''run_0''" if "History (G_log approval_demo) r \<noteq> []" for r
    using that by (auto simp: approval_demo_def demo_state_def History_def split: if_splits)
  ultimately show ?thesis
    using live_alive [OF live_approval_demo] live_sound [OF live_approval_demo] big_enough_demo
    unfolding fleet_def by metis
qed

theorem calls_return_witness:
  "fst (sweep 2 approval_demo) \<noteq> Crash OutOfFuel \<and>
   fst (Approve 2 ''run_0'' ''ok'' ''mgr'' [] approval_demo) \<noteq> Crash OutOfFuel"
proof -
  have "History (G_log approval_demo) ''run_0'' \<noteq> []"
    by (simp add: approval_demo_def demo_state_def History_def demo_events.simps)
  with calls_return [OF fleet_demo] show ?thesis by blast
qed

end
