(* ===== verification/Engine_Cycles.thy ===== *)
theory Engine_Cycles
  imports Engine_Termination
begin

text \<open>
  Where dispatching does not end: the delays of no duration that lead round. The side condition of
  the termination theorems, that no delay elapses during the call, is needed.
\<close>

section \<open>The clock is read later and later\<close>

definition later :: "Engine \<Rightarrow> Engine \<Rightarrow> bool" where
  "later s t \<longleftrightarrow> G_ticks s \<le> G_ticks t"

interpretation lt: frame later
  by unfold_locales (simp_all add: later_def)

named_theorems later_intros

lemma later_sample [later_intros]: "keeps later (sample f)"
  by (simp add: keeps_def sample_def later_def)

lemma later_put [later_intros]: "(\<And>s. G_ticks (f s) = G_ticks s) \<Longrightarrow> keeps later (put f)"
  by (simp add: keeps_def put_def later_def)

lemmas [later_intros] = lt.keeps_ret lt.keeps_fail lt.keeps_get lt.keeps_bnd lt.keeps_attempt lt.keeps_if
  lt.keeps_option lt.keeps_sum

lemma later_do_append [later_intros]: "keeps later (do_append w ev)"
  by (simp add: keeps_def do_append_def later_def split: prod.split)

lemma later_append [later_intros]: "keeps later (append_event ev)"
  unfolding append_event_def log_Append_def writing_def now_def
  by (intro later_intros) (auto intro: later_intros split: outcome.split)

lemma later_scheduleStep: "keeps later (scheduleStep r i def nm)"
  unfolding scheduleStep_def Let_def now_def
  by (intro later_intros) (auto intro!: later_intros split: StepKind.split list.split)

lemma later_GetRun: "keeps later (GetRun r)"
  unfolding GetRun_def defForRun_def loadWorkflow_def cache_workflow_def log_History_def store_GetTicket_def
    store_GetWorkflow_def reading_def lift_sum_def
  by (intro later_intros) simp

lemma later_is_due: "is_due due s = (Ok (due \<le> clock (G_world s) (G_ticks s)), tick_of s)"
  by (simp add: is_due_def now_def sample_run bnd_run)

lemma crash_bnd: "fst (m s) = Crash c \<Longrightarrow> fst (bnd m f s) = Crash c"
  by (auto simp: bnd_run split: prod.split)

lemma crash_ignore: "fst (m s) = Crash c \<Longrightarrow> fst (ignore m s) = Crash c"
  unfolding ignore_def by (rule crash_bnd) (cases "m s", simp add: attempt_run)

section \<open>Cycles\<close>

text \<open>Every step of \<open>D\<close> is a delay of no duration that leads to a step of \<open>D\<close>.\<close>

definition zero_delays :: "WorkflowDef \<Rightarrow> string set \<Rightarrow> bool" where
  "zero_delays def D \<longleftrightarrow> [] \<notin> D \<and> (\<forall>nm \<in> D. \<exists>sd d. Step def nm = Some sd \<and> SD_Kind sd = KindDelay \<and>
     SD_Delay sd = Some d \<and> DD_Duration d = 0 \<and> SD_Next sd \<in> D)"

text \<open>A run that is in such a cycle: a step of it has come to its time, and no other step has work to do.\<close>

definition turning :: "string set \<Rightarrow> WorkflowRun \<Rightarrow> time \<Rightarrow> bool" where
  "turning D run tm \<longleftrightarrow> \<not> terminal (R_Status run) \<and>
     (\<exists>nm \<in> D. \<exists>due. waiting_until run nm due \<and> due \<le> tm) \<and>
     (\<forall>nm st. step_of run nm = Some st \<and> nm \<notin> D \<longrightarrow> SS_Status st \<noteq> StepPending \<and> SS_Status st \<noteq> StepWaiting)"

text \<open>A clock that does not go back, and map iterations that visit every key.\<close>

definition forward :: "World \<Rightarrow> bool" where
  "forward w \<longleftrightarrow> (\<forall>j k. 0 < clock w j \<and> (j \<le> k \<longrightarrow> clock w j \<le> clock w k)) \<and> (\<forall>k ks. set (order w k ks) = set ks)"

lemma forward_mono: "forward w \<Longrightarrow> j \<le> k \<Longrightarrow> clock w j \<le> clock w k"
  by (simp add: forward_def)

lemma zero_delaysD:
  assumes "zero_delays def D" "nm \<in> D"
  obtains sd d where "Step def nm = Some sd" "SD_Kind sd = KindDelay" "SD_Delay sd = Some d" "DD_Duration d = 0"
    "SD_Next sd \<in> D" "SD_Next sd \<noteq> []" "step_ready sd"
  using assms by (fastforce simp: zero_delays_def step_ready_def)

lemma live_kind: "live s r run def \<Longrightarrow> step_of run nm = Some st \<Longrightarrow> SS_Kind st = step_kind def nm"
  using live_parts(5) run_ok_kind [OF run_ok_applyAll [OF run_ok_new]] by (metis replayed_def)

text \<open>After a step of the cycle has fired and the next is scheduled at a positive time, the run turns on.\<close>

lemma turning_on:
  assumes t: "turning D run tm" and D: "nm \<in> D" "nx \<in> D" and k: "step_kind def nx = KindDelay" and st: "step_of run nm \<noteq> None"
    and kinds: "\<forall>nm st. step_of run nm = Some st \<longrightarrow> SS_Kind st = step_kind def nm"
    and ps: "payloads es = [TimerFired nm, StepCompletedP nm None, StepScheduled nx KindDelay due]"
    and due: "0 < due" "due \<le> tm'"
  shows "turning D (applyAll run def es) tm'"
proof -
  have status: "R_Status (applyAll run def es) = R_Status run" by (simp add: R_Status_applyAll ps)
  have "waiting_until (applyAll run def es) nx due"
    using due kinds k st
    by (auto simp: waiting_until_def step_of_applyAll ps due_upd_def ensured_def new_step_def split: option.split)
  moreover have "step_of (applyAll run def es) m = step_of run m" if "m \<notin> D" for m
    using that D by (auto simp: step_of_applyAll ps)
  ultimately show ?thesis using t due(2) D(2) unfolding turning_def status by metis
qed

section \<open>Dispatching such a run\<close>

definition runs_out :: "string set \<Rightarrow> WorkflowDef \<Rightarrow> nat \<Rightarrow> bool" where
  "runs_out D def n \<longleftrightarrow> (\<forall>s r run. live s r run def \<and> forward (G_world s) \<and>
     turning D run (clock (G_world s) (G_ticks s)) \<longrightarrow> fst (dispatch n run def s) = Crash OutOfFuel)"

lemma fireTimer_turns:
  assumes D: "zero_delays def D" "nm \<in> D" and l: "live s r run def" and f: "forward (G_world s)"
    and t: "turning D run tm" and st: "step_of run nm \<noteq> None" and out: "runs_out D def n"
  shows "fst (fireTimer (dispatch n) run def nm s) = Crash OutOfFuel"
proof -
  obtain sd d where sd: "Step def nm = Some sd" "SD_Kind sd = KindDelay" "SD_Next sd \<in> D" "SD_Next sd \<noteq> []"
    using zero_delaysD [OF D] by metis
  obtain sd' d' where nx: "Step def (SD_Next sd) = Some sd'" "SD_Kind sd' = KindDelay" "SD_Delay sd' = Some d'"
      "DD_Duration d' = 0" "step_ready sd'"
    using zero_delaysD [OF D(1) sd(3)] by metis
  have r: "R_ID run = r" by (rule live_ID [OF l])
  obtain e1 s1 v1 where s1: "emit run (TimerFired nm) s = (Ok e1, s1)" "emits r [TimerFired nm] s s1"
      "live s1 r (applyOne def run v1) def"
    using live_emit [OF l r] by blast
  obtain e2 s2 v2 where s2: "emit run (StepCompletedP nm None) s1 = (Ok e2, s2)"
      "emits r [StepCompletedP nm None] s1 s2" "live s2 r (applyOne def (applyOne def run v1) v2) def"
    using live_emit [OF s1(3) r] by blast
  have w: "G_world s2 = G_world s" using emits_world [OF s1(2)] emits_world [OF s2(2)] by simp
  let ?due = "clock (G_world s) (G_ticks s2)"
  have "sched_payloads sd' (SD_Next sd) ?due = [StepScheduled (SD_Next sd) KindDelay ?due]"
    using nx by (simp add: sched_payloads_def)
  then obtain e3 s3 where s3: "scheduleStep r (R_TicketID run) def (SD_Next sd) s2 = (Ok e3, s3)"
      "emits r [StepScheduled (SD_Next sd) KindDelay ?due] s2 s3"
    using scheduleStep_emits [OF live_available [OF s2(3)] nx(1,5), of r "R_TicketID run"] by (auto simp: w)
  have all: "emits r [TimerFired nm, StepCompletedP nm None, StepScheduled (SD_Next sd) KindDelay ?due] s s3"
    using emits_trans [OF s1(2) emits_trans [OF s2(2) s3(2)]] by simp
  obtain es where es: "payloads es = [TimerFired nm, StepCompletedP nm None, StepScheduled (SD_Next sd) KindDelay ?due]"
      "live s3 r (applyAll run def es) def"
    using live_emits [OF l all] by auto
  obtain s4 where s4: "GetRun r s3 = (Ok (applyAll run def es), s4)" "emits r [] s3 s4"
    using live_GetRun [OF es(2)] by blast
  have l4: "live s4 r (applyAll run def es) def"
    using live_emits [OF es(2) s4(2)] by (auto simp: payloads_def)
  have w4: "G_world s4 = G_world s" using emits_world [OF all] emits_world [OF s4(2)] by simp
  have "G_ticks s2 \<le> G_ticks s4"
    using lt.trans [OF keepsD [OF later_scheduleStep s3(1)] keepsD [OF later_GetRun s4(1)]] by (simp add: later_def)
  then have due: "0 < ?due" "?due \<le> clock (G_world s) (G_ticks s4)"
    using f by (simp_all add: forward_def)
  have "step_kind def (SD_Next sd) = KindDelay" using nx by (simp add: step_kind_def)
  from turning_on [OF t D(2) sd(3) this st _ es(1) due] live_kind [OF l]
  have "turning D (applyAll run def es) (clock (G_world s4) (G_ticks s4))" unfolding w4 by blast
  then have "fst (dispatch n (applyAll run def es) def s4) = Crash OutOfFuel"
    using out l4 f unfolding runs_out_def w4 [symmetric] by blast
  then show ?thesis
    using s1(1) s2(1) s3(1) s4(1) sd(1,4) r by (simp add: fireTimer_def advance_def bnd_run split: prod.split)
qed

text \<open>The loop over the steps stops at the first step of the cycle that has come to its time.\<close>

lemma steps_turn:
  assumes D: "zero_delays def D" and l: "live s r run def" and f: "forward (G_world s)" and t: "turning D run tm"
    and out: "runs_out D def n" and nm: "nm \<in> set names" "nm \<in> D" "waiting_until run nm due"
    and due: "due \<le> clock (G_world s) (G_ticks s)"
  shows "fst (for_each names (dispatch_step (dispatch n) run def) s) = Crash OutOfFuel"
  using l f nm(1) due
proof (induction names arbitrary: s)
  case (Cons x xs)
  let ?rest = "for_each xs (dispatch_step (dispatch n) run def)"
  have next_step: "fst (for_each (x # xs) (dispatch_step (dispatch n) run def) s) = Crash OutOfFuel"
    if x: "x \<noteq> nm" "dispatch_step (dispatch n) run def x s = (Ok (), u)" and u: "u = s \<or> u = tick_of s" for u
  proof -
    have "live u r run def" using u Cons.prems(1) live_quiet [OF _ adds_tick] by blast
    moreover have "due \<le> clock (G_world u) (G_ticks u)"
      using u Cons.prems(4) forward_mono [OF Cons.prems(2), of "G_ticks s" "Suc (G_ticks s)"] by auto
    ultimately have "fst (?rest u) = Crash OutOfFuel"
      using Cons.IH [of u] Cons.prems(2,3) x(1) u by auto
    then show ?thesis by (simp add: bnd_run x(2))
  qed
  show ?case
  proof (cases "x \<in> D \<and> (\<exists>d. waiting_until run x d \<and> d \<le> clock (G_world s) (G_ticks s))")
    case True
    then obtain d where d: "waiting_until run x d" "d \<le> clock (G_world s) (G_ticks s)" by blast
    have "live (tick_of s) r run def" by (rule live_quiet [OF Cons.prems(1) adds_tick])
    moreover have "step_of run x \<noteq> None" using d(1) by (auto simp: waiting_until_def)
    ultimately have "fst (fireTimer (dispatch n) run def x (tick_of s)) = Crash OutOfFuel"
      using fireTimer_turns [OF D, of x "tick_of s" r run tm n] True Cons.prems(2) t out by simp
    then have "fst (dispatch_step (dispatch n) run def x s) = Crash OutOfFuel"
      using d(2) by (simp add: dispatch_step_delay [OF d(1)] crash_ignore)
    then show ?thesis by (simp add: crash_bnd)
  next
    case False
    have nm_x: "x \<noteq> nm" using False nm(2,3) Cons.prems(4) by blast
    show ?thesis
    proof (cases "\<exists>d. waiting_until run x d \<and> x \<in> D")
      case True
      then obtain d where d: "waiting_until run x d" by blast
      with False True have "\<not> d \<le> clock (G_world s) (G_ticks s)" by blast
      then show ?thesis using next_step [OF nm_x, of "tick_of s"] by (simp add: dispatch_step_delay [OF d])
    next
      case False
      have "dispatch_step (dispatch n) run def x s = (Ok (), s)"
      proof (cases "step_of run x")
        case (Some st)
        show ?thesis
        proof (cases "x \<in> D")
          case True
          then have "SS_Kind st = KindDelay"
            using live_kind [OF Cons.prems(1) Some] zero_delaysD [OF D True] by (metis step_kind_Some)
          then show ?thesis using False True Some
            by (auto simp: dispatch_step_def waiting_until_def split: option.split)
        next
          case x: False
          then have "SS_Status st \<noteq> StepPending" "SS_Status st \<noteq> StepWaiting" using t Some by (auto simp: turning_def)
          then show ?thesis using Some by (simp add: dispatch_step_def split: StepKind.split)
        qed
      qed (simp add: dispatch_step_def)
      then show ?thesis by (rule next_step [OF nm_x]) simp
    qed
  qed
qed simp

text \<open>
  (C40) Delays of no duration that lead round are dispatched without end: when a step of such a
  cycle has come to its time in an unfinished run of a workflow without SLAs, and no other step has
  work to do, dispatching the run exhausts every bound on the depth, so the source recurses until
  its stack is exhausted; however long the cycle is, and whether or not the clock moves.
\<close>

theorem zero_delay_cycle:
  assumes "live s r run def" "W_SLAs def = []" "zero_delays def D" "forward (G_world s)"
    and "turning D run (clock (G_world s) (G_ticks s))"
  shows "fst (dispatch n run def s) = Crash OutOfFuel"
proof -
  have "runs_out D def n"
  proof (induction n)
    case 0
    show ?case by (simp add: runs_out_def)
  next
    case (Suc n)
    show ?case
      unfolding runs_out_def
    proof (intro allI impI, elim conjE)
      fix s r run
      assume l: "live s r run def" and f: "forward (G_world s)" and t: "turning D run (clock (G_world s) (G_ticks s))"
      obtain nm due where nm: "nm \<in> D" "waiting_until run nm due" "due \<le> clock (G_world s) (G_ticks s)"
        using t by (auto simp: turning_def)
      let ?names = "order (G_world s) (G_ticks s) (map fst (R_Steps run))"
      have "nm \<in> set (map fst (R_Steps run))"
        using nm(2) by (auto simp: waiting_until_def step_of_def dest: map_of_SomeD intro: rev_image_eqI)
      then have "nm \<in> set ?names" using f by (simp add: forward_def)
      moreover have "live (tick_of s) r run def" by (rule live_quiet [OF l adds_tick])
      moreover have "due \<le> clock (G_world s) (Suc (G_ticks s))"
        using nm(3) forward_mono [OF f, of "G_ticks s" "Suc (G_ticks s)"] by simp
      ultimately have "fst (for_each ?names (dispatch_step (dispatch n) run def) (tick_of s)) = Crash OutOfFuel"
        using steps_turn [OF assms(3), of "tick_of s" r run _ n nm ?names due] f t Suc.IH nm by simp
      then obtain u where "for_each ?names (dispatch_step (dispatch n) run def) (tick_of s) = (Crash OutOfFuel, u)"
        by (metis prod.collapse)
      then show "fst (dispatch (Suc n) run def s) = Crash OutOfFuel"
        using t assms(2) by (simp add: turning_def dispatch_body_def CheckSLA_def in_map_order_def sample_run bnd_run)
    qed
  qed
  with assms show ?thesis unfolding runs_out_def by blast
qed

section \<open>A cycle of two steps\<close>

definition cycle_flow :: WorkflowDef where
  "cycle_flow = flow [delay_step ''a'' 0 ''b'', delay_step ''b'' 0 ''a''] []"

definition cycle_start :: "nat \<Rightarrow> (Ticket \<times> WorkflowRun) res \<times> Engine" where
  "cycle_start n = CreateTicket n ''wf'' ''1'' ''laptop'' None (engine_with (calm (\<lambda>k. 5 + int k)) cycle_flow)"

lemma cycle_start_dispatch:
  "cycle_start n = bnd (dispatch n (demo_run (snd (cycle_start 0)) cycle_flow) cycle_flow)
     (\<lambda>_. ret (demo_ticket\<lparr>T_CreatedAt := 6, T_UpdatedAt := 6\<rparr>, demo_run (snd (cycle_start 0)) cycle_flow)) (snd (cycle_start 0))"
  unfolding cycle_start_def cycle_flow_def demo_run_def replayed_def eval_created
  by (simp add: eval split: prod.split res.split cong: eval_congs)

lemma live_cycle: "live (snd (cycle_start 0)) ''run_0'' (demo_run (snd (cycle_start 0)) cycle_flow) cycle_flow"
proof -
  have "reachable available 0 (snd (cycle_start 0))"
  proof -
    have "snd (cycle_start 0) = perform 0 (NewTicket ''wf'' ''1'' ''laptop'' None)
        (perform 0 (Deploy cycle_flow) (NewEngine NewInMemoryEventLog NewInMemoryStore 4 (calm (\<lambda>k. 5 + int k))))"
      by (simp add: cycle_start_def engine_with_def)
    then show ?thesis
      by (simp only:) (intro next_state [OF _ engine_step.call] start available_calm)
  qed
  from reachable_sound [OF this] show ?thesis
    unfolding live_def demo_run_def cycle_start_def cycle_flow_def
    by (auto simp: eval replayed_def def_of_def keys_distinct_single cong: eval_congs)
qed

theorem zero_delay_cycle_witness:
  "fst (CreateTicket 1000 ''wf'' ''1'' ''laptop'' None (engine_with (calm (\<lambda>k. 5 + int k)) cycle_flow)) = Crash OutOfFuel"
proof -
  let ?s = "snd (cycle_start 0)" and ?run = "demo_run (snd (cycle_start 0)) cycle_flow"
  have facts: "R_Status ?run = RunStatusActive" "G_world ?s = calm (\<lambda>k. 5 + int k)"
    "\<exists>st. R_Steps ?run = [(''a'', st)] \<and> SS_Kind st = KindDelay \<and> SS_Status st = StepWaiting \<and>
      SS_DueAt st = Some 16"
    "11 \<le> G_ticks ?s"
    unfolding demo_run_def cycle_start_def cycle_flow_def
    by (simp_all add: eval replayed_def cong: eval_congs)
  have "zero_delays cycle_flow {''a'', ''b''}" "W_SLAs cycle_flow = []"
    by (simp_all add: zero_delays_def cycle_flow_def eval)
  moreover have "forward (G_world ?s)" by (simp add: facts(2) forward_def calm_def)
  moreover have "turning {''a'', ''b''} ?run (clock (G_world ?s) (G_ticks ?s))"
    using facts by (auto simp: turning_def terminal_def waiting_until_def calm_def step_of_def)
  ultimately have "fst (dispatch 1000 ?run cycle_flow ?s) = Crash OutOfFuel"
    using zero_delay_cycle [OF live_cycle, of "{''a'', ''b''}" 1000] by simp
  then show ?thesis
    unfolding cycle_start_def [symmetric] cycle_start_dispatch [of 1000] by (auto simp: bnd_run split: prod.split)
qed

end
