(* ===== verification/Versions.thy ===== *)
theory Versions
  imports Model
begin

text \<open>
  The registry of workflow definitions (engine/dsl/loader.go): its map is an association list
  whose order is the order in which Go happens to iterate it. \<open>compareVersions\<close> compares dotted
  versions component by component, as numbers where both are numbers and as strings otherwise.
\<close>

section \<open>The code\<close>

type_synonym Registry = "(string \<times> WorkflowDef) list"

text \<open>\<^verbatim>\<open>fmt.Errorf\<close> in Resolve and Latest.\<close>

datatype lookup_error = VersionNotFound string string | WorkflowNotFound string

text \<open>\<^verbatim>\<open>filepath.Ext\<close>: from the last dot of the last path element.\<close>

fun Ext_loop :: "string \<Rightarrow> string \<Rightarrow> string" where
  "Ext_loop acc [] = []"
| "Ext_loop acc (c # cs) =
     (if c = CHR ''/'' then [] else if c = CHR ''.'' then c # acc else Ext_loop (c # acc) cs)"

definition Ext :: "string \<Rightarrow> string" where
  "Ext path = Ext_loop [] (rev path)"

definition isWorkflowFile :: "string \<Rightarrow> bool" where
  "isWorkflowFile path \<longleftrightarrow> ToLower (Ext path) = ''.yaml'' \<or> ToLower (Ext path) = ''.yml''"

definition registry_key :: "string \<Rightarrow> string \<Rightarrow> string" where
  "registry_key name version = name @ ''@'' @ version"

definition Count :: "Registry \<Rightarrow> nat" where
  "Count r = length r"

definition component :: "string list \<Rightarrow> nat \<Rightarrow> string" where
  "component xs i = (if i < length xs then xs ! i else ''0'')"

definition compare_component :: "string \<Rightarrow> string \<Rightarrow> int" where
  "compare_component av bv =
     (case (Atoi av, Atoi bv) of
        (Some ai, Some bi) \<Rightarrow> if ai \<noteq> bi then if ai < bi then - 1 else 1 else 0
      | _ \<Rightarrow> if av \<noteq> bv then if av < bv then - 1 else 1 else 0)"

text \<open>The loop body for the remaining indices \<open>is\<close>: the first component that differs decides.\<close>

fun compare_loop :: "string list \<Rightarrow> string list \<Rightarrow> nat list \<Rightarrow> int" where
  "compare_loop as bs [] = 0"
| "compare_loop as bs (i # is) =
     (let c = compare_component (component as i) (component bs i)
      in if c \<noteq> 0 then c else compare_loop as bs is)"

definition compareVersions :: "string \<Rightarrow> string \<Rightarrow> int" where
  "compareVersions a b =
     (let as = split_on CHR ''.'' a; bs = split_on CHR ''.'' b
      in compare_loop as bs [0..<max (length as) (length bs)])"

text \<open>\<open>best\<close> is None while nothing was found.\<close>

fun Latest_loop :: "string \<Rightarrow> WorkflowDef option \<Rightarrow> WorkflowDef list \<Rightarrow> WorkflowDef option" where
  "Latest_loop name best [] = best"
| "Latest_loop name best (w # ws) =
     (if W_Name w \<noteq> name then Latest_loop name best ws
      else case best of
             None \<Rightarrow> Latest_loop name (Some w) ws
           | Some b \<Rightarrow> if 0 < compareVersions (W_Version w) (W_Version b)
                       then Latest_loop name (Some w) ws else Latest_loop name best ws)"

definition Latest :: "Registry \<Rightarrow> string \<Rightarrow> lookup_error + WorkflowDef" where
  "Latest r name =
     (case Latest_loop name None (map snd r) of
        None \<Rightarrow> Inl (WorkflowNotFound name) | Some w \<Rightarrow> Inr w)"

definition Resolve :: "Registry \<Rightarrow> string \<Rightarrow> string \<Rightarrow> lookup_error + WorkflowDef" where
  "Resolve r name version =
     (if version = [] \<or> EqualFold version ''latest'' then Latest r name
      else case map_of r (registry_key name version) of
             Some w \<Rightarrow> Inr w
           | None \<Rightarrow> Inl (VersionNotFound name version))"

section \<open>Comparison as a specification\<close>

text \<open>
  The specification for numeric versions: the numbers of the components, compared
  lexicographically, with missing components read as zero.
\<close>

definition numbers :: "string \<Rightarrow> int option list" where
  "numbers v = map Atoi (split_on CHR ''.'' v)"

definition numeric :: "string \<Rightarrow> bool" where
  "numeric v \<longleftrightarrow> None \<notin> set (numbers v)"

definition nth_number :: "string \<Rightarrow> nat \<Rightarrow> int" where
  "nth_number v i = (if i < length (numbers v) then the (numbers v ! i) else 0)"

lemma component_number:
  "numeric v \<Longrightarrow> Atoi (component (split_on CHR ''.'' v) i) = Some (nth_number v i)"
proof -
  assume n: "numeric v"
  show ?thesis
  proof (cases "i < length (split_on CHR ''.'' v)")
    case True
    then have "numbers v ! i \<in> set (numbers v)" by (simp add: numbers_def)
    with n have "numbers v ! i \<noteq> None" unfolding numeric_def by metis
    with True show ?thesis by (auto simp: component_def nth_number_def numbers_def)
  next
    case False
    have "Atoi ''0'' = Some 0" by code_simp
    with False show ?thesis by (simp add: component_def nth_number_def numbers_def)
  qed
qed

lemma compare_component_anti: "compare_component a b = - compare_component b a"
  by (auto simp: compare_component_def split: option.split)

lemma compare_component_refl [simp]: "compare_component a a = 0"
  by (simp add: compare_component_def split: option.split)

lemma compare_loop_anti: "compare_loop as bs is = - compare_loop bs as is"
proof (induction "is")
  case (Cons i "is")
  show ?case
    using Cons.IH compare_component_anti [of "component as i" "component bs i"] by (auto simp: Let_def)
qed simp

lemma compareVersions_anti: "compareVersions a b = - compareVersions b a"
  unfolding compareVersions_def Let_def
  by (subst max.commute) (rule compare_loop_anti)

text \<open>For numeric versions a sign of the first differing number.\<close>

definition first_diff :: "string \<Rightarrow> string \<Rightarrow> nat list \<Rightarrow> int" where
  "first_diff a b is =
     (case filter (\<lambda>i. nth_number a i \<noteq> nth_number b i) is of
        [] \<Rightarrow> 0 | i # _ \<Rightarrow> sgn (nth_number a i - nth_number b i))"

lemma compare_loop_numeric:
  assumes "numeric a" "numeric b"
  shows "compare_loop (split_on CHR ''.'' a) (split_on CHR ''.'' b) is = first_diff a b is"
  by (induction "is")
     (auto simp: Let_def compare_component_def component_number assms first_diff_def)

lemma nth_number_beyond: "length (split_on CHR ''.'' v) \<le> i \<Longrightarrow> nth_number v i = 0"
  by (simp add: nth_number_def numbers_def)

text \<open>The bound of the loop does not matter: beyond both versions all numbers are zero.\<close>

lemma upt_split: "m \<le> n \<Longrightarrow> [0..<n] = [0..<m] @ [m..<n]"
  by (metis le_add_diff_inverse upt_add_eq_append zero_le)

lemma first_diff_longer:
  assumes "max (length (split_on CHR ''.'' a)) (length (split_on CHR ''.'' b)) \<le> n"
  shows "first_diff a b [0..<max (length (split_on CHR ''.'' a)) (length (split_on CHR ''.'' b))] =
    first_diff a b [0..<n]"
proof -
  let ?m = "max (length (split_on CHR ''.'' a)) (length (split_on CHR ''.'' b))"
  have "[0..<n] = [0..<?m] @ [?m..<n]" by (rule upt_split) (rule assms)
  moreover have "filter (\<lambda>i. nth_number a i \<noteq> nth_number b i) [?m..<n] = []"
    by (auto simp: filter_empty_conv nth_number_beyond)
  ultimately show ?thesis by (simp add: first_diff_def)
qed

lemma compareVersions_numeric:
  assumes "numeric a" "numeric b"
    and "length (split_on CHR ''.'' a) \<le> n" "length (split_on CHR ''.'' b) \<le> n"
  shows "compareVersions a b = first_diff a b [0..<n]"
  using assms first_diff_longer [of a b n]
  by (simp add: compareVersions_def Let_def compare_loop_numeric)

lemma first_diff_trans:
  assumes "0 \<le> first_diff a b is" "0 \<le> first_diff b c is"
  shows "0 \<le> first_diff a c is"
  using assms
proof (induction "is")
  case (Cons i "is")
  show ?case
  proof (cases "nth_number a i = nth_number b i \<and> nth_number b i = nth_number c i")
    case True
    with Cons show ?thesis by (simp add: first_diff_def)
  next
    case False
    with Cons.prems have "nth_number b i \<le> nth_number a i" "nth_number c i \<le> nth_number b i"
      by (auto simp: first_diff_def sgn_if split: if_splits)
    with False have "nth_number c i < nth_number a i" by linarith
    then show ?thesis by (simp add: first_diff_def)
  qed
qed (simp add: first_diff_def)

lemma compareVersions_trans:
  assumes "numeric a" "numeric b" "numeric c"
    and "0 \<le> compareVersions a b" "0 \<le> compareVersions b c"
  shows "0 \<le> compareVersions a c"
proof -
  let ?n = "max (length (split_on CHR ''.'' a)) (max (length (split_on CHR ''.'' b)) (length (split_on CHR ''.'' c)))"
  have ab: "compareVersions a b = first_diff a b [0..<?n]"
    and bc: "compareVersions b c = first_diff b c [0..<?n]"
    and ac: "compareVersions a c = first_diff a c [0..<?n]"
    using assms(1-3) by (simp_all add: compareVersions_numeric)
  show ?thesis unfolding ac
    by (rule first_diff_trans) (fact assms(4) [unfolded ab], fact assms(5) [unfolded bc])
qed

text \<open>
  The order of numeric versions, said without the code: at the first place where they differ the
  number of \<open>a\<close> is the smaller one; a place that a version does not have counts as zero.
\<close>

definition version_below :: "string \<Rightarrow> string \<Rightarrow> bool" where
  "version_below a b \<longleftrightarrow> (\<exists>i. (\<forall>j < i. nth_number a j = nth_number b j) \<and> nth_number a i < nth_number b i)"

text \<open>
  Comparison is by number, not by text: on numeric versions the sign of compareVersions is
  that of the first pair of different numbers, missing components counting as zero, so that
  trailing zeros do not matter and 1.10 comes after 1.9.
\<close>

lemma compareVersions_by_number:
  assumes "numeric a" "numeric b" "\<forall>j < i. nth_number a j = nth_number b j"
    and "nth_number a i \<noteq> nth_number b i"
  shows "compareVersions a b = sgn (nth_number a i - nth_number b i)"
proof -
  let ?n = "max (Suc i) (max (length (split_on CHR ''.'' a)) (length (split_on CHR ''.'' b)))"
  have "[0..<?n] = [0..<i] @ i # [Suc i..<?n]"
    using upt_split [of i ?n] upt_conv_Cons [of i ?n] by simp
  then have "first_diff a b [0..<?n] = sgn (nth_number a i - nth_number b i)"
    using assms(3,4) by (auto simp: first_diff_def filter_empty_conv split: list.splits)
  with compareVersions_numeric [OF assms(1,2), of ?n] show ?thesis by simp
qed

lemma not_below: "numeric a \<Longrightarrow> numeric b \<Longrightarrow> 0 \<le> compareVersions a b \<Longrightarrow> \<not> version_below a b"
  using compareVersions_by_number [of a b] by (force simp: version_below_def)

lemma compareVersions_by_number_example: "compareVersions ''1.10'' ''1.9.3'' = 1"
proof -
  have n: "numeric ''1.10''" "numeric ''1.9.3''" by code_simp+
  have "nth_number ''1.10'' 1 = 10" "nth_number ''1.9.3'' 1 = 9"
    "nth_number ''1.10'' 0 = 1" "nth_number ''1.9.3'' 0 = 1" by code_simp+
  with compareVersions_by_number [OF n, of 1] show ?thesis by simp
qed

section \<open>Properties\<close>

lemma Latest_loop_Cons:
  "Latest_loop name best (w # ws) = Latest_loop name
     (if W_Name w = name \<and> (\<forall>b. best = Some b \<longrightarrow> 0 < compareVersions (W_Version w) (W_Version b))
      then Some w else best) ws"
  by (cases best) auto

lemma Latest_loop_result:
  "Latest_loop name best ws = Some w \<Longrightarrow> best = Some w \<or> w \<in> set ws \<and> W_Name w = name"
proof (induction ws arbitrary: best)
  case (Cons x xs)
  from Cons.IH [OF Cons.prems [unfolded Latest_loop_Cons]] show ?case by (auto split: if_splits)
qed simp

lemma Latest_loop_Some: "Latest_loop name (Some b) ws \<noteq> None"
proof (induction ws arbitrary: b)
  case (Cons x xs)
  show ?case unfolding Latest_loop_Cons using Cons.IH by simp
qed simp

lemma Latest_loop_None: "Latest_loop name None ws = None \<Longrightarrow> w \<in> set ws \<Longrightarrow> W_Name w \<noteq> name"
proof (induction ws)
  case (Cons x xs)
  from Cons.prems(1) have "W_Name x \<noteq> name" "Latest_loop name None xs = None"
    using Latest_loop_Some [of name x xs] by (auto split: if_splits)
  with Cons show ?case by auto
qed simp

lemma Latest_loop_max:
  assumes "Latest_loop name best ws = Some w"
    and "\<forall>x \<in> set ws. W_Name x = name \<longrightarrow> numeric (W_Version x)"
    and "\<forall>b. best = Some b \<longrightarrow> numeric (W_Version b)"
  shows "(\<forall>x \<in> set ws. W_Name x = name \<longrightarrow> 0 \<le> compareVersions (W_Version w) (W_Version x)) \<and>
    (\<forall>b. best = Some b \<longrightarrow> 0 \<le> compareVersions (W_Version w) (W_Version b)) \<and> numeric (W_Version w)"
  using assms
proof (induction ws arbitrary: best)
  case Nil
  have "compareVersions v v = 0" for v using compareVersions_anti [of v v] by simp
  with Nil show ?case by simp
next
  case (Cons x xs)
  show ?case
  proof (cases "W_Name x = name")
    case False
    with Cons show ?thesis by simp
  next
    case x: True
    show ?thesis
    proof (cases best)
      case None
      with x Cons.prems Cons.IH [of "Some x"] show ?thesis by simp
    next
      case (Some b)
      show ?thesis
      proof (cases "0 < compareVersions (W_Version x) (W_Version b)")
        case True
        with x Some Cons.prems Cons.IH [of "Some x"] have
          IH: "\<forall>y \<in> set xs. W_Name y = name \<longrightarrow> 0 \<le> compareVersions (W_Version w) (W_Version y)"
            "0 \<le> compareVersions (W_Version w) (W_Version x)" "numeric (W_Version w)" by simp_all
        have "0 \<le> compareVersions (W_Version w) (W_Version b)"
          using compareVersions_trans [OF IH(3) _ _ IH(2)] True x Some Cons.prems by simp
        with IH Some show ?thesis by simp
      next
        case False
        with x Some Cons.prems Cons.IH [of "Some b"] have
          IH: "\<forall>y \<in> set xs. W_Name y = name \<longrightarrow> 0 \<le> compareVersions (W_Version w) (W_Version y)"
            "0 \<le> compareVersions (W_Version w) (W_Version b)" "numeric (W_Version w)" by simp_all
        have "0 \<le> compareVersions (W_Version b) (W_Version x)"
          using False compareVersions_anti [of "W_Version b" "W_Version x"] by simp
        then have "0 \<le> compareVersions (W_Version w) (W_Version x)"
          using compareVersions_trans [OF IH(3) _ _ IH(2)] x Some Cons.prems by simp
        with IH Some show ?thesis by simp
      qed
    qed
  qed
qed

text \<open>
  (C38) "Latest" is the highest version: when the versions of a workflow name are all numeric,
  Latest returns a definition of that name below no other definition of the name, in the order of
  the numbers at the first place where two versions differ, whatever order the map is iterated in;
  it fails exactly when the name is unknown.
\<close>

theorem Latest_is_highest:
  assumes "\<forall>x \<in> snd ` set r. W_Name x = name \<longrightarrow> numeric (W_Version x)"
  shows "case Latest r name of
      Inl e \<Rightarrow> e = WorkflowNotFound name \<and> (\<forall>x \<in> snd ` set r. W_Name x \<noteq> name)
    | Inr w \<Rightarrow> w \<in> snd ` set r \<and> W_Name w = name \<and>
        (\<forall>x \<in> snd ` set r. W_Name x = name \<longrightarrow> \<not> version_below (W_Version w) (W_Version x))"
proof (cases "Latest_loop name None (map snd r)")
  case None
  with Latest_loop_None [OF None] show ?thesis by (auto simp: Latest_def)
next
  case (Some w)
  from Latest_loop_max [OF Some] assms have
    "\<forall>x \<in> snd ` set r. W_Name x = name \<longrightarrow> 0 \<le> compareVersions (W_Version w) (W_Version x)"
    "numeric (W_Version w)" by simp_all
  then have "\<forall>x \<in> snd ` set r. W_Name x = name \<longrightarrow> \<not> version_below (W_Version w) (W_Version x)"
    using assms not_below by blast
  with Latest_loop_result [OF Some] Some show ?thesis by (auto simp: Latest_def)
qed

definition version_demo :: "string \<Rightarrow> string \<times> WorkflowDef" where
  "version_demo v = (''wf@'' @ v, \<lparr>W_Name = ''wf'', W_Version = v, W_Description = [], W_Initial = [],
     W_Steps = [], W_SLAs = [], W_Routing = []\<rparr>)"

theorem Latest_is_highest_witness:
  "\<exists>w. Latest [version_demo ''1.2.10'', version_demo ''1.10.0''] ''wf'' = Inr w \<and> W_Version w = ''1.10.0''"
proof -
  have "numeric ''1.10.0''" "numeric ''1.2.10''" by code_simp+
  then have "\<forall>x \<in> snd ` set [version_demo ''1.2.10'', version_demo ''1.10.0''].
      W_Name x = ''wf'' \<longrightarrow> numeric (W_Version x)" by (simp add: version_demo_def)
  note h = Latest_is_highest [OF this]
  have "nth_number ''1.2.10'' 0 = nth_number ''1.10.0'' 0" "nth_number ''1.2.10'' 1 < nth_number ''1.10.0'' 1"
    by code_simp+
  then have "version_below ''1.2.10'' ''1.10.0''"
    unfolding version_below_def by (intro exI [of _ 1]) simp
  with h show ?thesis by (auto simp: version_demo_def split: sum.splits)
qed

text \<open>
  With components that are not numbers the order is not transitive: 2 is below 10, 10 below
  1a and 1a below 2, so which of the three Latest returns depends on the order in which Go
  iterates the map.
\<close>

lemma Latest_depends_on_order:
  "compareVersions ''2'' ''10'' < 0 \<and> compareVersions ''10'' ''1a'' < 0 \<and> compareVersions ''1a'' ''2'' < 0 \<and>
   Latest [version_demo ''2'', version_demo ''10'', version_demo ''1a''] ''wf'' \<noteq>
   Latest [version_demo ''10'', version_demo ''1a'', version_demo ''2''] ''wf''"
  by code_simp

end
