(* ===== verification/Duration.thy ===== *)
theory Duration
  imports Json
begin

text \<open>
  \<^verbatim>\<open>time.ParseDuration\<close> of Go's standard library, by which the workflow compiler reads
  delays and SLAs: a sign, then numbers with units. Integers are uint64 with the library's own
  overflow checks (one sum can wrap, and is written out); fractions are computed in float64.
\<close>

datatype duration_error = InvalidDuration string | MissingUnit string | UnknownUnit string string

text \<open>The two spellings of the micro sign are U+00B5 and U+03BC in UTF-8.\<close>

definition unitMap :: "string \<Rightarrow> nat option" where
  "unitMap u =
     (if u = ''ns'' then Some 1
      else if u = ''us'' \<or> u = [CHR 0xC2, CHR 0xB5, CHR ''s''] \<or> u = [CHR 0xCE, CHR 0xBC, CHR ''s''] then Some 1000
      else if u = ''ms'' then Some 1000000
      else if u = ''s'' then Some 1000000000
      else if u = ''m'' then Some 60000000000
      else if u = ''h'' then Some 3600000000000
      else None)"

fun leadingInt :: "nat \<Rightarrow> string \<Rightarrow> (nat \<times> string) option" where
  "leadingInt x [] = Some (x, [])"
| "leadingInt x (c # cs) =
     (if \<not> is_digit c then Some (x, c # cs)
      else if 2 ^ 63 div 10 < x then None
      else let y = x * 10 + digit_val c in if 2 ^ 63 < y then None else leadingInt y cs)"

text \<open>The float64 nearest to a number that is not negative.\<close>

definition fl64 :: "rat \<Rightarrow> rat" where
  "fl64 x = (if x = 0 then 0 else case nearest_float x of Fin m e \<Rightarrow> float_val m e | _ \<Rightarrow> 0)"

fun leadingFraction :: "nat \<Rightarrow> rat \<Rightarrow> bool \<Rightarrow> string \<Rightarrow> nat \<times> rat \<times> string" where
  "leadingFraction x scale overflow [] = (x, scale, [])"
| "leadingFraction x scale overflow (c # cs) =
     (if \<not> is_digit c then (x, scale, c # cs)
      else if overflow then leadingFraction x scale overflow cs
      else if (2 ^ 63 - 1) div 10 < x then leadingFraction x scale True cs
      else let y = x * 10 + digit_val c
           in if 2 ^ 63 < y then leadingFraction x scale True cs
              else leadingFraction y (fl64 (scale * 10)) overflow cs)"

definition unit_char :: "char \<Rightarrow> bool" where
  "unit_char c \<longleftrightarrow> \<not> (c = CHR ''.'' \<or> is_digit c)"

text \<open>The rest of one turn of the loop, after the digits: the unit, and the value of this part.\<close>

definition unit_part :: "string \<Rightarrow> nat \<Rightarrow> nat \<Rightarrow> rat \<Rightarrow> string \<Rightarrow> duration_error + (nat \<times> string)" where
  "unit_part orig v f scale s =
     (let u = takeWhile unit_char s; s = dropWhile unit_char s
      in if u = [] then Inl (MissingUnit orig)
         else case unitMap u of
           None \<Rightarrow> Inl (UnknownUnit u orig)
         | Some unit \<Rightarrow>
             if 2 ^ 63 div unit < v then Inl (InvalidDuration orig)
             else let v = v * unit
                  in if 0 < f then
                       (let v = v + nat \<lfloor>fl64 (fl64 (of_nat f) * fl64 (fl64 (of_nat unit) / scale))\<rfloor>
                        in if 2 ^ 63 < v then Inl (InvalidDuration orig) else Inr (v, s))
                     else Inr (v, s))"

definition duration_part :: "string \<Rightarrow> string \<Rightarrow> duration_error + (nat \<times> string)" where
  "duration_part orig s =
     (if \<not> (hd s = CHR ''.'' \<or> is_digit (hd s)) then Inl (InvalidDuration orig)
      else case leadingInt 0 s of
        None \<Rightarrow> Inl (InvalidDuration orig)
      | Some (v, s1) \<Rightarrow>
          (let pre = length s \<noteq> length s1;
               (f, scale, s2, post) =
                 (case s1 of
                    [] \<Rightarrow> (0, 1, s1, False)
                  | c # cs \<Rightarrow>
                      if c = CHR ''.'' then
                        (case leadingFraction 0 1 False cs of (f, scale, s2) \<Rightarrow> (f, scale, s2, length cs \<noteq> length s2))
                      else (0, 1, s1, False))
           in if \<not> pre \<and> \<not> post then Inl (InvalidDuration orig)
              else unit_part orig v f scale s2))"

lemma leadingInt_length: "leadingInt x s = Some (y, t) \<Longrightarrow> length t \<le> length s"
  by (induction x s rule: leadingInt.induct) (auto simp: Let_def split: if_splits)

lemma leadingFraction_length: "leadingFraction x sc b s = (f, sc', t) \<Longrightarrow> length t \<le> length s"
  by (induction x sc b s rule: leadingFraction.induct) (auto simp: Let_def split: if_splits)

lemma unit_part_length: "unit_part orig v f scale s = Inr (w, t) \<Longrightarrow> length t < length s"
proof -
  assume u: "unit_part orig v f scale s = Inr (w, t)"
  then have t: "t = dropWhile unit_char s"
    by (auto simp: unit_part_def Let_def split: if_splits option.splits)
  have "takeWhile unit_char s \<noteq> []"
  proof
    assume "takeWhile unit_char s = []"
    with u show False by (simp add: unit_part_def Let_def)
  qed
  then have "0 < length (takeWhile unit_char s)" by simp
  moreover have "length s = length (takeWhile unit_char s) + length t"
    unfolding t by (metis length_append takeWhile_dropWhile_id)
  ultimately show ?thesis by simp
qed

lemma duration_part_length:
  assumes "duration_part orig s = Inr (v, t)"
  shows "length t < length s"
proof -
  obtain w s1 where i: "leadingInt 0 s = Some (w, s1)"
    using assms by (auto simp: duration_part_def split: if_splits option.splits)
  let ?p = "case s1 of [] \<Rightarrow> (0, 1, s1, False)
      | c # cs \<Rightarrow> if c = CHR ''.'' then
          (case leadingFraction 0 1 False cs of (f, scale, s2) \<Rightarrow> (f, scale, s2, length cs \<noteq> length s2))
        else (0, 1, s1, False)"
  obtain f scale s2 post where p: "?p = (f, scale, s2, post)" by (cases ?p) auto
  have "length s2 \<le> length s1"
    using p by (auto split: list.splits if_splits prod.splits dest: leadingFraction_length)
  moreover have "unit_part orig w f scale s2 = Inr (v, t)"
    using assms i p by (auto simp: duration_part_def Let_def split: if_splits)
  ultimately show ?thesis using leadingInt_length [OF i] unit_part_length by fastforce
qed

function (sequential) duration_loop :: "string \<Rightarrow> nat \<Rightarrow> string \<Rightarrow> duration_error + nat" where
  "duration_loop orig d [] = Inr d"
| "duration_loop orig d (c # cs) =
     (case duration_part orig (c # cs) of
        Inl e \<Rightarrow> Inl e
      | Inr (v, rest) \<Rightarrow>
          (let d = (d + v) mod 2 ^ 64
           in if 2 ^ 63 < d then Inl (InvalidDuration orig) else duration_loop orig d rest))"
  by pat_completeness auto

termination
  by (relation "measure (\<lambda>(orig, d, s). length s)") (auto dest: duration_part_length)

definition ParseDuration :: "string \<Rightarrow> duration_error + int" where
  "ParseDuration orig =
     (let (neg, s) = (case orig of [] \<Rightarrow> (False, [])
          | c # cs \<Rightarrow> if c = CHR ''-'' \<or> c = CHR ''+'' then (c = CHR ''-'', cs) else (False, orig))
      in if s = ''0'' then Inr 0
         else if s = [] then Inl (InvalidDuration orig)
         else case duration_loop orig 0 s of
           Inl e \<Rightarrow> Inl e
         | Inr d \<Rightarrow> if neg then Inr (- int d)
                    else if 2 ^ 63 - 1 < d then Inl (InvalidDuration orig) else Inr (int d))"

section \<open>Numbers with units\<close>

text \<open>The text of a duration as people write it: decimal numbers, each followed by its unit.\<close>

definition spelled :: "(nat \<times> string) list \<Rightarrow> string" where
  "spelled parts = concat (map (\<lambda>(n, u). nat_digits n @ u) parts)"

definition part_value :: "nat \<times> string \<Rightarrow> nat" where
  "part_value p = fst p * the (unitMap (snd p))"

lemma unit_shape:
  assumes "unitMap u = Some k"
  shows "u \<noteq> []" "\<forall>c \<in> set u. unit_char c" "1 \<le> k"
  using assms by (auto simp: unitMap_def unit_char_def is_digit_def split: if_splits)

lemma digits_val_le: "digits_val x ds = Some n \<Longrightarrow> x \<le> n"
proof (induction ds arbitrary: x)
  case (Cons c cs)
  then have "10 * x + digit_val c \<le> n" by (auto split: if_splits)
  then show ?case by simp
qed simp

lemma leadingInt_digits:
  assumes "digits_val x ds = Some n" "n \<le> 2 ^ 63" "t \<noteq> [] \<longrightarrow> \<not> is_digit (hd t)"
  shows "leadingInt x (ds @ t) = Some (n, t)"
  using assms
proof (induction ds arbitrary: x)
  case Nil
  then show ?case by (cases t) auto
next
  case (Cons c cs)
  then have c: "is_digit c" "digits_val (10 * x + digit_val c) cs = Some n" by (auto split: if_splits)
  have le: "10 * x + digit_val c \<le> n" using c(2) by (rule digits_val_le)
  then have "\<not> 2 ^ 63 div 10 < x" "\<not> 2 ^ 63 < x * 10 + digit_val c" using Cons.prems(2) by auto
  with Cons.IH [OF c(2)] Cons.prems c(1) show ?case by (simp add: mult.commute)
qed

lemma duration_part_spelled:
  assumes u: "unitMap u = Some k" and n: "n * k \<le> 2 ^ 63" and t: "t \<noteq> [] \<longrightarrow> is_digit (hd t)"
  shows "duration_part orig (nat_digits n @ u @ t) = Inr (n * k, t)"
proof -
  note shape = unit_shape [OF u]
  obtain c cs where c: "u = c # cs" "unit_char c" using shape(1,2) by (cases u) auto
  have le: "n \<le> 2 ^ 63 div k" using n shape(3) by (simp add: less_eq_div_iff_mult_less_eq)
  then have "n \<le> 2 ^ 63" by (rule order.trans) simp
  then have i: "leadingInt 0 (nat_digits n @ u @ t) = Some (n, u @ t)"
    using c by (intro leadingInt_digits) (simp_all add: unit_char_def)
  have w: "takeWhile unit_char (u @ t) = u" "dropWhile unit_char (u @ t) = t"
    using shape(2) t by (cases t; simp add: unit_char_def)+
  obtain d ds where d: "nat_digits n = d # ds" "is_digit d" by (rule nat_digits_Cons)
  have "unit_part orig n 0 1 (u @ t) = Inr (n * k, t)"
    using le shape(1) u w by (simp add: unit_part_def Let_def)
  moreover have "c \<noteq> CHR ''.''" using c(2) by (simp add: unit_char_def)
  ultimately show ?thesis
    using i d c(1) by (simp add: duration_part_def)
qed

lemma spelled_simps [simp]: "spelled [] = []" "spelled ((n, u) # ps) = nat_digits n @ u @ spelled ps"
  by (simp_all add: spelled_def)

lemma spelled_start: "spelled ps \<noteq> [] \<longrightarrow> is_digit (hd (spelled ps))"
proof (cases ps)
  case (Cons p qs)
  obtain n u where p: "p = (n, u)" by fastforce
  obtain d ds where "nat_digits n = d # ds" "is_digit d" by (rule nat_digits_Cons)
  with Cons p show ?thesis by simp
qed simp

lemma duration_loop_spelled:
  assumes "\<forall>(n, u) \<in> set ps. unitMap u \<noteq> None" "d + sum_list (map part_value ps) \<le> 2 ^ 63"
  shows "duration_loop orig d (spelled ps) = Inr (d + sum_list (map part_value ps))"
  using assms
proof (induction ps arbitrary: d)
  case (Cons p ps)
  obtain n u where p: "p = (n, u)" by fastforce
  with Cons.prems obtain k where k: "unitMap u = Some k" by auto
  have v: "part_value p = n * k" by (simp add: part_value_def p k)
  have part: "duration_part orig (nat_digits n @ u @ spelled ps) = Inr (n * k, spelled ps)"
    using Cons.prems(2) v by (intro duration_part_spelled [OF k _ spelled_start]) simp
  obtain c cs where c: "nat_digits n @ u @ spelled ps = c # cs" by (metis append_is_Nil_conv list.exhaust nat_digits_nonempty)
  have small: "(d + n * k) mod 2 ^ 64 = d + n * k" "\<not> 2 ^ 63 < d + n * k"
    using Cons.prems(2) v by simp_all
  have "duration_loop orig d (spelled (p # ps)) = duration_loop orig (d + n * k) (spelled ps)"
    using part small unfolding p spelled_simps c by simp
  also have "\<dots> = Inr (d + n * k + sum_list (map part_value ps))"
    using Cons.prems v by (intro Cons.IH) simp_all
  finally show ?case by (simp add: v add.assoc)
qed simp

text \<open>
  Reading a duration gives the number that was written: a sequence of decimal numbers with
  units, such as 1h30m, parses to the sum of the numbers times their units in nanoseconds whenever
  the sum is below 2 to the power 63.
\<close>

lemma ParseDuration_spelled:
  assumes "ps \<noteq> []" "\<forall>(n, u) \<in> set ps. unitMap u \<noteq> None" "sum_list (map part_value ps) < 2 ^ 63"
  shows "ParseDuration (spelled ps) = Inr (int (sum_list (map part_value ps)))"
proof -
  obtain n u qs where ps: "ps = (n, u) # qs" using assms(1) by (cases ps) auto
  obtain d ds where d: "nat_digits n = d # ds" "is_digit d" by (rule nat_digits_Cons)
  obtain r where r: "spelled ps = d # r" by (simp add: ps d)
  have "u \<noteq> []" using assms(2) ps unit_shape(1) by auto
  then have "d # r \<noteq> ''0''" using r by (auto simp: ps d append_eq_Cons_conv)
  moreover have "d \<noteq> CHR ''-''" "d \<noteq> CHR ''+''" using d(2) by (auto simp: is_digit_def)
  moreover have "duration_loop (d # r) 0 (d # r) = Inr (sum_list (map part_value ps))"
    using duration_loop_spelled [OF assms(2), of 0 "spelled ps"] assms(3) unfolding r by simp
  ultimately show ?thesis using assms(3) unfolding ParseDuration_def r
    by (auto simp del: duration_loop.simps)
qed

lemma spelled_demo:
  "spelled [(1, ''h''), (30, ''m'')] = ''1h30m''"
  "sum_list (map part_value [(1, ''h''), (30, ''m'')]) = 5400000000000"
  "\<forall>(n, u) \<in> set [(1, ''h''), (30, ''m'')]. unitMap u \<noteq> None"
proof -
  have "digit 0 = CHR ''0''" "digit 1 = CHR ''1''" "digit 3 = CHR ''3''" by code_simp+
  then show "spelled [(1, ''h''), (30, ''m'')] = ''1h30m''" by (simp add: nat_digits.simps)
qed (simp_all add: part_value_def unitMap_def)

lemma ParseDuration_demo: "ParseDuration ''1h30m'' = Inr 5400000000000"
  using ParseDuration_spelled [OF _ spelled_demo(3)] unfolding spelled_demo(1,2) by simp

section \<open>Every duration is one Go can hold\<close>

lemma duration_loop_bound: "duration_loop orig d s = Inr n \<Longrightarrow> d \<le> 2 ^ 63 \<Longrightarrow> n \<le> 2 ^ 63"
proof (induction orig d s rule: duration_loop.induct)
  case (2 orig d c cs)
  then obtain v rest where p: "duration_part orig (c # cs) = Inr (v, rest)"
    by (auto split: sum.splits)
  with 2(2) have "\<not> 2 ^ 63 < (d + v) mod 2 ^ 64" "duration_loop orig ((d + v) mod 2 ^ 64) rest = Inr n"
    by (auto simp: Let_def split: if_splits)
  with 2(1) p show ?case by (simp add: Let_def)
qed simp

lemma ParseDuration_in_int64: "ParseDuration s = Inr d \<Longrightarrow> in_int64 d"
  using duration_loop_bound [of _ 0]
  by (fastforce simp: ParseDuration_def in_int64_def Let_def split: sum.splits if_splits prod.splits list.splits)

end
