(* ===== verification/Dsl.thy ===== *)
theory Dsl
  imports Duration Engine_Effects
begin

text \<open>
  The workflow compiler (engine/dsl/dsl.go): the shape in which people write workflows in YAML,
  and \<open>Compile\<close>, which turns it into the definition the engine runs and refuses what the engine
  could not run. What \<^verbatim>\<open>yaml.Unmarshal\<close> does is an argument of \<open>ParseYAML\<close>. Names starting with
  \<open>Y\<close> are the authoring shape, the others the engine's.
\<close>

section \<open>The authoring shape\<close>

record Y_Approver =
  YA_Role :: string
  YA_User :: string

record Y_Approval =
  YC_Chain :: "Y_Approver list"

record Y_Step =
  YS_Name :: string
  YS_Kind :: string
  YS_Task :: string
  YS_Next :: string
  YS_OnError :: string
  YS_AssignTo :: string
  YS_Approval :: "Y_Approval option"
  YS_Delay :: string
  YS_Retries :: int
  YS_Retry :: string

record Y_SLA =
  YL_Name :: string
  YL_Duration :: string
  YL_OnBreach :: string

record Y_RoutingRule =
  YR_If :: goobj
  YR_Queue :: string
  YR_Assignee :: string
  YR_Priority :: string

record Y_Workflow =
  YW_Name :: string
  YW_Version :: string
  YW_Description :: string
  YW_Initial :: string
  YW_Steps :: "Y_Step list"
  YW_SLAs :: "Y_SLA list"
  YW_Routing :: "Y_RoutingRule list"

text \<open>One constructor for each \<^verbatim>\<open>fmt.Errorf\<close>, with the values it formats.\<close>

datatype dsl_error =
    BadYAML string
  | NameAndVersion
  | NoSteps string
  | EmptyStepName
  | DuplicateStep string
  | TaskRequired string
  | ChainRequired string
  | DelayRequired string
  | BadDelay string duration_error
  | UnknownKind string string
  | NextNotFound string string
  | OnErrorNotFound string string
  | BadSLADuration string duration_error
  | OnBreachNotFound string string

section \<open>The compiler\<close>

definition parseDelay :: "string \<Rightarrow> duration" where
  "parseDelay s =
     (if s = [] then 0 else case ParseDuration s of Inl _ \<Rightarrow> 0 | Inr d \<Rightarrow> d)"

fun stepByName :: "StepDef list \<Rightarrow> string \<Rightarrow> StepDef option" where
  "stepByName [] name = None"
| "stepByName (s # ss) name = (if SD_Name s = name then Some s else stepByName ss name)"

definition compileApproval :: "Y_Approval \<Rightarrow> ApprovalDef" where
  "compileApproval a =
     \<lparr>AD_Chain = map (\<lambda>l. \<lparr>A_Role = YA_Role l, A_User = YA_User l\<rparr>) (YC_Chain a)\<rparr>"

text \<open>The step of a task or an approval, and that of a delay, which leaves the other fields zero.\<close>

definition work_step :: "Y_Step \<Rightarrow> StepKind \<Rightarrow> StepDef" where
  "work_step s kind =
     \<lparr>SD_Name = YS_Name s, SD_Kind = kind, SD_Task = YS_Task s,
      SD_Approval = map_option compileApproval (YS_Approval s), SD_Delay = None,
      SD_Next = YS_Next s, SD_OnError = YS_OnError s, SD_AssignTo = YS_AssignTo s,
      SD_Retry = \<lparr>RP_MaxAttempts = YS_Retries s, RP_Delay = parseDelay (YS_Retry s)\<rparr>\<rparr>"

definition delayed_step :: "Y_Step \<Rightarrow> duration \<Rightarrow> StepDef" where
  "delayed_step s d =
     \<lparr>SD_Name = YS_Name s, SD_Kind = KindDelay, SD_Task = [],
      SD_Approval = None, SD_Delay = Some \<lparr>DD_Duration = d\<rparr>,
      SD_Next = YS_Next s, SD_OnError = YS_OnError s, SD_AssignTo = YS_AssignTo s,
      SD_Retry = \<lparr>RP_MaxAttempts = 0, RP_Delay = 0\<rparr>\<rparr>"

definition compileStep :: "Y_Step \<Rightarrow> dsl_error + StepDef" where
  "compileStep s =
     (if YS_Kind s = ''task'' \<or> YS_Kind s = [] then
        (if YS_Task s = [] then Inl (TaskRequired (YS_Name s)) else Inr (work_step s KindTask))
      else if YS_Kind s = ''approval'' then
        (case YS_Approval s of
           None \<Rightarrow> Inl (ChainRequired (YS_Name s))
         | Some a \<Rightarrow> if length (YC_Chain a) = 0 then Inl (ChainRequired (YS_Name s))
                     else Inr (work_step s KindApproval))
      else if YS_Kind s = ''delay'' then
        (if YS_Delay s = [] then Inl (DelayRequired (YS_Name s))
         else case ParseDuration (YS_Delay s) of
           Inl e \<Rightarrow> Inl (BadDelay (YS_Name s) e)
         | Inr d \<Rightarrow> Inr (delayed_step s d))
      else Inl (UnknownKind (YS_Name s) (YS_Kind s)))"

text \<open>The loop over the steps; \<open>seen\<close> is the map of the names met so far.\<close>

fun compile_steps :: "(string \<rightharpoonup> bool) \<Rightarrow> StepDef list \<Rightarrow> Y_Step list \<Rightarrow> dsl_error + StepDef list" where
  "compile_steps seen out [] = Inr out"
| "compile_steps seen out (s # ss) =
     (if YS_Name s = [] then Inl EmptyStepName
      else if seen (YS_Name s) = Some True then Inl (DuplicateStep (YS_Name s))
      else case compileStep s of
        Inl e \<Rightarrow> Inl e
      | Inr sd \<Rightarrow> compile_steps (seen(YS_Name s \<mapsto> True)) (out @ [sd]) ss)"

definition valid :: "StepDef list \<Rightarrow> string \<Rightarrow> bool" where
  "valid steps name \<longleftrightarrow> stepByName steps name \<noteq> None"

fun check_references :: "StepDef list \<Rightarrow> StepDef list \<Rightarrow> dsl_error + unit" where
  "check_references steps [] = Inr ()"
| "check_references steps (s # ss) =
     (if SD_Next s \<noteq> [] \<and> \<not> valid steps (SD_Next s) then Inl (NextNotFound (SD_Name s) (SD_Next s))
      else if SD_OnError s \<noteq> [] \<and> \<not> valid steps (SD_OnError s)
      then Inl (OnErrorNotFound (SD_Name s) (SD_OnError s))
      else check_references steps ss)"

fun compile_slas :: "StepDef list \<Rightarrow> SLADef list \<Rightarrow> Y_SLA list \<Rightarrow> dsl_error + SLADef list" where
  "compile_slas steps out [] = Inr out"
| "compile_slas steps out (l # ls) =
     (case ParseDuration (YL_Duration l) of
        Inl e \<Rightarrow> Inl (BadSLADuration (YL_Name l) e)
      | Inr d \<Rightarrow>
          if YL_OnBreach l \<noteq> [] \<and> \<not> valid steps (YL_OnBreach l)
          then Inl (OnBreachNotFound (YL_Name l) (YL_OnBreach l))
          else compile_slas steps
                 (out @ [\<lparr>SLA_Name = YL_Name l, SLA_Duration = d, SLA_OnBreach = YL_OnBreach l\<rparr>]) ls)"

definition compile_rule :: "Y_RoutingRule \<Rightarrow> RoutingRule" where
  "compile_rule r =
     \<lparr>RR_If = YR_If r, RR_Queue = YR_Queue r, RR_Assignee = YR_Assignee r, RR_Priority = YR_Priority r\<rparr>"

definition Compile :: "Y_Workflow \<Rightarrow> dsl_error + WorkflowDef" where
  "Compile w =
     (if YW_Name w = [] \<or> YW_Version w = [] then Inl NameAndVersion
      else if length (YW_Steps w) = 0 then Inl (NoSteps (YW_Name w))
      else
        let initial = (if YW_Initial w = [] then YS_Name (hd (YW_Steps w)) else YW_Initial w)
        in case compile_steps Map.empty [] (YW_Steps w) of
             Inl e \<Rightarrow> Inl e
           | Inr steps \<Rightarrow>
               (case check_references steps steps of
                  Inl e \<Rightarrow> Inl e
                | Inr _ \<Rightarrow>
                    (case compile_slas steps [] (YW_SLAs w) of
                       Inl e \<Rightarrow> Inl e
                     | Inr slas \<Rightarrow>
                         Inr \<lparr>W_Name = YW_Name w, W_Version = YW_Version w,
                              W_Description = YW_Description w, W_Initial = initial,
                              W_Steps = steps, W_SLAs = slas,
                              W_Routing = map compile_rule (YW_Routing w)\<rparr>)))"

definition ParseYAML :: "(string \<Rightarrow> string + Y_Workflow) \<Rightarrow> string \<Rightarrow> dsl_error + WorkflowDef" where
  "ParseYAML unmarshal data =
     (case unmarshal data of Inl e \<Rightarrow> Inl (BadYAML e) | Inr w \<Rightarrow> Compile w)"

section \<open>What is accepted\<close>

text \<open>A workflow is acceptable when each part is, said without reference to the order of the checks.\<close>

definition step_acceptable :: "Y_Step \<Rightarrow> bool" where
  "step_acceptable s \<longleftrightarrow> YS_Name s \<noteq> [] \<and>
     (YS_Kind s \<in> {''task'', []} \<and> YS_Task s \<noteq> [] \<or>
      YS_Kind s = ''approval'' \<and> (\<exists>a. YS_Approval s = Some a \<and> YC_Chain a \<noteq> []) \<or>
      YS_Kind s = ''delay'' \<and> (\<exists>d. ParseDuration (YS_Delay s) = Inr d))"

definition names_step :: "Y_Workflow \<Rightarrow> string \<Rightarrow> bool" where
  "names_step w n \<longleftrightarrow> n = [] \<or> n \<in> YS_Name ` set (YW_Steps w)"

definition acceptable :: "Y_Workflow \<Rightarrow> bool" where
  "acceptable w \<longleftrightarrow> YW_Name w \<noteq> [] \<and> YW_Version w \<noteq> [] \<and> YW_Steps w \<noteq> [] \<and>
     distinct (map YS_Name (YW_Steps w)) \<and>
     (\<forall>s \<in> set (YW_Steps w). step_acceptable s \<and> names_step w (YS_Next s) \<and> names_step w (YS_OnError s)) \<and>
     (\<forall>l \<in> set (YW_SLAs w). (\<exists>d. ParseDuration (YL_Duration l) = Inr d) \<and> names_step w (YL_OnBreach l))"

text \<open>The definition an acceptable workflow stands for.\<close>

definition step_meaning :: "Y_Step \<Rightarrow> StepDef" where
  "step_meaning s =
     (if YS_Kind s = ''delay'' then delayed_step s (projr (ParseDuration (YS_Delay s)))
      else work_step s (if YS_Kind s = ''approval'' then KindApproval else KindTask))"

definition sla_meaning :: "Y_SLA \<Rightarrow> SLADef" where
  "sla_meaning l = \<lparr>SLA_Name = YL_Name l, SLA_Duration = projr (ParseDuration (YL_Duration l)),
                    SLA_OnBreach = YL_OnBreach l\<rparr>"

definition meaning :: "Y_Workflow \<Rightarrow> WorkflowDef" where
  "meaning w = \<lparr>W_Name = YW_Name w, W_Version = YW_Version w, W_Description = YW_Description w,
     W_Initial = (if YW_Initial w = [] then YS_Name (hd (YW_Steps w)) else YW_Initial w),
     W_Steps = map step_meaning (YW_Steps w), W_SLAs = map sla_meaning (YW_SLAs w),
     W_Routing = map compile_rule (YW_Routing w)\<rparr>"

lemma ParseDuration_Nil [simp]: "ParseDuration [] = Inl (InvalidDuration [])"
  by (simp add: ParseDuration_def)

lemma compileStep_iff:
  "YS_Name s \<noteq> [] \<Longrightarrow> compileStep s = Inr sd \<longleftrightarrow> step_acceptable s \<and> sd = step_meaning s"
  by (auto simp: compileStep_def step_acceptable_def step_meaning_def split: sum.splits option.splits)

lemma step_meaning_fields [simp]:
  "SD_Name (step_meaning s) = YS_Name s" "SD_Next (step_meaning s) = YS_Next s"
  "SD_OnError (step_meaning s) = YS_OnError s"
  by (simp_all add: step_meaning_def work_step_def delayed_step_def)

lemma valid_iff: "valid steps n \<longleftrightarrow> n \<in> SD_Name ` set steps"
  unfolding valid_def by (induction steps) auto

lemma compile_steps_iff:
  assumes "\<forall>n. seen n = None \<or> seen n = Some True"
  shows "compile_steps seen out ss = Inr res \<longleftrightarrow>
    distinct (map YS_Name ss) \<and> (\<forall>s \<in> set ss. seen (YS_Name s) = None \<and> step_acceptable s) \<and>
    res = out @ map step_meaning ss"
  using assms
proof (induction ss arbitrary: seen out)
  case Nil
  then show ?case by auto
next
  case (Cons s ss)
  show ?case
  proof (cases "YS_Name s = [] \<or> seen (YS_Name s) = Some True \<or> \<not> step_acceptable s")
    case True
    moreover have "YS_Name s = [] \<Longrightarrow> \<not> step_acceptable s" by (simp add: step_acceptable_def)
    ultimately show ?thesis
      using compileStep_iff [of s] by (auto split: sum.split)
  next
    case False
    then have c: "compileStep s = Inr (step_meaning s)" "seen (YS_Name s) = None"
      using compileStep_iff [of s] Cons.prems by auto
    have "\<forall>n. (seen(YS_Name s \<mapsto> True)) n = None \<or> (seen(YS_Name s \<mapsto> True)) n = Some True"
      using Cons.prems by simp
    note IH = Cons.IH [OF this]
    have "(\<forall>s' \<in> set ss. (seen(YS_Name s \<mapsto> True)) (YS_Name s') = None \<and> step_acceptable s') \<longleftrightarrow>
        YS_Name s \<notin> YS_Name ` set ss \<and> (\<forall>s' \<in> set ss. seen (YS_Name s') = None \<and> step_acceptable s')"
      by (auto simp: image_iff)
    moreover have "compile_steps seen out (s # ss) =
        compile_steps (seen(YS_Name s \<mapsto> True)) (out @ [step_meaning s]) ss"
      using False c(1) by simp
    ultimately show ?thesis using False c(2) by (simp only: IH) auto
  qed
qed

lemma check_references_iff:
  "check_references steps ss = Inr u \<longleftrightarrow>
    (\<forall>s \<in> set ss. (SD_Next s = [] \<or> valid steps (SD_Next s)) \<and> (SD_OnError s = [] \<or> valid steps (SD_OnError s)))"
  by (induction ss) auto

lemma compile_slas_iff:
  "compile_slas steps out ls = Inr res \<longleftrightarrow>
    (\<forall>l \<in> set ls. (\<exists>d. ParseDuration (YL_Duration l) = Inr d) \<and> (YL_OnBreach l = [] \<or> valid steps (YL_OnBreach l))) \<and>
    res = out @ map sla_meaning ls"
proof (induction ls arbitrary: out)
  case (Cons l ls)
  then show ?case by (cases "ParseDuration (YL_Duration l)") (auto simp: sla_meaning_def)
qed auto

lemma Compile_iff: "Compile w = Inr def \<longleftrightarrow> acceptable w \<and> def = meaning w"
proof -
  let ?ss = "map step_meaning (YW_Steps w)"
  have v: "names_step w n \<longleftrightarrow> n = [] \<or> valid ?ss n" for n
    by (auto simp: names_step_def valid_iff image_image)
  show ?thesis
  proof (cases "YW_Name w = [] \<or> YW_Version w = [] \<or> YW_Steps w = [] \<or> compile_steps Map.empty [] (YW_Steps w) \<noteq> Inr ?ss")
    case True
    then show ?thesis
      using compile_steps_iff [of Map.empty "[]" "YW_Steps w"]
      by (auto simp: Compile_def acceptable_def Let_def split: sum.split)
  next
    case False
    then have c: "distinct (map YS_Name (YW_Steps w))" "\<forall>s \<in> set (YW_Steps w). step_acceptable s"
      using compile_steps_iff [of Map.empty "[]" "YW_Steps w" ?ss] by auto
    have "acceptable w \<longleftrightarrow> check_references ?ss ?ss = Inr () \<and> (\<exists>sl. compile_slas ?ss [] (YW_SLAs w) = Inr sl)"
      using False c by (auto simp: acceptable_def check_references_iff compile_slas_iff v)
    moreover have "compile_slas ?ss [] (YW_SLAs w) = Inr sl \<Longrightarrow> sl = map sla_meaning (YW_SLAs w)" for sl
      by (simp add: compile_slas_iff)
    ultimately show ?thesis
      using False by (auto simp: Compile_def Let_def meaning_def split: sum.splits)
  qed
qed


section \<open>What the engine may rely on\<close>

lemma step_meaning_ready: "step_acceptable s \<Longrightarrow> step_ready (step_meaning s)"
  by (auto simp: step_acceptable_def step_meaning_def step_ready_def work_step_def delayed_step_def
      compileApproval_def)

lemma acceptable_can_follow:
  assumes "acceptable w" "names_step w n"
  shows "can_follow (meaning w) n"
proof (cases "n = []")
  case False
  with assms(2) obtain s where s: "s \<in> set (YW_Steps w)" "n = YS_Name s" by (auto simp: names_step_def)
  have "distinct (map SD_Name (map step_meaning (YW_Steps w)))"
    using assms(1) by (simp add: acceptable_def comp_def)
  from find_step_distinct [OF this, of "step_meaning s"] s
  have "Step (meaning w) n = Some (step_meaning s)" by (simp add: Step_def meaning_def)
  moreover have "step_ready (step_meaning s)"
    using assms(1) s(1) by (auto simp: acceptable_def intro: step_meaning_ready)
  ultimately show ?thesis by (simp add: can_follow_def)
qed (simp add: can_follow_def)

text \<open>The names by which a definition goes on from a step or escalates.\<close>

definition edge_to :: "WorkflowDef \<Rightarrow> string \<Rightarrow> bool" where
  "edge_to def n \<longleftrightarrow> (\<exists>sd \<in> set (W_Steps def). n = SD_Next sd \<or> n = SD_OnError sd) \<or>
     (\<exists>l \<in> set (W_SLAs def). n = SLA_OnBreach l)"

lemma Compile_edges:
  assumes "Compile w = Inr def" "edge_to def n"
  shows "can_follow def n"
proof -
  have a: "acceptable w" "def = meaning w" using assms(1) by (simp_all add: Compile_iff)
  with assms(2) have "names_step w n"
    by (auto simp: edge_to_def meaning_def sla_meaning_def acceptable_def)
  with a show ?thesis by (simp add: acceptable_can_follow)
qed

text \<open>
  (C24) A run of a compiled workflow never fails for want of a step: whenever a step's next or
  on_error edge or an SLA's escalation names a step, scheduling it succeeds while the log works and
  appends exactly the events of its kind.
\<close>

theorem compiled_edges_schedule:
  assumes "Compile w = Inr def" "edge_to def n" "n \<noteq> []" "available (G_world s)"
  shows "\<exists>sd e t. Step def n = Some sd \<and> scheduleStep run ticket def n s = (Ok e, t) \<and>
    emits run (sched_payloads sd n (clock (G_world s) (G_ticks s))) s t"
proof -
  obtain sd where sd: "Step def n = Some sd" "step_ready sd"
    using Compile_edges [OF assms(1,2)] assms(3) by (auto simp: can_follow_def)
  with scheduleStep_emits [OF assms(4) sd] show ?thesis by blast
qed

text \<open>A workflow in the style of engine/examples: a delay, then an approval with an escalation.\<close>

definition y_step :: "string \<Rightarrow> string \<Rightarrow> string \<Rightarrow> Y_Step" where
  "y_step name kind nxt = \<lparr>YS_Name = name, YS_Kind = kind, YS_Task = [], YS_Next = nxt, YS_OnError = [],
     YS_AssignTo = [], YS_Approval = Some \<lparr>YC_Chain = [\<lparr>YA_Role = ''mgr'', YA_User = []\<rparr>]\<rparr>,
     YS_Delay = ''1h30m'', YS_Retries = 0, YS_Retry = []\<rparr>"

definition y_demo :: Y_Workflow where
  "y_demo = \<lparr>YW_Name = ''wf'', YW_Version = ''1'', YW_Description = [], YW_Initial = [],
     YW_Steps = [y_step ''wait'' ''delay'' ''ok'', y_step ''ok'' ''approval'' []],
     YW_SLAs = [\<lparr>YL_Name = ''day'', YL_Duration = ''1h30m'', YL_OnBreach = ''ok''\<rparr>], YW_Routing = []\<rparr>"

lemma y_demo_compiles: "Compile y_demo = Inr (meaning y_demo)"
  unfolding Compile_iff by (simp add: acceptable_def y_demo_def y_step_def step_acceptable_def
      names_step_def ParseDuration_demo)

lemma edge_y_demo: "edge_to (meaning y_demo) ''ok''"
  by (simp add: edge_to_def meaning_def y_demo_def y_step_def)

theorem compiled_edges_schedule_witness:
  "\<exists>sd e t. Step (meaning y_demo) ''ok'' = Some sd \<and>
     scheduleStep ''r'' ''t'' (meaning y_demo) ''ok'' (engine_with (calm (\<lambda>_. 5)) task_flow) = (Ok e, t) \<and>
     emits ''r'' (sched_payloads sd ''ok'' 5) (engine_with (calm (\<lambda>_. 5)) task_flow) t"
proof -
  have "G_world (engine_with (calm (\<lambda>_. 5)) task_flow) = calm (\<lambda>_. 5)"
    by (simp add: eval task_flow_def)
  then show ?thesis
    using compiled_edges_schedule [OF y_demo_compiles edge_y_demo,
      of "engine_with (calm (\<lambda>_. 5)) task_flow" "''r''" "''t''"]
    by (simp add: calm_def available_def)
qed

section \<open>Durations\<close>

text \<open>
  A duration written as decimal numbers with units means the sum of the numbers times their
  units in nanoseconds, below 2 to the power 63, as a retry delay and as the length of a delay step.
\<close>

lemma delay_as_written:
  assumes "ps \<noteq> []" "\<forall>(n, u) \<in> set ps. unitMap u \<noteq> None" "sum_list (map part_value ps) < 2 ^ 63"
    and "YS_Kind s = ''delay''" "YS_Delay s = spelled ps"
  shows "parseDelay (spelled ps) = int (sum_list (map part_value ps)) \<and>
    compileStep s = Inr (delayed_step s (int (sum_list (map part_value ps))))"
proof -
  have p: "ParseDuration (spelled ps) = Inr (int (sum_list (map part_value ps)))"
    using assms(1-3) by (rule ParseDuration_spelled)
  then have "spelled ps \<noteq> []" by auto
  with p assms(4,5) show ?thesis by (simp add: parseDelay_def compileStep_def)
qed

lemma delay_as_written_example: "parseDelay ''1h30m'' = 5400000000000"
  using delay_as_written [OF _ spelled_demo(3), of "y_step ''wait'' ''delay'' []"]
  unfolding spelled_demo(1,2) by (simp add: y_step_def)

text \<open>What a definition holds is in the range of Go's time.Duration.\<close>

lemma parseDelay_in_int64: "in_int64 (parseDelay s)"
  using ParseDuration_in_int64 [of s] by (auto simp: parseDelay_def in_int64_def split: sum.split)

lemma Compile_durations:
  assumes "Compile w = Inr def"
  shows "\<forall>sd \<in> set (W_Steps def). in_int64 (RP_Delay (SD_Retry sd)) \<and>
      (\<forall>d. SD_Delay sd = Some d \<longrightarrow> in_int64 (DD_Duration d))"
    "\<forall>l \<in> set (W_SLAs def). in_int64 (SLA_Duration l)"
proof -
  have a: "acceptable w" "def = meaning w" using assms by (simp_all add: Compile_iff)
  then have s: "\<forall>s \<in> set (YW_Steps w). step_acceptable s"
      "\<forall>l \<in> set (YW_SLAs w). \<exists>d. ParseDuration (YL_Duration l) = Inr d"
    by (auto simp: acceptable_def)
  have step: "in_int64 (RP_Delay (SD_Retry (step_meaning s))) \<and>
      (\<forall>d. SD_Delay (step_meaning s) = Some d \<longrightarrow> in_int64 (DD_Duration d))" if "step_acceptable s" for s
    using that ParseDuration_in_int64
    by (auto simp: step_acceptable_def step_meaning_def work_step_def delayed_step_def
        parseDelay_in_int64) (simp add: in_int64_def)
  with s a(2) show "\<forall>sd \<in> set (W_Steps def). in_int64 (RP_Delay (SD_Retry sd)) \<and>
      (\<forall>d. SD_Delay sd = Some d \<longrightarrow> in_int64 (DD_Duration d))"
    by (auto simp: meaning_def)
  show "\<forall>l \<in> set (W_SLAs def). in_int64 (SLA_Duration l)"
    using s a(2) ParseDuration_in_int64 by (fastforce simp: meaning_def sla_meaning_def)
qed

end
