(* ===== verification/Loader.thy ===== *)
theory Loader
  imports Versions Dsl Engine_Sound
begin

text \<open>
  Deployment from files (LoadDir and RegisterAll of engine/dsl/loader.go): every workflow file
  below a directory is read, compiled and put into a registry, and every definition of the
  registry is registered with the engine. A directory tree is a value; what reading a file or a
  directory returns is in its nodes. \<^verbatim>\<open>filepath.WalkDir\<close> visits the entries of a directory in the
  order given. The text of a path matters in messages only, beyond its last element.
\<close>

section \<open>The code\<close>

datatype node =
    File "string + string" \<comment> \<open>the error or the content\<close>
  | Dir "string option" "(string \<times> node) list" \<comment> \<open>an error, the entries that were read\<close>

datatype loader_error =
    WalkFailed string
  | ReadFailed string string
  | ParseFailed string dsl_error

type_synonym visitor = "string \<Rightarrow> node \<Rightarrow> string option \<Rightarrow> Registry \<Rightarrow> loader_error + Registry"

definition join_path :: "string \<Rightarrow> string \<Rightarrow> string" where
  "join_path p n = (if p = [] then n else p @ CHR ''/'' # n)"

fun WalkDir :: "visitor \<Rightarrow> string \<Rightarrow> node \<Rightarrow> Registry \<Rightarrow> loader_error + Registry"
  and WalkEntries :: "visitor \<Rightarrow> string \<Rightarrow> (string \<times> node) list \<Rightarrow> Registry \<Rightarrow> loader_error + Registry" where
  "WalkDir fn path (File c) r = fn path (File c) None r"
| "WalkDir fn path (Dir err es) r =
     (case fn path (Dir err es) None r of
        Inl e \<Rightarrow> Inl e
      | Inr r \<Rightarrow>
          (case err of
             None \<Rightarrow> WalkEntries fn path es r
           | Some x \<Rightarrow> (case fn path (Dir err es) (Some x) r of
                          Inl e \<Rightarrow> Inl e | Inr r \<Rightarrow> WalkEntries fn path es r)))"
| "WalkEntries fn path [] r = Inr r"
| "WalkEntries fn path ((n, d) # es) r =
     (case WalkDir fn (join_path path n) d r of Inl e \<Rightarrow> Inl e | Inr r \<Rightarrow> WalkEntries fn path es r)"

text \<open>The function LoadDir passes to WalkDir.\<close>

definition load_visit :: "(string \<Rightarrow> string + Y_Workflow) \<Rightarrow> visitor" where
  "load_visit unmarshal path d err r =
     (case err of
        Some e \<Rightarrow> Inl (WalkFailed e)
      | None \<Rightarrow>
          (case d of
             Dir _ _ \<Rightarrow> Inr r
           | File content \<Rightarrow>
               if \<not> isWorkflowFile path then Inr r
               else case content of
                 Inl e \<Rightarrow> Inl (ReadFailed path e)
               | Inr data \<Rightarrow>
                   (case ParseYAML unmarshal data of
                      Inl e \<Rightarrow> Inl (ParseFailed path e)
                    | Inr w \<Rightarrow> Inr (AList.update (registry_key (W_Name w) (W_Version w)) w r))))"

text \<open>\<open>start\<close> is what \<^verbatim>\<open>os.Lstat\<close> says of the directory.\<close>

definition LoadDir ::
  "(string \<Rightarrow> string + Y_Workflow) \<Rightarrow> string \<Rightarrow> string + node \<Rightarrow> loader_error + Registry" where
  "LoadDir unmarshal dir start =
     (case start of
        Inl e \<Rightarrow> Inl (WalkFailed e)
      | Inr d \<Rightarrow> WalkDir (load_visit unmarshal) dir d [])"

definition RegisterAll :: "Registry \<Rightarrow> unit eng" where
  "RegisterAll r =
     bnd (in_map_order (map fst r)) (\<lambda>keys.
       for_each keys (\<lambda>k. case map_of r k of
           None \<Rightarrow> ret ()
         | Some w \<Rightarrow> wrap_error (RegisterFailed (W_Name w) (W_Version w)) (Engine_RegisterWorkflow w)))"

section \<open>What is loaded\<close>

text \<open>The workflow files of a tree in the order of the walk, and whether every directory can be read.\<close>

fun files :: "string \<Rightarrow> node \<Rightarrow> (string \<times> (string + string)) list"
  and entry_files :: "string \<Rightarrow> (string \<times> node) list \<Rightarrow> (string \<times> (string + string)) list" where
  "files path (File c) = (if isWorkflowFile path then [(path, c)] else [])"
| "files path (Dir err es) = entry_files path es"
| "entry_files path [] = []"
| "entry_files path ((n, d) # es) = files (join_path path n) d @ entry_files path es"

fun listable :: "node \<Rightarrow> bool" and entries_listable :: "(string \<times> node) list \<Rightarrow> bool" where
  "listable (File c) = True"
| "listable (Dir err es) = (err = None \<and> entries_listable es)"
| "entries_listable [] = True"
| "entries_listable ((n, d) # es) = (listable d \<and> entries_listable es)"

text \<open>The definition a file holds, if it can be read and compiled.\<close>

definition holds :: "(string \<Rightarrow> string + Y_Workflow) \<Rightarrow> string \<times> (string + string) \<Rightarrow> WorkflowDef option" where
  "holds unmarshal f =
     (case snd f of
        Inl e \<Rightarrow> None
      | Inr data \<Rightarrow> (case ParseYAML unmarshal data of Inl e \<Rightarrow> None | Inr w \<Rightarrow> Some w))"

definition put_def :: "WorkflowDef \<Rightarrow> Registry \<Rightarrow> Registry" where
  "put_def w r = AList.update (registry_key (W_Name w) (W_Version w)) w r"

lemma WalkDir_iff:
  "WalkDir (load_visit u) path d r = Inr r' \<longleftrightarrow>
     listable d \<and> None \<notin> holds u ` set (files path d) \<and>
     r' = fold put_def (map (\<lambda>f. the (holds u f)) (files path d)) r"
  "WalkEntries (load_visit u) path es r = Inr r' \<longleftrightarrow>
     entries_listable es \<and> None \<notin> holds u ` set (entry_files path es) \<and>
     r' = fold put_def (map (\<lambda>f. the (holds u f)) (entry_files path es)) r"
proof (induction "load_visit u" path d r and "load_visit u" path es r arbitrary: r' and r'
    rule: WalkDir_WalkEntries.induct)
  case (1 path c r)
  then show ?case by (auto simp: load_visit_def holds_def put_def_def split: sum.splits)
next
  case (2 path err es r)
  then show ?case by (auto simp: load_visit_def split: option.splits)
next
  case (4 path n d es r)
  show ?case
  proof (cases "WalkDir (load_visit u) (join_path path n) d r")
    case (Inl e)
    then have "\<not> (listable d \<and> None \<notin> holds u ` set (files (join_path path n) d))"
      using "4.hyps"(1) by force
    with Inl show ?thesis by auto
  next
    case (Inr r1)
    then have d: "listable d" "None \<notin> holds u ` set (files (join_path path n) d)"
        "r1 = fold put_def (map (\<lambda>f. the (holds u f)) (files (join_path path n) d)) r"
      using "4.hyps"(1) [of r1] by auto
    show ?thesis using Inr d(1,2) "4.hyps"(2) [OF Inr, of r'] unfolding d(3) [symmetric]
      by (simp add: d(3) image_Un)
  qed
qed auto

lemma update_new: "k \<notin> fst ` set r \<Longrightarrow> AList.update k v r = r @ [(k, v)]"
  by (induction r) auto

abbreviation key_of :: "WorkflowDef \<Rightarrow> string" where
  "key_of w \<equiv> registry_key (W_Name w) (W_Version w)"

lemma fold_put_def:
  assumes "distinct (map key_of ws)" "\<forall>w \<in> set ws. key_of w \<notin> fst ` set r"
  shows "fold put_def ws r = r @ map (\<lambda>w. (key_of w, w)) ws"
  using assms
proof (induction ws arbitrary: r)
  case (Cons w ws)
  then have "put_def w r = r @ [(key_of w, w)]"
    by (simp add: put_def_def update_new)
  moreover have "\<forall>x \<in> set ws. key_of x \<notin> fst ` set (r @ [(key_of w, w)])"
    using Cons.prems by (auto simp: image_iff)
  ultimately show ?case using Cons by simp
qed simp

section \<open>What is deployed\<close>

definition deployed :: "Engine \<Rightarrow> WorkflowDef \<Rightarrow> bool" where
  "deployed s w \<longleftrightarrow> GetWorkflow (G_store s) (W_Name w) (W_Version w) = Inr w \<and>
     workflow s (W_Name w) (W_Version w) = Some w"

text \<open>What RegisterWorkflow asks of a definition, and Compile does not check of \<open>initial\<close>.\<close>

definition startable :: "WorkflowDef \<Rightarrow> bool" where
  "startable w \<longleftrightarrow> W_Name w \<noteq> [] \<and> W_Version w \<noteq> [] \<and> W_Initial w \<noteq> [] \<and> Step w (W_Initial w) \<noteq> None"

lemma register_deploys:
  assumes "available (G_world s)" "startable w"
  shows "\<exists>t. wrap_error (RegisterFailed n v) (Engine_RegisterWorkflow w) s = (Ok (), t) \<and>
    G_world t = G_world s \<and> deployed t w \<and>
    (\<forall>x. deployed s x \<longrightarrow> key_of x \<noteq> key_of w \<longrightarrow> deployed t x)"
proof -
  let ?t = "s\<lparr>G_workflows := (G_workflows s)(wfKey (W_Name w) (W_Version w) \<mapsto> w),
      G_ticks := Suc (G_ticks s), G_store := RegisterWorkflow w (G_store s)\<rparr>"
  have run: "Engine_RegisterWorkflow w s = (Ok (), ?t)"
    using assms by (auto simp: Engine_RegisterWorkflow_def startable_def cache_workflow_def
        store_RegisterWorkflow_def writing_available Let_def)
  have w: "deployed ?t w" by (simp add: deployed_def workflow_def)
  have x: "deployed ?t x" if "deployed s x" "key_of x \<noteq> key_of w" for x
    using that by (auto simp: deployed_def workflow_def wfKey_def registry_key_def)
  have "wrap_error (RegisterFailed n v) (Engine_RegisterWorkflow w) s = (Ok (), ?t)"
    by (simp add: wrap_error_def bnd_run attempt_run run)
  with w x show ?thesis by fastforce
qed

lemma register_each_deploys:
  assumes "available (G_world s)" "\<forall>(k, w) \<in> set r. k = key_of w \<and> startable w"
  shows "\<exists>t. for_each ks (\<lambda>k. case map_of r k of
           None \<Rightarrow> ret ()
         | Some w \<Rightarrow> wrap_error (RegisterFailed (W_Name w) (W_Version w)) (Engine_RegisterWorkflow w)) s = (Ok (), t) \<and>
    (\<forall>k w. map_of r k = Some w \<longrightarrow> k \<in> set ks \<or> deployed s w \<longrightarrow> deployed t w)"
  using assms(1)
proof (induction ks arbitrary: s)
  case (Cons k ks)
  show ?case
  proof (cases "map_of r k")
    case None
    with Cons.IH [OF Cons.prems] show ?thesis by auto
  next
    case (Some w)
    then have w: "startable w" "k = key_of w" using assms(2) by (auto dest: map_of_SomeD)
    obtain u where u: "wrap_error (RegisterFailed (W_Name w) (W_Version w)) (Engine_RegisterWorkflow w) s = (Ok (), u)"
        "G_world u = G_world s" "deployed u w" "\<forall>x. deployed s x \<longrightarrow> key_of x \<noteq> key_of w \<longrightarrow> deployed u x"
      using register_deploys [OF Cons.prems w(1)] by blast
    obtain t where t: "for_each ks (\<lambda>k. case map_of r k of
           None \<Rightarrow> ret ()
         | Some w \<Rightarrow> wrap_error (RegisterFailed (W_Name w) (W_Version w)) (Engine_RegisterWorkflow w)) u = (Ok (), t)"
        "\<forall>k w. map_of r k = Some w \<longrightarrow> k \<in> set ks \<or> deployed u w \<longrightarrow> deployed t w"
      using Cons.IH [of u] Cons.prems u(2) by auto
    have "deployed t x" if x: "map_of r k' = Some x" "k' \<in> set (k # ks) \<or> deployed s x" for k' x
    proof -
      have "k' = key_of x" using assms(2) x(1) by (auto dest: map_of_SomeD)
      then have "x = w \<or> key_of x \<noteq> key_of w" using x(1) Some w(2) by auto
      with t(2) u(3,4) x w(2) \<open>k' = key_of x\<close> show ?thesis by auto
    qed
    with Some u(1) t(1) show ?thesis by (auto simp: bnd_run)
  qed
qed simp

text \<open>
  When every workflow file below a directory can be read and compiles to a definition that starts at
  one of its steps, and no two define the same name and version, every file's definition is deployed.
\<close>

lemma files_are_deployed:
  assumes "listable d"
    and ok: "\<forall>f \<in> set (files dir d). \<exists>w. holds unmarshal f = Some w \<and> startable w"
    and dist: "distinct (map (\<lambda>f. key_of (the (holds unmarshal f))) (files dir d))"
    and "available (G_world s)" "\<forall>k ks. set (order (G_world s) k ks) = set ks"
  shows "\<exists>r t. LoadDir unmarshal dir (Inr d) = Inr r \<and> Count r = length (files dir d) \<and>
    RegisterAll r s = (Ok (), t) \<and> snd ` set r = (\<lambda>f. the (holds unmarshal f)) ` set (files dir d) \<and>
    (\<forall>f \<in> set (files dir d). \<exists>w. holds unmarshal f = Some w \<and> deployed t w)"
proof -
  let ?ws = "map (\<lambda>f. the (holds unmarshal f)) (files dir d)"
  let ?r = "map (\<lambda>w. (key_of w, w)) ?ws"
  have "None \<notin> holds unmarshal ` set (files dir d)" using ok by auto
  moreover have "fold put_def ?ws [] = ?r" using dist by (subst fold_put_def) (simp_all add: comp_def)
  ultimately have load: "LoadDir unmarshal dir (Inr d) = Inr ?r"
    using assms(1) by (simp add: LoadDir_def WalkDir_iff)
  have r: "\<forall>(k, w) \<in> set ?r. k = key_of w \<and> startable w" using ok by fastforce
  have "available (G_world (tick_of s))" using assms(4) by simp
  from register_each_deploys [OF this r, of "order (G_world s) (G_ticks s) (map fst ?r)"] assms(5)
  obtain t where t: "RegisterAll ?r s = (Ok (), t)"
      "\<forall>k w. map_of ?r k = Some w \<longrightarrow> k \<in> fst ` set ?r \<longrightarrow> deployed t w"
    by (auto simp: RegisterAll_def in_map_order_def bnd_run sample_def image_image)
  have "deployed t (the (holds unmarshal f))" if "f \<in> set (files dir d)" for f
  proof -
    have "distinct (map fst ?r)" using dist by (simp add: comp_def)
    then have "map_of ?r (key_of (the (holds unmarshal f))) = Some (the (holds unmarshal f))"
      using that by (intro map_of_is_SomeI) auto
    with t(2) show ?thesis by (metis (no_types, lifting) domI dom_map_of_conv_image_fst)
  qed
  moreover have "snd ` set ?r = (\<lambda>f. the (holds unmarshal f)) ` set (files dir d)" by (simp add: image_image)
  ultimately show ?thesis using ok t(1) load
    by (intro exI [of _ ?r] exI [of _ t] conjI) (fastforce simp: Count_def)+
qed

definition demo_tree :: node where
  "demo_tree = Dir None [(''README.md'', File (Inl ''denied'')), (''wf.YML'', File (Inr ''steps''))]"

definition demo_unmarshal :: "string \<Rightarrow> string + Y_Workflow" where
  "demo_unmarshal data = (if data = ''steps'' then Inr y_demo else Inl ''bad'')"

lemma files_demo: "files ''engine/examples'' demo_tree = [(''engine/examples/wf.YML'', Inr ''steps'')]"
proof -
  have "\<not> isWorkflowFile ''engine/examples/README.md''" "isWorkflowFile ''engine/examples/wf.YML''" by code_simp+
  then show ?thesis by (simp add: demo_tree_def join_path_def)
qed

lemma holds_demo: "holds demo_unmarshal (path, Inr ''steps'') = Some (meaning y_demo)"
  by (simp add: holds_def ParseYAML_def demo_unmarshal_def y_demo_compiles)

lemma startable_demo: "startable (meaning y_demo)"
  by (simp add: startable_def meaning_def y_demo_def y_step_def Step_def)

end
