(* ===== verification/Auth.thy ===== *)
theory Auth
  imports Go_Lib
begin

text \<open>
  Who may call the API (api/auth.go), and how the server program configures it from its
  environment (cmd/conduit-server/main.go). A request is the function that gives the first value
  of a header, empty when there is none. Base64 is that of Go's encoding/base64: line breaks are
  skipped, padding is required, left-over bits are not looked at.
\<close>

section \<open>Base64\<close>

definition alphabet :: string where
  "alphabet = ''ABCDEFGHIJKLMNOPQRSTUVWXYZabcdefghijklmnopqrstuvwxyz0123456789+/''"

definition sextet_val :: "char \<Rightarrow> nat option" where
  "sextet_val c =
     (if c \<in> set alphabet then Some (length (takeWhile (\<lambda>x. x \<noteq> c) alphabet)) else None)"

definition byte :: "nat \<Rightarrow> char" where
  "byte n = char_of (n mod 256)"

fun decode_quanta :: "string \<Rightarrow> string option" where
  "decode_quanta [] = Some []"
| "decode_quanta (a # b # c # d # rest) =
     (case (sextet_val a, sextet_val b) of
        (Some x, Some y) \<Rightarrow>
          if c = CHR ''='' then
            (if d = CHR ''='' \<and> rest = [] then Some [byte (x * 4 + y div 16)] else None)
          else (case sextet_val c of
            None \<Rightarrow> None
          | Some z \<Rightarrow>
              if d = CHR ''='' then
                (if rest = [] then Some [byte (x * 4 + y div 16), byte (y * 16 + z div 4)] else None)
              else (case sextet_val d of
                None \<Rightarrow> None
              | Some w \<Rightarrow>
                  map_option (\<lambda>bs. byte (x * 4 + y div 16) # byte (y * 16 + z div 4) # byte (z * 64 + w) # bs)
                    (decode_quanta rest)))
      | _ \<Rightarrow> None)"
| "decode_quanta _ = None"

definition DecodeString :: "string \<Rightarrow> string option" where
  "DecodeString s = decode_quanta (filter (\<lambda>c. c \<noteq> CHR 0x0A \<and> c \<noteq> CHR 0x0D) s)"

section \<open>The code\<close>

record AuthConfig =
  AC_Username :: string
  AC_Password :: string
  AC_APIKeys :: "string list"

type_synonym headers = "string \<Rightarrow> string"

definition ConstantTimeCompare :: "string \<Rightarrow> string \<Rightarrow> int" where
  "ConstantTimeCompare x y = (if x = y then 1 else 0)"

definition HasPrefix :: "string \<Rightarrow> string \<Rightarrow> bool" where
  "HasPrefix s p \<longleftrightarrow> take (length p) s = p"

definition TrimPrefix :: "string \<Rightarrow> string \<Rightarrow> string" where
  "TrimPrefix s p = (if HasPrefix s p then drop (length p) s else s)"

text \<open>\<^verbatim>\<open>strings.SplitN(s, ":", 2)\<close>\<close>

definition split_colon :: "string \<Rightarrow> string list" where
  "split_colon s =
     (case dropWhile (\<lambda>c. c \<noteq> CHR '':'') s of
        [] \<Rightarrow> [s]
      | _ # rest \<Rightarrow> [takeWhile (\<lambda>c. c \<noteq> CHR '':'') s, rest])"

definition matchUser :: "AuthConfig \<Rightarrow> string \<Rightarrow> string \<Rightarrow> bool" where
  "matchUser c user pass \<longleftrightarrow>
     (if length (AC_Username c) = 0 \<or> length (AC_Password c) = 0 then False
      else ConstantTimeCompare user (AC_Username c) = 1 \<and> ConstantTimeCompare pass (AC_Password c) = 1)"

definition matchKey :: "AuthConfig \<Rightarrow> string \<Rightarrow> bool" where
  "matchKey c key \<longleftrightarrow> list_ex (\<lambda>k. ConstantTimeCompare key k = 1) (AC_APIKeys c)"

definition authenticated :: "AuthConfig \<Rightarrow> headers \<Rightarrow> bool" where
  "authenticated c header \<longleftrightarrow>
     (let key = header ''X-API-Key''
      in if key \<noteq> [] \<and> matchKey c key then True
         else let auth = header ''Authorization''
         in if auth = [] then False
            else if HasPrefix auth ''Bearer '' then matchKey c (TrimPrefix auth ''Bearer '')
            else if HasPrefix auth ''Basic '' then
              (case DecodeString (TrimPrefix auth ''Basic '') of
                 None \<Rightarrow> False
               | Some raw \<Rightarrow>
                   (let parts = split_colon raw
                    in if length parts \<noteq> 2 then False else matchUser c (parts ! 0) (parts ! 1)))
            else False)"

text \<open>
  The wrapped handler \<open>nxt\<close> takes the request to a response; \<open>Unauthorized\<close> is status 401 with the
  header WWW-Authenticate, written without calling it.
\<close>

datatype 'a answer = Served 'a | Unauthorized

definition Middleware :: "AuthConfig \<Rightarrow> (headers \<Rightarrow> 's \<Rightarrow> 'a \<times> 's) \<Rightarrow> headers \<Rightarrow> 's \<Rightarrow> 'a answer \<times> 's" where
  "Middleware c nxt header s =
     (if authenticated c header then (case nxt header s of (a, s') \<Rightarrow> (Served a, s'))
      else (Unauthorized, s))"

section \<open>The configuration of the server program\<close>

definition getenv :: "(string \<Rightarrow> string) \<Rightarrow> string \<Rightarrow> string \<Rightarrow> string" where
  "getenv env key def = (let v = env key in if v \<noteq> [] then v else def)"

definition is_space :: "char \<Rightarrow> bool" where
  "is_space c \<longleftrightarrow> c = CHR '' '' \<or> 9 \<le> (of_char c :: nat) \<and> (of_char c :: nat) \<le> 13"

text \<open>\<^verbatim>\<open>strings.TrimSpace\<close>, exact on ASCII.\<close>

definition TrimSpace :: "string \<Rightarrow> string" where
  "TrimSpace s = rev (dropWhile is_space (rev (dropWhile is_space s)))"

fun splitComma_loop :: "string list \<Rightarrow> string list \<Rightarrow> string list" where
  "splitComma_loop out [] = out"
| "splitComma_loop out (p # ps) =
     (let p = TrimSpace p in if p \<noteq> [] then splitComma_loop (out @ [p]) ps else splitComma_loop out ps)"

definition splitComma :: "string \<Rightarrow> string list" where
  "splitComma s = (if s = [] then [] else splitComma_loop [] (split_on CHR '','' s))"

definition server_auth :: "(string \<Rightarrow> string) \<Rightarrow> AuthConfig" where
  "server_auth env =
     \<lparr>AC_Username = getenv env ''CONDUIT_USERNAME'' ''admin'',
      AC_Password = getenv env ''CONDUIT_PASSWORD'' ''secret'',
      AC_APIKeys = splitComma (getenv env ''CONDUIT_API_KEYS'' [])\<rparr>"

section \<open>What a client sends\<close>

text \<open>The encoding of RFC 4648, by which a client writes its credentials.\<close>

definition sextet :: "nat \<Rightarrow> char" where
  "sextet n = alphabet ! (n mod 64)"

fun base64 :: "string \<Rightarrow> string" where
  "base64 [] = []"
| "base64 [a] = (let x = of_char a in [sextet (x div 4), sextet (x * 16), CHR ''='', CHR ''=''])"
| "base64 [a, b] = (let x = of_char a; y = of_char b
     in [sextet (x div 4), sextet (x * 16 + y div 16), sextet (y * 4), CHR ''=''])"
| "base64 (a # b # c # r) = (let x = of_char a; y = of_char b; z = of_char c
     in sextet (x div 4) # sextet (x * 16 + y div 16) # sextet (y * 4 + z div 64) # sextet z # base64 r)"

lemma alphabet_facts: "distinct alphabet" "length alphabet = 64"
    "CHR ''='' \<notin> set alphabet" "CHR 0x0A \<notin> set alphabet" "CHR 0x0D \<notin> set alphabet"
  by code_simp+

lemma takeWhile_nth: "distinct xs \<Longrightarrow> n < length xs \<Longrightarrow> takeWhile (\<lambda>x. x \<noteq> xs ! n) xs = take n xs"
proof (induction xs arbitrary: n)
  case (Cons x xs)
  then show ?case by (cases n) auto
qed simp

lemma sextet_in: "sextet n \<in> set alphabet"
  by (simp add: sextet_def alphabet_facts(2))

lemma sextet_val_sextet [simp]: "sextet_val (sextet n) = Some (n mod 64)"
  using sextet_in [of n]
  by (simp add: sextet_val_def sextet_def takeWhile_nth alphabet_facts(1,2))

lemma sextet_not [simp]: "sextet n \<noteq> CHR ''=''" "sextet n \<noteq> CHR 0x0A" "sextet n \<noteq> CHR 0x0D"
  using sextet_in [of n] alphabet_facts(3-5) by metis+

lemma byte_of_char: "n mod 256 = of_char c \<Longrightarrow> byte n = c"
  by (simp add: byte_def)

text \<open>The bytes that four sextets of three bytes stand for.\<close>

lemma sextet_arith:
  fixes x y z :: nat
  assumes "x < 256" "y < 256" "z < 256"
  shows "x div 4 * 4 + (x * 16 + y div 16) mod 64 div 16 = x"
    "((x * 16 + y div 16) mod 64 * 16 + (y * 4 + z div 64) mod 64 div 4) mod 256 = y"
    "((y * 4 + z div 64) mod 64 * 64 + z mod 64) mod 256 = z"
proof -
  have x: "x div 4 < 64" "y div 16 < 16" "z div 64 < 4" using assms by auto
  have s: "(x * 16 + y div 16) mod 64 = x mod 4 * 16 + y div 16"
  proof -
    have "x * 16 + y div 16 = 64 * (x div 4) + (x mod 4 * 16 + y div 16)"
      using mult_div_mod_eq [of 4 x] by linarith
    moreover have "x mod 4 * 16 + y div 16 < 64" using x(2) mod_less_divisor [of 4 x] by linarith
    ultimately show ?thesis by (metis mod_less mod_mult_self4)
  qed
  have t: "(y * 4 + z div 64) mod 64 = y mod 16 * 4 + z div 64"
  proof -
    have "y * 4 + z div 64 = 64 * (y div 16) + (y mod 16 * 4 + z div 64)"
      using mult_div_mod_eq [of 16 y] by linarith
    moreover have "y mod 16 * 4 + z div 64 < 64" using x(3) mod_less_divisor [of 16 y] by linarith
    ultimately show ?thesis by (metis mod_less mod_mult_self4)
  qed
  show "x div 4 * 4 + (x * 16 + y div 16) mod 64 div 16 = x"
    using x mult_div_mod_eq [of 4 x] by (simp add: s)
  have "(x mod 4 * 16 + y div 16) * 16 + (y mod 16 * 4 + z div 64) div 4 = 256 * (x mod 4) + y"
    using x mult_div_mod_eq [of 16 y] by simp
  then show "((x * 16 + y div 16) mod 64 * 16 + (y * 4 + z div 64) mod 64 div 4) mod 256 = y"
    unfolding s t using assms(2) by simp
  have "(y mod 16 * 4 + z div 64) * 64 + z mod 64 = 256 * (y mod 16) + z"
    using mult_div_mod_eq [of 64 z] by simp
  then show "((y * 4 + z div 64) mod 64 * 64 + z mod 64) mod 256 = z"
    unfolding t using assms(3) by simp
qed

lemma high_sextet: "(of_char c :: nat) div 4 mod 64 = of_char c div 4"
  using nat_of_char_less_256 [of c] by (simp only: mod_less less_mult_imp_div_less)

lemma decode_base64: "decode_quanta (base64 s) = Some s"
proof (induction s rule: base64.induct)
  case (2 a)
  show ?case using sextet_arith(1) [of "of_char a" 0 0] by (simp add: Let_def byte_def high_sextet)
next
  case (3 a b)
  show ?case using sextet_arith(1,2) [of "of_char a" "of_char b" 0] by (simp add: Let_def byte_def high_sextet)
next
  case (4 a b c r)
  then show ?case using sextet_arith [of "of_char a" "of_char b" "of_char c"]
    by (simp add: Let_def byte_def high_sextet)
qed simp

lemma base64_one_line: "c \<in> set (base64 s) \<Longrightarrow> c \<noteq> CHR 0x0A \<and> c \<noteq> CHR 0x0D"
  by (induction s rule: base64.induct) (auto simp: Let_def dest: sym)

lemma DecodeString_base64: "DecodeString (base64 s) = Some s"
proof -
  have "filter (\<lambda>c. c \<noteq> CHR 0x0A \<and> c \<noteq> CHR 0x0D) (base64 s) = base64 s"
    by (rule filter_True) (use base64_one_line in blast)
  then show ?thesis by (simp add: DecodeString_def decode_base64)
qed

section \<open>Access\<close>

lemma split_colon_pair: "CHR '':'' \<notin> set u \<Longrightarrow> split_colon (u @ CHR '':'' # p) = [u, p]"
proof -
  assume "CHR '':'' \<notin> set u"
  then have "dropWhile (\<lambda>c. c \<noteq> CHR '':'') (u @ CHR '':'' # p) = CHR '':'' # p"
    "takeWhile (\<lambda>c. c \<noteq> CHR '':'') (u @ CHR '':'' # p) = u"
    by (induction u) auto
  then show ?thesis by (simp add: split_colon_def)
qed

lemma matchKey_iff: "matchKey c k \<longleftrightarrow> k \<in> set (AC_APIKeys c)"
  by (auto simp: matchKey_def ConstantTimeCompare_def list_ex_iff)

lemma matchUser_iff:
  "matchUser c u p \<longleftrightarrow> u \<noteq> [] \<and> p \<noteq> [] \<and> u = AC_Username c \<and> p = AC_Password c"
  by (auto simp: matchUser_def ConstantTimeCompare_def)

lemma splitComma_loop_nonempty: "[] \<notin> set out \<Longrightarrow> [] \<notin> set (splitComma_loop out ps)"
  by (induction out ps rule: splitComma_loop.induct) (auto simp: Let_def)

lemma splitComma_nonempty: "[] \<notin> set (splitComma s)"
  by (simp add: splitComma_def splitComma_loop_nonempty)

text \<open>An empty key never opens the server: the parsed list of keys holds none.\<close>

lemma no_blank_key: "\<not> matchKey (server_auth env) []"
  using splitComma_nonempty by (simp add: matchKey_iff server_auth_def)

text \<open>
  (C30) Basic authentication is exact: with credentials encoded in base64 a request passes if and
  only if user and password are the configured ones and neither is empty, unless it carries a valid
  API key; a request that does not pass is answered 401 and never reaches the handler.
\<close>

theorem basic_auth_exact:
  assumes "CHR '':'' \<notin> set user" "header ''X-API-Key'' \<notin> set (AC_APIKeys c)"
    and "header ''Authorization'' = ''Basic '' @ base64 (user @ CHR '':'' # pass)"
  shows "Middleware c nxt header s =
    (if user = AC_Username c \<and> pass = AC_Password c \<and> user \<noteq> [] \<and> pass \<noteq> []
     then (Served (fst (nxt header s)), snd (nxt header s)) else (Unauthorized, s))"
proof -
  let ?b = "base64 (user @ CHR '':'' # pass)"
  have "TrimPrefix (''Basic '' @ ?b) ''Basic '' = ?b" "\<not> HasPrefix (''Basic '' @ ?b) ''Bearer ''"
    "HasPrefix (''Basic '' @ ?b) ''Basic ''"
    by (simp_all add: TrimPrefix_def HasPrefix_def)
  then have "authenticated c header \<longleftrightarrow> matchUser c user pass"
    using assms by (simp add: authenticated_def Let_def matchKey_iff DecodeString_base64 split_colon_pair
        del: base64.simps)
  then show ?thesis by (auto simp: Middleware_def matchUser_iff split: prod.split)
qed

theorem basic_auth_exact_witness:
  "Middleware (server_auth (\<lambda>_. [])) (\<lambda>h s. (True, Suc s))
     (\<lambda>h. if h = ''Authorization'' then ''Basic '' @ base64 ''admin:secret'' else []) 0 = (Served True, 1)"
proof -
  have k: "([] :: string) \<notin> set (AC_APIKeys (server_auth (\<lambda>_. [])))"
    using splitComma_nonempty by (simp add: server_auth_def)
  show ?thesis
    using basic_auth_exact [of "''admin''" "\<lambda>h. if h = ''Authorization'' then ''Basic '' @ base64 ''admin:secret'' else []"
        "server_auth (\<lambda>_. [])" "''secret''" "\<lambda>h s. (True, Suc s)" 0] k
    by (simp add: server_auth_def getenv_def del: base64.simps)
qed

end
