(* ===== verification/Grpc.thy ===== *)
theory Grpc
  imports Engine_Effects
begin

text \<open>
  The gRPC service (api/grpc/server.go): each method calls the engine and turns its result into a
  message or its error into a status. A JSON text inside a message stands as the value it denotes.
  A method returns a status or a message; a crash of the engine passes through it.
\<close>

section \<open>Messages\<close>

datatype code = InvalidArgument | NotFound | Internal

text \<open>\<^verbatim>\<open>status.Error\<close> and \<^verbatim>\<open>status.Errorf\<close>: the code, the text and the error it formats.\<close>

datatype status = Status code string "error option"

text \<open>The field fields_json of a request: empty, no JSON object, or the text of an object or null.\<close>

datatype json_text = NoText | BadText string | Text "goobj option"

record CreateTicketRequest =
  CQ_Workflow :: string
  CQ_Version :: string
  CQ_Title :: string
  CQ_FieldsJson :: json_text

text \<open>In a reply, None is the empty text.\<close>

record P_Ticket =
  PT_Id :: string
  PT_Workflow :: string
  PT_WorkflowVersion :: string
  PT_Title :: string
  PT_FieldsJson :: "goobj option"
  PT_Assignee :: string
  PT_Queue :: string
  PT_Priority :: string
  PT_CreatedAt :: string
  PT_UpdatedAt :: string

record P_WorkflowRun =
  PR_Id :: string
  PR_TicketId :: string
  PR_Workflow :: string
  PR_WorkflowVersion :: string
  PR_Status :: string
  PR_CurrentStep :: string
  PR_OutputJson :: "goobj option"
  PR_Failed :: bool

record P_WorkflowDef =
  PW_Name :: string
  PW_Version :: string
  PW_Description :: string
  PW_Initial :: string
  PW_StepCount :: int

section \<open>Times\<close>

text \<open>
  Go's calendar, the proleptic Gregorian one: the year of a day and the day's number in it, both
  from zero. Day 0 is the first of January of the year 1.
\<close>

definition year_day :: "int \<Rightarrow> int \<times> int" where
  "year_day d =
     (let n400 = d div 146097; d = d mod 146097;
          n100 = min (d div 36524) 3; d = d - 36524 * n100;
          n4 = d div 1461; d = d mod 1461;
          n1 = min (d div 365) 3
      in (400 * n400 + 100 * n100 + 4 * n4 + n1 + 1, d - 365 * n1))"

definition is_leap :: "int \<Rightarrow> bool" where
  "is_leap y \<longleftrightarrow> y mod 4 = 0 \<and> (y mod 100 \<noteq> 0 \<or> y mod 400 = 0)"

definition month_lengths :: "int \<Rightarrow> int list" where
  "month_lengths y = [31, if is_leap y then 29 else 28, 31, 30, 31, 30, 31, 31, 30, 31, 30, 31]"

fun month_day :: "int \<Rightarrow> int list \<Rightarrow> int \<Rightarrow> int \<times> int" where
  "month_day m [] d = (m, d + 1)"
| "month_day m (l # ls) d = (if d < l then (m, d + 1) else month_day (m + 1) ls (d - l))"

definition padded :: "nat \<Rightarrow> int \<Rightarrow> string" where
  "padded width i =
     (let ds = nat_digits (nat \<bar>i\<bar>)
      in (if i < 0 then ''-'' else []) @ replicate (width - length ds) CHR ''0'' @ ds)"

text \<open>The calendar is right: the day is that many days after the start of its year.\<close>

lemma year_day_correct:
  assumes "year_day d = (y, k)"
  shows "d = 365 * (y - 1) + (y - 1) div 4 - (y - 1) div 100 + (y - 1) div 400 + k"
    and "0 \<le> k \<and> k \<le> 365"
proof -
  define a r where "a = d div 146097" and "r = d mod 146097"
  define b q where "b = min (r div 36524) 3" and "q = r - 36524 * b"
  define c s where "c = q div 1461" and "s = q mod 1461"
  define e where "e = min (s div 365) 3"
  have y: "y - 1 = 400 * a + 100 * b + 4 * c + e" and k: "k = s - 365 * e"
    using assms
    unfolding year_day_def Let_def a_def [symmetric] r_def [symmetric]
    unfolding b_def [symmetric] unfolding q_def [symmetric] c_def [symmetric] s_def [symmetric]
    unfolding e_def [symmetric] by simp_all
  have d: "d = 146097 * a + 36524 * b + 1461 * c + 365 * e + k"
    unfolding k by (simp add: a_def r_def q_def c_def s_def)
  have r: "0 \<le> r" "r < 146097" by (simp_all add: r_def)
  have b: "0 \<le> b" "b \<le> 3" using r by (simp_all add: b_def)
  have q: "0 \<le> q" "q \<le> 36524"
  proof (atomize (full), cases "r div 36524 \<le> 3")
    case True
    then have "q = r mod 36524" by (simp add: q_def b_def minus_mult_div_eq_mod)
    then show "0 \<le> q \<and> q \<le> 36524" by simp
  next
    case False
    then have "q = r - 109572" "4 * 36524 \<le> r" by (simp_all add: q_def b_def)
    with r(2) show "0 \<le> q \<and> q \<le> 36524" by simp
  qed
  have c: "0 \<le> c" "c \<le> 24" using q unfolding c_def by linarith+
  have s: "0 \<le> s" "s < 1461" by (simp_all add: s_def)
  have e: "0 \<le> e" "e \<le> 3" using s by (simp_all add: e_def)
  show "0 \<le> k \<and> k \<le> 365" using s unfolding k e_def by linarith
  have "(y - 1) div 4 = 100 * a + 25 * b + c"
    by (rule int_div_pos_eq [of _ _ _ e]) (use y e in simp_all)
  moreover have "(y - 1) div 100 = 4 * a + b"
    by (rule int_div_pos_eq [of _ _ _ "4 * c + e"]) (use y c e in simp_all)
  moreover have "(y - 1) div 400 = a"
    by (rule int_div_pos_eq [of _ _ _ "100 * b + 4 * c + e"]) (use y b c e in simp_all)
  ultimately have centuries: "(y - 1) div 4 = 100 * a + 25 * b + c" "(y - 1) div 100 = 4 * a + b"
    "(y - 1) div 400 = a" .
  show "d = 365 * (y - 1) + (y - 1) div 4 - (y - 1) div 100 + (y - 1) div 400 + k"
    unfolding centuries unfolding d y by simp
qed

text \<open>\<^verbatim>\<open>t.UTC().Format("2006-01-02T15:04:05Z07:00")\<close>\<close>

definition format_utc :: "time \<Rightarrow> string" where
  "format_utc t =
     (let secs = t div 1000000000; day = secs div 86400; s = secs mod 86400;
          (y, yd) = year_day day; (m, md) = month_day 1 (month_lengths y) yd
      in padded 4 y @ ''-'' @ padded 2 m @ ''-'' @ padded 2 md @ ''T'' @ padded 2 (s div 3600) @ '':''
         @ padded 2 (s mod 3600 div 60) @ '':'' @ padded 2 (s mod 60) @ ''Z'')"

section \<open>Conversions\<close>

definition marshalled :: "goobj option \<Rightarrow> goobj option" where
  "marshalled m =
     (if m \<noteq> None \<and> marshals_obj m then map_option (map (map_prod id json_any)) m else None)"

definition toProtoTicket :: "Ticket \<Rightarrow> P_Ticket" where
  "toProtoTicket t =
     \<lparr>PT_Id = T_ID t, PT_Workflow = T_Workflow t, PT_WorkflowVersion = T_WorkflowVer t,
      PT_Title = T_Title t, PT_FieldsJson = marshalled (T_Fields t), PT_Assignee = T_Assignee t,
      PT_Queue = T_Queue t, PT_Priority = T_Priority t,
      PT_CreatedAt = format_utc (T_CreatedAt t), PT_UpdatedAt = format_utc (T_UpdatedAt t)\<rparr>"

fun run_status_text :: "RunStatus \<Rightarrow> string" where
  "run_status_text RunStatusNone = []"
| "run_status_text RunStatusActive = ''ACTIVE''"
| "run_status_text RunStatusWaiting = ''WAITING''"
| "run_status_text RunStatusCompleted = ''COMPLETED''"
| "run_status_text RunStatusFailed = ''FAILED''"
| "run_status_text RunStatusCancelled = ''CANCELLED''"

definition toProtoRun :: "WorkflowRun \<Rightarrow> P_WorkflowRun" where
  "toProtoRun r =
     \<lparr>PR_Id = R_ID r, PR_TicketId = R_TicketID r, PR_Workflow = R_Workflow r,
      PR_WorkflowVersion = R_WorkflowVer r, PR_Status = run_status_text (R_Status r),
      PR_CurrentStep = R_Current r, PR_OutputJson = marshalled (R_Output r), PR_Failed = R_Failed r\<rparr>"

text \<open>\<^verbatim>\<open>int32(n)\<close>\<close>

definition int32 :: "int \<Rightarrow> int" where
  "int32 n = (n + 2 ^ 31) mod 2 ^ 32 - 2 ^ 31"

definition toProtoWorkflow :: "WorkflowDef \<Rightarrow> P_WorkflowDef" where
  "toProtoWorkflow w =
     \<lparr>PW_Name = W_Name w, PW_Version = W_Version w, PW_Description = W_Description w,
      PW_Initial = W_Initial w, PW_StepCount = int32 (int (length (W_Steps w)))\<rparr>"

section \<open>Methods\<close>

text \<open>\<^verbatim>\<open>x, err := m(); if err != nil { return nil, f(err) }; return g(x), nil\<close>\<close>

definition answer :: "(error \<Rightarrow> status) \<Rightarrow> ('a \<Rightarrow> 'b) \<Rightarrow> 'a eng \<Rightarrow> (status + 'b) eng" where
  "answer f g m = bnd (attempt m) (\<lambda>r. ret (case r of Inl e \<Rightarrow> Inl (f e) | Inr x \<Rightarrow> Inr (g x)))"

definition invalid :: "string \<Rightarrow> error \<Rightarrow> status" where
  "invalid text e = Status InvalidArgument text (Some e)"

definition internal :: "string \<Rightarrow> error \<Rightarrow> status" where
  "internal text e = Status Internal text (Some e)"

definition missing :: "string \<Rightarrow> string \<Rightarrow> error \<Rightarrow> status" where
  "missing absent text e = (if e = ErrNotFound then Status NotFound absent None else internal text e)"

definition Grpc_CreateTicket :: "nat \<Rightarrow> CreateTicketRequest \<Rightarrow> (status + P_Ticket) eng" where
  "Grpc_CreateTicket n req =
     (if CQ_Workflow req = [] \<or> CQ_Version req = [] \<or> CQ_Title req = [] then
        ret (Inl (Status InvalidArgument ''workflow, version and title are required'' None))
      else
        let create = (\<lambda>flds. answer (invalid ''create ticket: '') (\<lambda>(t, run). toProtoTicket t)
              (CreateTicket n (CQ_Workflow req) (CQ_Version req) (CQ_Title req) flds))
        in case CQ_FieldsJson req of
             NoText \<Rightarrow> create (Some [])
           | BadText e \<Rightarrow> ret (Inl (Status InvalidArgument (''fields_json is not valid JSON: '' @ e) None))
           | Text m \<Rightarrow> create m)"

definition Grpc_Approve :: "nat \<Rightarrow> run_id \<Rightarrow> string \<Rightarrow> string \<Rightarrow> string \<Rightarrow> (status + unit) eng" where
  "Grpc_Approve n runId step who comment =
     answer (invalid ''approve: '') id (Approve n runId step who comment)"

definition Grpc_Reject :: "run_id \<Rightarrow> string \<Rightarrow> string \<Rightarrow> string \<Rightarrow> (status + unit) eng" where
  "Grpc_Reject runId step who reason = answer (invalid ''reject: '') id (Reject runId step who reason)"

definition Grpc_Cancel :: "run_id \<Rightarrow> string \<Rightarrow> (status + unit) eng" where
  "Grpc_Cancel runId reason = answer (invalid ''cancel: '') id (Cancel runId reason)"

definition Grpc_GetTicket :: "string \<Rightarrow> (status + P_Ticket) eng" where
  "Grpc_GetTicket i =
     answer (missing ''ticket not found'' ''get ticket: '') toProtoTicket (Engine_GetTicket i)"

definition Grpc_ListTickets :: "(status + P_Ticket list) eng" where
  "Grpc_ListTickets = answer (internal ''list tickets: '') (map toProtoTicket) Engine_ListTickets"

definition Grpc_GetRun :: "string \<Rightarrow> (status + P_WorkflowRun) eng" where
  "Grpc_GetRun i = answer (missing ''run not found'' ''get run: '') toProtoRun (GetRun i)"

text \<open>A run that cannot be derived is left out.\<close>

fun collect_runs :: "(WorkflowRun \<Rightarrow> 'a) \<Rightarrow> run_id list \<Rightarrow> 'a list \<Rightarrow> 'a list eng" where
  "collect_runs f [] out = ret out"
| "collect_runs f (i # is) out =
     bnd (attempt (GetRun i)) (\<lambda>r.
       case r of Inl _ \<Rightarrow> collect_runs f is out | Inr run \<Rightarrow> collect_runs f is (out @ [f run]))"

definition Grpc_ListRuns :: "(status + P_WorkflowRun list) eng" where
  "Grpc_ListRuns =
     bnd (attempt ListRuns) (\<lambda>ids.
       case ids of
         Inl e \<Rightarrow> ret (Inl (internal ''list runs: '' e))
       | Inr ids \<Rightarrow> bnd (collect_runs toProtoRun ids []) (\<lambda>out. ret (Inr out)))"

definition Grpc_GetWorkflow :: "string \<Rightarrow> string \<Rightarrow> (status + P_WorkflowDef) eng" where
  "Grpc_GetWorkflow name version =
     answer (missing ''workflow not found'' ''get workflow: '') toProtoWorkflow (Engine_GetWorkflow name version)"

definition Grpc_ListWorkflows :: "(status + P_WorkflowDef list) eng" where
  "Grpc_ListWorkflows = answer (internal ''list workflows: '') (map toProtoWorkflow) Engine_ListWorkflows"

section \<open>Listing runs\<close>

text \<open>In a sound state whose cache keys are distinct, filling the cache changes no derived run.\<close>

lemma run_view_cached:
  assumes "sound s" "keys_distinct (G_store s)" "GetRun i s = (x, t)"
  shows "run_view t r = run_view s r" "sound t" "G_store t = G_store s" "G_log t = G_log s"
proof -
  show t: "sound t" using sound_keeps [OF keeps_sound_none [OF adds_GetRun] assms(1), of i] assms(3) by simp
  have r: "reads s t"
    using GetRun_available [OF sound_available [OF assms(1)], of i] assms(3) by (auto simp: same_but_cache_def)
  then show st: "G_store t = G_store s" "G_log t = G_log s" by (simp_all add: reads_def)
  show "run_view t r = run_view s r"
    unfolding run_view_store [OF assms(1,2)] run_view_store [OF t assms(2) [folded st(1)]]
    by (simp add: run_view_def def_of_def workflow_def st cong: list.case_cong sum.case_cong)
qed

lemma collect_runs_all:
  assumes "sound s" "keys_distinct (G_store s)" "\<forall>i \<in> set is. run_view s i \<noteq> None"
  shows "\<exists>t. collect_runs f is out s = (Ok (out @ map (\<lambda>i. f (the (run_view s i))) is), t) \<and>
    G_store t = G_store s \<and> G_log t = G_log s"
  using assms
proof (induction "is" arbitrary: s out)
  case (Cons i "is")
  obtain run where run: "run_view s i = Some run" using Cons.prems(3) by auto
  obtain u where u: "GetRun i s = (Ok run, u)"
    using GetRun_view [OF sound_available [OF Cons.prems(1)] run] by blast
  note v = run_view_cached [OF Cons.prems(1,2) u]
  from Cons.IH [of u "out @ [f run]"] Cons.prems(2,3) v run u show ?case
    by (simp add: bnd_run attempt_run)
qed simp

text \<open>Every run that the log lists has a history, so it can be derived.\<close>

lemma sound_lists_derivable:
  assumes "sound s" "r \<in> set (Runs (G_log s))"
  shows "run_view s r \<noteq> None"
proof -
  have "History (G_log s) r \<noteq> []"
    using assms(2) sound_log [OF assms(1)] by (simp add: log_ok_def Runs_def History_def)
  from sound_run_view [OF assms(1) this] show ?thesis by auto
qed

lemma log_lists_iff: "log_ok l \<Longrightarrow> r \<in> set (Runs l) \<longleftrightarrow> History l r \<noteq> []"
  by (auto simp: log_ok_def Runs_def History_def)

text \<open>
  (C39) GetRun's answer is exact. While the backends answer, a run of the log is answered with a
  message that carries the fields of the replay of its history one by one, the status as the words
  of the API and the output only when it can be marshalled; any other identifier is answered with
  NOT_FOUND, and no event or ticket changes. A log that does not answer is reported as INTERNAL and
  never as a missing run.
\<close>

theorem grpc_GetRun_exact:
  assumes "reachable available n s"
  shows "(\<exists>t. G_log t = G_log s \<and> G_store t = G_store s \<and>
      (if r \<in> set (Runs (G_log s)) then
         \<exists>def run m. Grpc_GetRun r s = (Ok (Inr m), t) \<and>
           run_view s r = Some run \<and> run = replayed r def (History (G_log s) r) \<and>
           PR_Id m = r \<and> PR_TicketId m = R_TicketID run \<and>
           PR_Workflow m = R_Workflow run \<and> PR_WorkflowVersion m = R_WorkflowVer run \<and>
           (PR_Status m, R_Status run) \<in>
             {([], RunStatusNone), (''ACTIVE'', RunStatusActive), (''WAITING'', RunStatusWaiting),
              (''COMPLETED'', RunStatusCompleted), (''FAILED'', RunStatusFailed),
              (''CANCELLED'', RunStatusCancelled)} \<and>
           PR_CurrentStep m = R_Current run \<and> PR_Failed m = R_Failed run \<and>
           PR_OutputJson m = (case R_Output run of
               Some out \<Rightarrow> if marshals_obj (Some out) then Some (map (map_prod id json_any) out) else None
             | None \<Rightarrow> None)
       else Grpc_GetRun r s = (Ok (Inl (Status NotFound ''run not found'' None)), t))) \<and>
    (backend (G_world s') (G_ticks s') \<noteq> Up \<longrightarrow>
      fst (Grpc_GetRun r s') = Ok (Inl (Status Internal ''get run: '' (Some Backend))))"
proof
  note s = reachable_sound [OF assms]
  obtain t where t: "GetRun r s = ((case run_view s r of None \<Rightarrow> Err ErrNotFound | Some run \<Rightarrow> Ok run), t)"
      "same_but_cache s t"
    using GetRun_available [OF sound_available [OF s], of r] by blast
  have same: "G_log t = G_log s" "G_store t = G_store s"
    using t(2) by (simp_all add: same_but_cache_def reads_def)
  show "\<exists>t. G_log t = G_log s \<and> G_store t = G_store s \<and>
      (if r \<in> set (Runs (G_log s)) then
         \<exists>def run m. Grpc_GetRun r s = (Ok (Inr m), t) \<and>
           run_view s r = Some run \<and> run = replayed r def (History (G_log s) r) \<and>
           PR_Id m = r \<and> PR_TicketId m = R_TicketID run \<and>
           PR_Workflow m = R_Workflow run \<and> PR_WorkflowVersion m = R_WorkflowVer run \<and>
           (PR_Status m, R_Status run) \<in>
             {([], RunStatusNone), (''ACTIVE'', RunStatusActive), (''WAITING'', RunStatusWaiting),
              (''COMPLETED'', RunStatusCompleted), (''FAILED'', RunStatusFailed),
              (''CANCELLED'', RunStatusCancelled)} \<and>
           PR_CurrentStep m = R_Current run \<and> PR_Failed m = R_Failed run \<and>
           PR_OutputJson m = (case R_Output run of
               Some out \<Rightarrow> if marshals_obj (Some out) then Some (map (map_prod id json_any) out) else None
             | None \<Rightarrow> None)
       else Grpc_GetRun r s = (Ok (Inl (Status NotFound ''run not found'' None)), t))"
  proof (cases "r \<in> set (Runs (G_log s))")
    case True
    obtain def where def: "run_view s r = Some (replayed r def (History (G_log s) r))"
      using sound_run_view [OF s] True log_lists_iff [OF sound_log [OF s]] by blast
    let ?run = "replayed r def (History (G_log s) r)"
    have g: "Grpc_GetRun r s = (Ok (Inr (toProtoRun ?run)), t)"
      using t(1) def by (simp add: Grpc_GetRun_def answer_def bnd_run attempt_run)
    have "(run_status_text (R_Status ?run), R_Status ?run) \<in>
        {([], RunStatusNone), (''ACTIVE'', RunStatusActive), (''WAITING'', RunStatusWaiting),
         (''COMPLETED'', RunStatusCompleted), (''FAILED'', RunStatusFailed), (''CANCELLED'', RunStatusCancelled)}"
      by (cases "R_Status ?run") simp_all
    moreover have "R_ID ?run = r" by (simp add: replayed_def new_run_def)
    ultimately show ?thesis
      by (intro exI [of _ t] exI [of _ def] exI [of _ ?run] exI [of _ "toProtoRun ?run"])
        (auto simp: True same g def toProtoRun_def marshalled_def split: option.split)
  next
    case False
    then have "run_view s r = None"
      using log_lists_iff [OF sound_log [OF s]] by (simp add: run_view_def)
    with t(1) have "Grpc_GetRun r s = (Ok (Inl (Status NotFound ''run not found'' None)), t)"
      by (simp add: Grpc_GetRun_def answer_def bnd_run attempt_run missing_def)
    with False same show ?thesis by auto
  qed
  show "backend (G_world s') (G_ticks s') \<noteq> Up \<longrightarrow>
      fst (Grpc_GetRun r s') = Ok (Inl (Status Internal ''get run: '' (Some Backend)))"
    by (simp add: Grpc_GetRun_def answer_def GetRun_def log_History_def reading_def sample_def bnd_run
        attempt_run missing_def internal_def)
qed

theorem grpc_GetRun_exact_witness:
  "(\<exists>m t. Grpc_GetRun ''run_0'' approval_demo = (Ok (Inr m), t) \<and>
      PR_Id m = ''run_0'' \<and> PR_Status m = ''ACTIVE'' \<and> PR_CurrentStep m = ''ok'' \<and> \<not> PR_Failed m) \<and>
   (\<exists>t. Grpc_GetRun ''run_1'' approval_demo = (Ok (Inl (Status NotFound ''run not found'' None)), t))"
proof
  have runs: "Runs (G_log approval_demo) = [''run_0'']"
    by (simp add: Runs_def approval_demo_def demo_state_def)
  let ?run = "demo_run approval_demo approval_flow"
  have "R_Status ?run = RunStatusActive" "R_Current ?run = ''ok''" "\<not> R_Failed ?run"
    by (simp_all add: eval_run cong: eval_congs)
  then show "\<exists>m t. Grpc_GetRun ''run_0'' approval_demo = (Ok (Inr m), t) \<and>
      PR_Id m = ''run_0'' \<and> PR_Status m = ''ACTIVE'' \<and> PR_CurrentStep m = ''ok'' \<and> \<not> PR_Failed m"
    using grpc_GetRun_exact [OF reachable_approval_demo, of "''run_0''" approval_demo] live_view [OF live_approval_demo]
    by (auto simp: runs)
  show "\<exists>t. Grpc_GetRun ''run_1'' approval_demo = (Ok (Inl (Status NotFound ''run not found'' None)), t)"
    using grpc_GetRun_exact [OF reachable_approval_demo, of "''run_1''" approval_demo] by (auto simp: runs)
qed

end
