(* ===== verification/Graphql.thy ===== *)
theory Graphql
  imports Grpc "HOL-Library.Multiset"
begin

text \<open>
  The resolvers of the GraphQL API (api/graphql/schema.go). The schema library, which parses
  queries, calls the resolvers and selects fields, is outside: it hands a resolver its arguments
  as dynamic values, and a literal as its syntax tree, in which the value of every scalar but a
  boolean is its text.
\<close>

section \<open>Literals\<close>

datatype ast_value =
    IntValue string
  | FloatValue string
  | StringValue string
  | BooleanValue bool
  | EnumValue string
  | ListValue "ast_value list"
  | ObjectValue "(string \<times> ast_value) list"
  | OtherValue

fun parseLiteral :: "ast_value \<Rightarrow> goany" where
  "parseLiteral (IntValue s) = VString s"
| "parseLiteral (FloatValue s) = VString s"
| "parseLiteral (StringValue s) = VString s"
| "parseLiteral (BooleanValue b) = VBool b"
| "parseLiteral (EnumValue s) = VString s"
| "parseLiteral (ListValue vs) = VList (map parseLiteral vs)"
| "parseLiteral (ObjectValue fs) =
     VMap (fold (\<lambda>(k, v) out. AList.update k v out) (map (\<lambda>(k, v). (k, parseLiteral v)) fs) [])"
| "parseLiteral OtherValue = VNil"

section \<open>Arguments\<close>

type_synonym args = "string \<rightharpoonup> goany"

text \<open>\<^verbatim>\<open>s, _ := args[k].(string)\<close> and \<^verbatim>\<open>m, _ := args[k].(map[string]any)\<close>\<close>

definition string_arg :: "args \<Rightarrow> string \<Rightarrow> string" where
  "string_arg args k = (case args k of Some (VString s) \<Rightarrow> s | _ \<Rightarrow> [])"

definition object_arg :: "args \<Rightarrow> string \<Rightarrow> goobj option" where
  "object_arg args k = (case args k of Some (VMap m) \<Rightarrow> Some m | _ \<Rightarrow> None)"

section \<open>Fields of a run\<close>

text \<open>\<^verbatim>\<open>sort.Slice\<close> by name; \<open>ord\<close> is the order in which the map is iterated.\<close>

definition sortStepStates :: "StepState list \<Rightarrow> StepState list" where
  "sortStepStates = sort_key SS_Name"

definition resolve_steps :: "(string list \<Rightarrow> string list) \<Rightarrow> WorkflowRun \<Rightarrow> StepState list" where
  "resolve_steps ord run =
     sortStepStates (map (\<lambda>k. the (step_of run k)) (ord (map fst (R_Steps run))))"

section \<open>Queries\<close>

definition resolve_tickets :: "Ticket list eng" where
  "resolve_tickets = Engine_ListTickets"

definition resolve_ticket :: "args \<Rightarrow> Ticket eng" where
  "resolve_ticket args = Engine_GetTicket (string_arg args ''id'')"

definition resolve_workflows :: "WorkflowDef list eng" where
  "resolve_workflows = Engine_ListWorkflows"

definition resolve_workflow :: "args \<Rightarrow> WorkflowDef eng" where
  "resolve_workflow args = Engine_GetWorkflow (string_arg args ''name'') (string_arg args ''version'')"

definition resolve_runs :: "WorkflowRun list eng" where
  "resolve_runs = bnd ListRuns (\<lambda>ids. collect_runs (\<lambda>r. r) ids [])"

definition resolve_run :: "args \<Rightarrow> WorkflowRun eng" where
  "resolve_run args = GetRun (string_arg args ''id'')"

definition resolve_events :: "args \<Rightarrow> Event list eng" where
  "resolve_events args = Events (string_arg args ''runId'')"

section \<open>Mutations\<close>

definition resolve_createTicket :: "nat \<Rightarrow> args \<Rightarrow> Ticket eng" where
  "resolve_createTicket n args =
     (let inp = (\<lambda>k. case object_arg args ''input'' of None \<Rightarrow> None | Some m \<Rightarrow> map_of m k)
      in bnd (CreateTicket n (string_arg inp ''workflow'') (string_arg inp ''version'')
                (string_arg inp ''title'') (object_arg inp ''fields''))
           (\<lambda>(t, run). ret t))"

definition resolve_approve :: "nat \<Rightarrow> args \<Rightarrow> bool eng" where
  "resolve_approve n args =
     bnd (Approve n (string_arg args ''runId'') (string_arg args ''step'') (string_arg args ''by'')
            (string_arg args ''comment'')) (\<lambda>_. ret True)"

definition resolve_reject :: "args \<Rightarrow> bool eng" where
  "resolve_reject args =
     bnd (Reject (string_arg args ''runId'') (string_arg args ''step'') (string_arg args ''by'')
            (string_arg args ''reason'')) (\<lambda>_. ret True)"

definition resolve_cancel :: "args \<Rightarrow> bool eng" where
  "resolve_cancel args =
     bnd (Cancel (string_arg args ''runId'') (string_arg args ''reason'')) (\<lambda>_. ret True)"

section \<open>Properties\<close>

text \<open>
  (C29) Both APIs list every run: in a reachable state whose cache keys are distinct, gRPC's ListRuns
  and GraphQL's runs answer with the derived state of every run of the log, once for each place the
  log lists it; none is skipped, although both skip a run that cannot be derived.
\<close>

theorem apis_list_every_run:
  assumes "reachable available n s" "keys_distinct (G_store s)"
    and "\<forall>k ks. mset (order (G_world s) k ks) = mset ks"
  shows "\<exists>ids t t'. mset ids = mset (Runs (G_log s)) \<and>
    (\<forall>i \<in> set ids. run_view s i \<noteq> None) \<and>
    Grpc_ListRuns s = (Ok (Inr (map (\<lambda>i. toProtoRun (the (run_view s i))) ids)), t) \<and>
    resolve_runs s = (Ok (map (\<lambda>i. the (run_view s i)) ids), t')"
proof -
  note s = reachable_sound [OF assms(1)]
  let ?s = "tick_of (tick_of s)"
  let ?ids = "order (G_world s) (Suc (G_ticks s)) (Runs (G_log s))"
  have ids: "mset ?ids = mset (Runs (G_log s))" using assms(3) by simp
  have listed: "run_view s i \<noteq> None" if "i \<in> set ?ids" for i
    using that sound_lists_derivable [OF s] mset_eq_setD [OF ids] by auto
  have run: "ListRuns s = (Ok ?ids, ?s)"
    by (simp add: ListRuns_def log_Runs_def in_map_order_def bnd_run reading_available
        sound_available [OF s] sample_def)
  have view: "run_view ?s i = run_view s i" for i
    by (simp add: run_view_def def_of_def workflow_def cong: list.case_cong option.case_cong sum.case_cong)
  have "sound ?s" using sound_cong [OF s] s sound_available [OF s] by simp
  moreover have "\<forall>i \<in> set ?ids. run_view ?s i \<noteq> None" unfolding view using listed by blast
  ultimately have all: "\<exists>t. collect_runs f ?ids [] ?s = (Ok (map (\<lambda>i. f (the (run_view s i))) ?ids), t)" for f :: "WorkflowRun \<Rightarrow> 'a"
    using collect_runs_all [of ?s ?ids f "[]"] assms(2) unfolding view by auto
  obtain t where t: "collect_runs toProtoRun ?ids [] ?s = (Ok (map (\<lambda>i. toProtoRun (the (run_view s i))) ?ids), t)"
    using all by blast
  obtain t' where t': "collect_runs (\<lambda>r. r) ?ids [] ?s = (Ok (map (\<lambda>i. the (run_view s i)) ?ids), t')"
    using all by blast
  have "Grpc_ListRuns s = (Ok (Inr (map (\<lambda>i. toProtoRun (the (run_view s i))) ?ids)), t)"
    using run t by (simp add: Grpc_ListRuns_def bnd_run attempt_run)
  moreover have "resolve_runs s = (Ok (map (\<lambda>i. the (run_view s i)) ?ids), t')"
    using run t' by (simp add: resolve_runs_def bnd_run)
  ultimately show ?thesis using ids listed by blast
qed

theorem apis_list_every_run_witness:
  "\<exists>run t. Grpc_ListRuns approval_demo = (Ok (Inr [toProtoRun run]), t) \<and>
     run_view approval_demo ''run_0'' = Some run"
proof -
  have "Runs (G_log approval_demo) = [''run_0'']" "G_world approval_demo = calm (\<lambda>_. 5)"
    by (simp_all add: Runs_def approval_demo_def demo_state_def)
  moreover have "\<forall>k ks. mset (order (calm (\<lambda>_. 5)) k ks) = mset ks" by (simp add: calm_def)
  ultimately obtain ids t where "mset ids = {#''run_0''#}" "\<forall>i \<in> set ids. run_view approval_demo i \<noteq> None"
      "Grpc_ListRuns approval_demo = (Ok (Inr (map (\<lambda>i. toProtoRun (the (run_view approval_demo i))) ids)), t)"
    using apis_list_every_run [OF reachable_approval_demo keys_distinct_demo] by auto
  moreover from this(1) have "ids = [''run_0'']" by simp
  ultimately show ?thesis by auto
qed

text \<open>
  The steps of a run are shown in an order that does not depend on the iteration of the map:
  sorted by name, each step of the replayed history exactly once, whatever order the map takes.
\<close>

lemma steps_shown_in_order:
  assumes "\<forall>ks. mset (ord ks) = mset ks"
  shows "map SS_Name (resolve_steps ord (applyAll (new_run r t) def es)) =
      sorted_list_of_set (fst ` set (R_Steps (applyAll (new_run r t) def es))) \<and>
    (\<forall>st \<in> set (resolve_steps ord (applyAll (new_run r t) def es)).
       step_of (applyAll (new_run r t) def es) (SS_Name st) = Some st)"
proof -
  define run where "run = applyAll (new_run r t) def es"
  let ?keys = "map fst (R_Steps run)"
  have ok: "run_ok def run" unfolding run_def by (rule run_ok_applyAll [OF run_ok_new])
  have perm: "mset (ord ?keys) = mset ?keys" using assms by blast
  from mset_eq_setD [OF this] mset_eq_imp_distinct_iff [OF this] ok
  have set: "set (ord ?keys) = set ?keys" and dist: "distinct (ord ?keys)"
    by (simp_all only: run_ok_def)
  have st: "step_of run k = Some (the (step_of run k)) \<and> SS_Name (the (step_of run k)) = k"
    if "k \<in> set ?keys" for k
  proof -
    from that obtain x where "step_of run k = Some x"
      unfolding step_of_def by (metis map_of_eq_None_iff option.exhaust set_map)
    with ok show ?thesis by (auto simp: run_ok_def)
  qed
  let ?xs = "map (\<lambda>k. the (step_of run k)) (ord ?keys)"
  have names: "map SS_Name ?xs = ord ?keys" unfolding map_map by (rule map_idI) (use st set in auto)
  have "sorted (map SS_Name (sort_key SS_Name ?xs))" by simp
  moreover have "mset (map SS_Name (sort_key SS_Name ?xs)) = mset (ord ?keys)"
    by (metis mset_map mset_sort names)
  ultimately have "map SS_Name (sort_key SS_Name ?xs) = sorted_list_of_set (set ?keys)"
    using dist set by (metis mset_eq_imp_distinct_iff mset_eq_setD sorted_list_of_set.idem_if_sorted_distinct)
  moreover have "step_of run (SS_Name x) = Some x" if "x \<in> set (sort_key SS_Name ?xs)" for x
  proof -
    from that obtain k where "k \<in> set ?keys" "x = the (step_of run k)" using set by auto
    with st [OF this(1)] show ?thesis by simp
  qed
  ultimately show ?thesis
    unfolding resolve_steps_def sortStepStates_def run_def [symmetric] by auto
qed

lemma steps_shown_in_order_example:
  "map SS_Name (resolve_steps rev (applyAll (new_run ''r'' ''t'') task_flow
     (demo_events 1 [StepStarted ''b'', StepStarted ''a'']))) = [''a'', ''b'']"
proof -
  have "fst ` set (R_Steps (applyAll (new_run ''r'' ''t'') task_flow
      (demo_events 1 [StepStarted ''b'', StepStarted ''a'']))) = {''a'', ''b''}"
    by (simp add: eval task_flow_def demo_events.simps insert_commute)
  moreover have "sorted_list_of_set {''a'', ''b''} = [''a'', ''b'']" by code_simp
  ultimately show ?thesis
    using steps_shown_in_order [of rev "''r''" "''t''" task_flow
        "demo_events 1 [StepStarted ''b'', StepStarted ''a'']"] by simp
qed

end
