(* ===== verification/Server.thy ===== *)
theory Server
  imports Loader Auth Graphql
begin

text \<open>
  The server program: how it starts (cmd/conduit-server/main.go) and how it answers HTTP requests
  (api/server.go). The GraphQL library is the argument \<open>execute\<close>, a program over the engine; the
  body of a request stands as what reading it and \<^verbatim>\<open>json.Unmarshal\<close> make of it. Sockets, logging and
  the building of the schema are not modelled; the path of a request is taken to be clean.
\<close>

section \<open>Starting\<close>

definition example_tasks :: "string list" where
  "example_tasks =
     [''open_request'', ''provision_resource'', ''send_notification'', ''record_rejection'',
      ''register_asset'', ''dispatch_asset'', ''remind_return'', ''mark_returned'', ''mark_failed'',
      ''triage_ticket'', ''assign_owner'', ''resolve_ticket'', ''escalate_ticket'', ''close_ticket'',
      ''create_employee_record'', ''provision_accounts'', ''ship_equipment'', ''escalate_onboarding'',
      ''send_welcome'']"

definition noop :: TaskHandler where
  "noop = (\<lambda>n run step flds. Inr (Some [(''step'', VString step), (''ok'', VBool True)]))"

definition registerExampleTasks :: "unit eng" where
  "registerExampleTasks = for_each example_tasks (\<lambda>key. RegisterTask key noop)"

text \<open>
  Opening a database and applying the schema to it; what the driver, the file system and the
  database answer are arguments. \<open>contents\<close> is what the event log and the store of a database hold.
\<close>

datatype connect_error = OpenPostgres string | ReadSchema string | ExecSchema string

definition applySchema :: "(string \<Rightarrow> string + string) \<Rightarrow> (string \<Rightarrow> string option) \<Rightarrow> connect_error option" where
  "applySchema readFile exec =
     (case readFile ''engine/schema.sql'' of
        Inl e \<Rightarrow> Some (ReadSchema e)
      | Inr schema \<Rightarrow> (case exec schema of Some e \<Rightarrow> Some (ExecSchema e) | None \<Rightarrow> None))"

definition connect ::
  "(string \<Rightarrow> string + 'db) \<Rightarrow> (string \<Rightarrow> string + string) \<Rightarrow> ('db \<Rightarrow> string \<Rightarrow> string option) \<Rightarrow>
   ('db \<Rightarrow> InMemoryEventLog \<times> InMemoryStore) \<Rightarrow> string \<Rightarrow>
   connect_error + InMemoryEventLog \<times> InMemoryStore" where
  "connect openDB readFile exec contents dsn =
     (case openDB dsn of
        Inl e \<Rightarrow> Inl (OpenPostgres e)
      | Inr db \<Rightarrow>
          (case applySchema readFile (exec db) of Some e \<Rightarrow> Inl e | None \<Rightarrow> Inr (contents db)))"

text \<open>The start up to the registration of the tasks; one constructor for each \<^verbatim>\<open>log.Fatalf\<close>.\<close>

datatype boot_error = NoDatabase connect_error | NoWorkflows loader_error | NotRegistered "unit res"

definition boot ::
  "(string \<Rightarrow> string) \<Rightarrow> (string \<Rightarrow> connect_error + InMemoryEventLog \<times> InMemoryStore) \<Rightarrow>
   (string \<Rightarrow> string + Y_Workflow) \<Rightarrow> (string \<Rightarrow> string + node) \<Rightarrow> World \<Rightarrow>
   boot_error + AuthConfig \<times> Engine" where
  "boot env con unmarshal tree world =
     (let workflowsDir = getenv env ''CONDUIT_WORKFLOWS_DIR'' ''engine/examples'';
          dsn = env ''DATABASE_URL''
      in case (if dsn \<noteq> [] then con dsn else Inr (NewInMemoryEventLog, NewInMemoryStore)) of
           Inl e \<Rightarrow> Inl (NoDatabase e)
         | Inr (evlog, tstore) \<Rightarrow>
             (case LoadDir unmarshal workflowsDir (tree workflowsDir) of
                Inl e \<Rightarrow> Inl (NoWorkflows e)
              | Inr registry \<Rightarrow>
                  (case RegisterAll registry (NewEngine evlog tstore 4 world) of
                     (Ok _, s) \<Rightarrow> Inr (server_auth env, snd (registerExampleTasks s))
                   | (r, s) \<Rightarrow> Inl (NotRegistered r))))"

text \<open>\<open>newSchema\<close> is the error, if any, with which the library refuses the schema.\<close>

record Server =
  SV_Engine :: Engine
  SV_Auth :: AuthConfig

definition NewServer :: "(Engine \<Rightarrow> string option) \<Rightarrow> Engine \<Rightarrow> AuthConfig \<Rightarrow> string + Server" where
  "NewServer newSchema e auth =
     (case newSchema e of Some err \<Rightarrow> Inl err | None \<Rightarrow> Inr \<lparr>SV_Engine = e, SV_Auth = auth\<rparr>)"

text \<open>The whole program: it ends with an error, or listens at an address with a server.\<close>

datatype start_error = NotBooted boot_error | NotBuilt string

definition main ::
  "(string \<Rightarrow> string) \<Rightarrow> (string \<Rightarrow> connect_error + InMemoryEventLog \<times> InMemoryStore) \<Rightarrow>
   (string \<Rightarrow> string + Y_Workflow) \<Rightarrow> (string \<Rightarrow> string + node) \<Rightarrow> (Engine \<Rightarrow> string option) \<Rightarrow> World \<Rightarrow>
   start_error + string \<times> Server" where
  "main env con unmarshal tree newSchema world =
     (case boot env con unmarshal tree world of
        Inl err \<Rightarrow> Inl (NotBooted err)
      | Inr (auth, e) \<Rightarrow>
          (case NewServer newSchema e auth of
             Inl err \<Rightarrow> Inl (NotBuilt err)
           | Inr srv \<Rightarrow> Inr (getenv env ''CONDUIT_ADDR'' '':8080'', srv)))"

section \<open>Answering\<close>

record graphqlRequest =
  GQ_Query :: string
  GQ_Variables :: "goobj option"
  GQ_OperationName :: string

datatype body = Unreadable | NotJson | Json graphqlRequest

record Request =
  HQ_Method :: string
  HQ_Path :: string
  HQ_Header :: headers
  HQ_QueryParam :: string
  HQ_Body :: body

datatype 'r reply =
    Health
  | PageNotFound
  | MethodNotAllowed
  | BadRequest string
  | Executed 'r

definition handleGraphQL ::
  "(string \<Rightarrow> goobj option \<Rightarrow> string \<Rightarrow> 'r eng) \<Rightarrow> Request \<Rightarrow> 'r reply eng" where
  "handleGraphQL execute r =
     (if HQ_Method r \<noteq> ''POST'' then ret MethodNotAllowed
      else case HQ_Body r of
        Unreadable \<Rightarrow> ret (BadRequest ''cannot read body'')
      | NotJson \<Rightarrow> ret (BadRequest ''invalid JSON body'')
      | Json req \<Rightarrow>
          (let query = (if GQ_Query req = [] \<and> HQ_QueryParam r \<noteq> [] then HQ_QueryParam r else GQ_Query req)
           in bnd (execute query (GQ_Variables req) (GQ_OperationName req)) (\<lambda>x. ret (Executed x))))"

definition routes ::
  "(string \<Rightarrow> goobj option \<Rightarrow> string \<Rightarrow> 'r eng) \<Rightarrow> Request \<Rightarrow> 'r reply eng" where
  "routes execute r =
     (if HQ_Path r = ''/health'' then ret Health
      else if HQ_Path r = ''/graphql'' then handleGraphQL execute r
      else ret PageNotFound)"

definition Handler ::
  "AuthConfig \<Rightarrow> (string \<Rightarrow> goobj option \<Rightarrow> string \<Rightarrow> 'r eng) \<Rightarrow> Request \<Rightarrow> Engine \<Rightarrow>
   'r reply res answer \<times> Engine" where
  "Handler c execute r = Middleware c (\<lambda>header. routes execute r) (HQ_Header r)"

section \<open>What a started server holds\<close>

lemma register_tasks:
  "for_each ks (\<lambda>k. RegisterTask k h) s =
    (Ok (), s\<lparr>G_handlers := (\<lambda>k. if k \<in> set ks then Some h else G_handlers s k)\<rparr>)"
proof (induction ks arbitrary: s)
  case (Cons k ks)
  have "RegisterTask k h s = (Ok (), s\<lparr>G_handlers := (G_handlers s)(k \<mapsto> h)\<rparr>)"
    by (simp add: RegisterTask_def)
  then show ?case by (simp add: bnd_run Cons.IH) (auto simp: fun_eq_iff)
qed simp

lemma boot_registers:
  assumes "(if env ''DATABASE_URL'' = [] then Inr (NewInMemoryEventLog, NewInMemoryStore)
       else con (env ''DATABASE_URL'')) = Inr (evlog, tstore)" "dir = getenv env ''CONDUIT_WORKFLOWS_DIR'' ''engine/examples''"
    and "tree dir = Inr d" "listable d"
    and "\<forall>f \<in> set (files dir d). \<exists>w. holds unmarshal f = Some w \<and> startable w"
    and "distinct (map (\<lambda>f. key_of (the (holds unmarshal f))) (files dir d))"
    and "available world" "\<forall>k ks. set (order world k ks) = set ks"
  obtains r s where "RegisterAll r (NewEngine evlog tstore 4 world) = (Ok (), s)"
    "snd ` set r = (\<lambda>f. the (holds unmarshal f)) ` set (files dir d)"
    "boot env con unmarshal tree world = Inr (server_auth env,
       s\<lparr>G_handlers := (\<lambda>k. if k \<in> set example_tasks then Some noop else G_handlers s k)\<rparr>)"
    "\<forall>f \<in> set (files dir d). \<exists>w. holds unmarshal f = Some w \<and> deployed s w"
proof -
  let ?e = "NewEngine evlog tstore 4 world"
  have w: "G_world ?e = world" by (simp add: NewEngine_def)
  obtain r s where r: "LoadDir unmarshal dir (Inr d) = Inr r" "RegisterAll r ?e = (Ok (), s)"
      "snd ` set r = (\<lambda>f. the (holds unmarshal f)) ` set (files dir d)"
      "\<forall>f \<in> set (files dir d). \<exists>w. holds unmarshal f = Some w \<and> deployed s w"
    using files_are_deployed [OF assms(4-6), of ?e] assms(7,8) unfolding w by blast
  let ?t = "s\<lparr>G_handlers := (\<lambda>k. if k \<in> set example_tasks then Some noop else G_handlers s k)\<rparr>"
  have "boot env con unmarshal tree world = Inr (server_auth env, ?t)"
    using r(1,2) assms(1-3) by (auto simp: boot_def registerExampleTasks_def register_tasks split: if_splits)
  with r show ?thesis using that by blast
qed

text \<open>
  (C26) A server starts with every workflow of its directory: when every workflow file can be read
  and compiles to a definition that starts at one of its steps, and no two define the same name and
  version, the program boots, on memory or on a database that opens, and listens at the configured address when the schema is accepted;
  the store and the cache of its engine give every file's definition under its name and version, and
  every task of the example workflows has a handler.
\<close>

theorem boot_serves_workflows:
  assumes "(if env ''DATABASE_URL'' = [] then Inr (NewInMemoryEventLog, NewInMemoryStore)
       else con (env ''DATABASE_URL'')) = Inr (evlog, tstore)" "dir = getenv env ''CONDUIT_WORKFLOWS_DIR'' ''engine/examples''"
    and "tree dir = Inr d" "listable d"
    and "\<forall>f \<in> set (files dir d). \<exists>w. holds unmarshal f = Some w \<and> startable w"
    and "distinct (map (\<lambda>f. key_of (the (holds unmarshal f))) (files dir d))"
    and "available world" "\<forall>k ks. set (order world k ks) = set ks"
  shows "\<exists>s. boot env con unmarshal tree world = Inr (server_auth env, s) \<and>
    (newSchema s = None \<longrightarrow> main env con unmarshal tree newSchema world =
       Inr (getenv env ''CONDUIT_ADDR'' '':8080'', \<lparr>SV_Engine = s, SV_Auth = server_auth env\<rparr>)) \<and>
    (\<forall>f \<in> set (files dir d). \<exists>w. holds unmarshal f = Some w \<and>
       GetWorkflow (G_store s) (W_Name w) (W_Version w) = Inr w \<and>
       workflow s (W_Name w) (W_Version w) = Some w) \<and>
    (\<forall>k \<in> set example_tasks. G_handlers s k = Some noop)"
proof -
  obtain r s where "RegisterAll r (NewEngine evlog tstore 4 world) = (Ok (), s)"
    and b: "boot env con unmarshal tree world = Inr (server_auth env,
       s\<lparr>G_handlers := (\<lambda>k. if k \<in> set example_tasks then Some noop else G_handlers s k)\<rparr>)"
    and r: "\<forall>f \<in> set (files dir d). \<exists>w. holds unmarshal f = Some w \<and> deployed s w"
    by (rule boot_registers [of env con evlog tstore dir tree d unmarshal world]) (use assms in blast)+
  let ?t = "s\<lparr>G_handlers := (\<lambda>k. if k \<in> set example_tasks then Some noop else G_handlers s k)\<rparr>"
  have "newSchema ?t = None \<longrightarrow> main env con unmarshal tree newSchema world =
      Inr (getenv env ''CONDUIT_ADDR'' '':8080'', \<lparr>SV_Engine = ?t, SV_Auth = server_auth env\<rparr>)"
    unfolding main_def b by (simp add: NewServer_def)
  moreover have "\<forall>f \<in> set (files dir d). \<exists>w. holds unmarshal f = Some w \<and>
       GetWorkflow (G_store ?t) (W_Name w) (W_Version w) = Inr w \<and>
       workflow ?t (W_Name w) (W_Version w) = Some w"
    using r by (simp add: deployed_def workflow_def)
  ultimately show ?thesis using b by fastforce
qed

theorem boot_serves_workflows_witness:
  "\<exists>s. boot (\<lambda>_. []) (\<lambda>_. Inl (OpenPostgres ''none'')) demo_unmarshal (\<lambda>_. Inr demo_tree) (calm (\<lambda>_. 5)) =
      Inr (server_auth (\<lambda>_. []), s) \<and>
    GetWorkflow (G_store s) (W_Name (meaning y_demo)) (W_Version (meaning y_demo)) = Inr (meaning y_demo)"
proof -
  have "listable demo_tree" by (simp add: demo_tree_def)
  moreover have "available (calm (\<lambda>_. 5))" "\<forall>k ks. set (order (calm (\<lambda>_. 5)) k ks) = set ks"
    by (simp_all add: calm_def available_def)
  ultimately show ?thesis
    using boot_serves_workflows [of "\<lambda>_. []" "\<lambda>_. Inl (OpenPostgres ''none'')" NewInMemoryEventLog
        NewInMemoryStore "''engine/examples''" "\<lambda>_. Inr demo_tree" demo_tree demo_unmarshal
        "calm (\<lambda>_. 5)" "\<lambda>_. None"]
    by (auto simp: files_demo holds_demo startable_demo getenv_def)
qed

end
