(* ===== verification/Examples.thy ===== *)
theory Examples
  imports Server Engine_Termination
begin

text \<open>
  The workflow templates (engine/examples): the four functions that compile an embedded YAML file
  and panic when it does not compile, the texts of the four files, and the values that \<^verbatim>\<open>yaml.Unmarshal\<close>
  gives for them. That it gives these values is the hypothesis \<open>decodes\<close>; what they compile to,
  and that the engine and the example server can run it, is proved.
\<close>

section \<open>The functions\<close>

text \<open>The contents that \<^verbatim>\<open>go:embed\<close> puts into the program: the four files, line by line.\<close>

definition file_text :: "string list \<Rightarrow> string" where
  "file_text ls = concat (map (\<lambda>l. l @ [CHR 0x0A]) ls)"

definition helpdeskYAML :: string where
  "helpdeskYAML = file_text
    [''name: it-helpdesk'',
     ''version: \"1.0.0\"'',
     ''description: IT helpdesk ticket with triage, assignment, SLA escalation and resolution.'',
     ''initial: triage'',
     [],
     ''slas:'',
     ''  - name: response_sla'',
     ''    duration: 1h'',
     ''    on_breach: escalate'',
     [],
     ''routing:'',
     ''  - if: { category: hardware }'',
     ''    queue: it-hardware'',
     ''    priority: high'',
     ''  - if: { category: access }'',
     ''    queue: it-security'',
     ''    priority: high'',
     ''  - if: { category: email }'',
     ''    queue: it-desk'',
     ''  - if: { category: software }'',
     ''    queue: it-desk'',
     [],
     ''steps:'',
     ''  - name: triage'',
     ''    kind: task'',
     ''    task: triage_ticket'',
     ''    next: assign'',
     ''    on_error: failed'',
     [],
     ''  - name: assign'',
     ''    kind: task'',
     ''    task: assign_owner'',
     ''    next: resolve'',
     ''    on_error: failed'',
     [],
     ''  - name: resolve'',
     ''    kind: task'',
     ''    task: resolve_ticket'',
     ''    retries: 3'',
     ''    retry_delay: 0s'',
     ''    next: close'',
     ''    on_error: failed'',
     [],
     ''  - name: escalate'',
     ''    kind: task'',
     ''    task: escalate_ticket'',
     ''    next: resolve'',
     [],
     ''  - name: close'',
     ''    kind: task'',
     ''    task: close_ticket'',
     [],
     ''  - name: failed'',
     ''    kind: task'',
     ''    task: mark_failed'']"

definition approvalChainYAML :: string where
  "approvalChainYAML = file_text
    [''name: generic-approval-chain'',
     ''version: \"1.0.0\"'',
     ''description: Generic multi-step human approval chain with SLA escalation.'',
     ''initial: request'',
     [],
     ''steps:'',
     ''  - name: request'',
     ''    kind: task'',
     ''    task: open_request'',
     ''    next: review'',
     ''    on_error: rejected'',
     [],
     ''  - name: review'',
     ''    kind: approval'',
     ''    approval:'',
     ''      chain:'',
     ''        - role: manager'',
     ''        - role: director'',
     ''        - role: finance'',
     ''    next: provision'',
     ''    on_error: rejected'',
     [],
     ''  - name: provision'',
     ''    kind: task'',
     ''    task: provision_resource'',
     ''    next: notify'',
     ''    on_error: rejected'',
     [],
     ''  - name: notify'',
     ''    kind: task'',
     ''    task: send_notification'',
     [],
     ''  - name: rejected'',
     ''    kind: task'',
     ''    task: record_rejection'']"

definition hrOnboardingYAML :: string where
  "hrOnboardingYAML = file_text
    [''name: hr-onboarding'',
     ''version: \"1.0.0\"'',
     ''description: HR employee onboarding with approvals, equipment provisioning and a waiting period.'',
     ''initial: create_record'',
     [],
     ''slas:'',
     ''  - name: start_date_sla'',
     ''    duration: 72h'',
     ''    on_breach: escalate_onboarding'',
     [],
     ''steps:'',
     ''  - name: create_record'',
     ''    kind: task'',
     ''    task: create_employee_record'',
     ''    next: manager_approval'',
     ''    on_error: failed'',
     [],
     ''  - name: manager_approval'',
     ''    kind: approval'',
     ''    approval:'',
     ''      chain:'',
     ''        - role: hiring_manager'',
     ''        - role: hr_bp'',
     ''    next: provision_accounts'',
     ''    on_error: failed'',
     [],
     ''  - name: provision_accounts'',
     ''    kind: task'',
     ''    task: provision_accounts'',
     ''    next: equipment_wait'',
     ''    on_error: failed'',
     [],
     ''  - name: equipment_wait'',
     ''    kind: delay'',
     ''    delay: 24h'',
     ''    next: ship_equipment'',
     [],
     ''  - name: ship_equipment'',
     ''    kind: task'',
     ''    task: ship_equipment'',
     ''    next: welcome'',
     ''    on_error: failed'',
     [],
     ''  - name: escalate_onboarding'',
     ''    kind: task'',
     ''    task: escalate_onboarding'',
     [],
     ''  - name: welcome'',
     ''    kind: task'',
     ''    task: send_welcome'',
     [],
     ''  - name: failed'',
     ''    kind: task'',
     ''    task: mark_failed'']"

definition assetTrackingYAML :: string where
  "assetTrackingYAML = file_text
    [''name: asset-tracking'',
     ''version: \"1.0.0\"'',
     ''description: Asset tracking with check-in/check-out approval and return reminders.'',
     ''initial: register'',
     [],
     ''steps:'',
     ''  - name: register'',
     ''    kind: task'',
     ''    task: register_asset'',
     ''    next: checkout_approval'',
     ''    on_error: failed'',
     [],
     ''  - name: checkout_approval'',
     ''    kind: approval'',
     ''    approval:'',
     ''      chain:'',
     ''        - role: asset_owner'',
     ''        - role: security'',
     ''    next: dispatch'',
     ''    on_error: returned'',
     [],
     ''  - name: dispatch'',
     ''    kind: task'',
     ''    task: dispatch_asset'',
     ''    next: return_wait'',
     ''    on_error: failed'',
     [],
     ''  - name: return_wait'',
     ''    kind: delay'',
     ''    delay: 48h'',
     ''    next: remind_return'',
     [],
     ''  - name: remind_return'',
     ''    kind: task'',
     ''    task: remind_return'',
     [],
     ''  - name: returned'',
     ''    kind: task'',
     ''    task: mark_returned'',
     [],
     ''  - name: failed'',
     ''    kind: task'',
     ''    task: mark_failed'']"

text \<open>\<open>Inl\<close> is the panic, with the error it prints.\<close>

definition must :: "(string \<Rightarrow> string + Y_Workflow) \<Rightarrow> string \<Rightarrow> dsl_error + WorkflowDef" where
  "must unmarshal b = (case ParseYAML unmarshal b of Inl e \<Rightarrow> Inl e | Inr w \<Rightarrow> Inr w)"

definition Helpdesk :: "(string \<Rightarrow> string + Y_Workflow) \<Rightarrow> dsl_error + WorkflowDef" where
  "Helpdesk unmarshal = must unmarshal helpdeskYAML"

definition ApprovalChain :: "(string \<Rightarrow> string + Y_Workflow) \<Rightarrow> dsl_error + WorkflowDef" where
  "ApprovalChain unmarshal = must unmarshal approvalChainYAML"

definition HROnboarding :: "(string \<Rightarrow> string + Y_Workflow) \<Rightarrow> dsl_error + WorkflowDef" where
  "HROnboarding unmarshal = must unmarshal hrOnboardingYAML"

definition AssetTracking :: "(string \<Rightarrow> string + Y_Workflow) \<Rightarrow> dsl_error + WorkflowDef" where
  "AssetTracking unmarshal = must unmarshal assetTrackingYAML"

section \<open>What the files decode to\<close>

definition y_task :: "string \<Rightarrow> string \<Rightarrow> string \<Rightarrow> string \<Rightarrow> Y_Step" where
  "y_task name task nxt err = \<lparr>YS_Name = name, YS_Kind = ''task'', YS_Task = task, YS_Next = nxt,
     YS_OnError = err, YS_AssignTo = [], YS_Approval = None, YS_Delay = [], YS_Retries = 0, YS_Retry = []\<rparr>"

definition y_approval :: "string \<Rightarrow> string list \<Rightarrow> string \<Rightarrow> string \<Rightarrow> Y_Step" where
  "y_approval name roles nxt err = \<lparr>YS_Name = name, YS_Kind = ''approval'', YS_Task = [], YS_Next = nxt,
     YS_OnError = err, YS_AssignTo = [],
     YS_Approval = Some \<lparr>YC_Chain = map (\<lambda>r. \<lparr>YA_Role = r, YA_User = []\<rparr>) roles\<rparr>,
     YS_Delay = [], YS_Retries = 0, YS_Retry = []\<rparr>"

definition y_delay :: "string \<Rightarrow> string \<Rightarrow> string \<Rightarrow> Y_Step" where
  "y_delay name d nxt = \<lparr>YS_Name = name, YS_Kind = ''delay'', YS_Task = [], YS_Next = nxt,
     YS_OnError = [], YS_AssignTo = [], YS_Approval = None, YS_Delay = d, YS_Retries = 0, YS_Retry = []\<rparr>"

definition y_route :: "string \<Rightarrow> string \<Rightarrow> string \<Rightarrow> Y_RoutingRule" where
  "y_route category queue priority = \<lparr>YR_If = [(''category'', VString category)], YR_Queue = queue,
     YR_Assignee = [], YR_Priority = priority\<rparr>"

definition y_helpdesk :: Y_Workflow where
  "y_helpdesk = \<lparr>YW_Name = ''it-helpdesk'', YW_Version = ''1.0.0'',
     YW_Description = ''IT helpdesk ticket with triage, assignment, SLA escalation and resolution.'',
     YW_Initial = ''triage'',
     YW_Steps = [
       y_task ''triage'' ''triage_ticket'' ''assign'' ''failed'',
       y_task ''assign'' ''assign_owner'' ''resolve'' ''failed'',
       (y_task ''resolve'' ''resolve_ticket'' ''close'' ''failed'')\<lparr>YS_Retries := 3, YS_Retry := ''0s''\<rparr>,
       y_task ''escalate'' ''escalate_ticket'' ''resolve'' [],
       y_task ''close'' ''close_ticket'' [] [],
       y_task ''failed'' ''mark_failed'' [] []],
     YW_SLAs = [\<lparr>YL_Name = ''response_sla'', YL_Duration = ''1h'', YL_OnBreach = ''escalate''\<rparr>],
     YW_Routing = [y_route ''hardware'' ''it-hardware'' ''high'', y_route ''access'' ''it-security'' ''high'',
       y_route ''email'' ''it-desk'' [], y_route ''software'' ''it-desk'' []]\<rparr>"

definition y_approval_chain :: Y_Workflow where
  "y_approval_chain = \<lparr>YW_Name = ''generic-approval-chain'', YW_Version = ''1.0.0'',
     YW_Description = ''Generic multi-step human approval chain with SLA escalation.'',
     YW_Initial = ''request'',
     YW_Steps = [
       y_task ''request'' ''open_request'' ''review'' ''rejected'',
       y_approval ''review'' [''manager'', ''director'', ''finance''] ''provision'' ''rejected'',
       y_task ''provision'' ''provision_resource'' ''notify'' ''rejected'',
       y_task ''notify'' ''send_notification'' [] [],
       y_task ''rejected'' ''record_rejection'' [] []],
     YW_SLAs = [], YW_Routing = []\<rparr>"

definition y_hr_onboarding :: Y_Workflow where
  "y_hr_onboarding = \<lparr>YW_Name = ''hr-onboarding'', YW_Version = ''1.0.0'',
     YW_Description = ''HR employee onboarding with approvals, equipment provisioning and a waiting period.'',
     YW_Initial = ''create_record'',
     YW_Steps = [
       y_task ''create_record'' ''create_employee_record'' ''manager_approval'' ''failed'',
       y_approval ''manager_approval'' [''hiring_manager'', ''hr_bp''] ''provision_accounts'' ''failed'',
       y_task ''provision_accounts'' ''provision_accounts'' ''equipment_wait'' ''failed'',
       y_delay ''equipment_wait'' ''24h'' ''ship_equipment'',
       y_task ''ship_equipment'' ''ship_equipment'' ''welcome'' ''failed'',
       y_task ''escalate_onboarding'' ''escalate_onboarding'' [] [],
       y_task ''welcome'' ''send_welcome'' [] [],
       y_task ''failed'' ''mark_failed'' [] []],
     YW_SLAs = [\<lparr>YL_Name = ''start_date_sla'', YL_Duration = ''72h'', YL_OnBreach = ''escalate_onboarding''\<rparr>],
     YW_Routing = []\<rparr>"

definition y_asset_tracking :: Y_Workflow where
  "y_asset_tracking = \<lparr>YW_Name = ''asset-tracking'', YW_Version = ''1.0.0'',
     YW_Description = ''Asset tracking with check-in/check-out approval and return reminders.'',
     YW_Initial = ''register'',
     YW_Steps = [
       y_task ''register'' ''register_asset'' ''checkout_approval'' ''failed'',
       y_approval ''checkout_approval'' [''asset_owner'', ''security''] ''dispatch'' ''returned'',
       y_task ''dispatch'' ''dispatch_asset'' ''return_wait'' ''failed'',
       y_delay ''return_wait'' ''48h'' ''remind_return'',
       y_task ''remind_return'' ''remind_return'' [] [],
       y_task ''returned'' ''mark_returned'' [] [],
       y_task ''failed'' ''mark_failed'' [] []],
     YW_SLAs = [], YW_Routing = []\<rparr>"

definition decodes :: "(string \<Rightarrow> string + Y_Workflow) \<Rightarrow> bool" where
  "decodes unmarshal \<longleftrightarrow> unmarshal helpdeskYAML = Inr y_helpdesk \<and>
     unmarshal approvalChainYAML = Inr y_approval_chain \<and>
     unmarshal hrOnboardingYAML = Inr y_hr_onboarding \<and>
     unmarshal assetTrackingYAML = Inr y_asset_tracking"

section \<open>What they compile to\<close>

lemma spelled_one: "unitMap u \<noteq> None \<Longrightarrow> n * the (unitMap u) < 2 ^ 63 \<Longrightarrow>
    ParseDuration (nat_digits n @ u) = Inr (int (n * the (unitMap u)))"
  using ParseDuration_spelled [of "[(n, u)]"] by (auto simp: part_value_def)

lemma example_durations:
  "ParseDuration ''0s'' = Inr 0" "ParseDuration ''1h'' = Inr 3600000000000"
  "ParseDuration ''24h'' = Inr 86400000000000" "ParseDuration ''48h'' = Inr 172800000000000"
  "ParseDuration ''72h'' = Inr 259200000000000"
proof -
  have d: "digit 0 = CHR ''0''" "digit 1 = CHR ''1''" "digit 2 = CHR ''2''" "digit 4 = CHR ''4''"
    "digit 7 = CHR ''7''" "digit 8 = CHR ''8''" by code_simp+
  show "ParseDuration ''0s'' = Inr 0" "ParseDuration ''1h'' = Inr 3600000000000"
    "ParseDuration ''24h'' = Inr 86400000000000" "ParseDuration ''48h'' = Inr 172800000000000"
    "ParseDuration ''72h'' = Inr 259200000000000"
    using spelled_one [of "''s''" 0] spelled_one [of "''h''" 1] spelled_one [of "''h''" 24]
      spelled_one [of "''h''" 48] spelled_one [of "''h''" 72]
    by (simp_all add: nat_digits.simps d d(2) [simplified] unitMap_def)
qed

lemma example_acceptable:
  "acceptable y_helpdesk" "acceptable y_approval_chain" "acceptable y_hr_onboarding" "acceptable y_asset_tracking"
  by (simp_all add: acceptable_def step_acceptable_def names_step_def example_durations y_task_def y_approval_def
      y_delay_def y_helpdesk_def y_approval_chain_def y_hr_onboarding_def y_asset_tracking_def)

lemma must_decoded: "unmarshal b = Inr w \<Longrightarrow> acceptable w \<Longrightarrow> must unmarshal b = Inr (meaning w)"
  using Compile_iff [of w "meaning w"] by (simp add: must_def ParseYAML_def)

lemma templates_compile:
  assumes "decodes unmarshal"
  shows "Helpdesk unmarshal = Inr (meaning y_helpdesk)"
    "ApprovalChain unmarshal = Inr (meaning y_approval_chain)"
    "HROnboarding unmarshal = Inr (meaning y_hr_onboarding)"
    "AssetTracking unmarshal = Inr (meaning y_asset_tracking)"
  using assms example_acceptable must_decoded
  by (simp_all add: decodes_def Helpdesk_def ApprovalChain_def HROnboarding_def AssetTracking_def)

section \<open>Running them\<close>

text \<open>The steps a run can go on with after a step, and whether a definition leads back to a step.\<close>

definition flow_edges :: "WorkflowDef \<Rightarrow> (string \<times> string) set" where
  "flow_edges def = {(SD_Name sd, n) | sd n. sd \<in> set (W_Steps def) \<and> n \<noteq> [] \<and> (n = SD_Next sd \<or> n = SD_OnError sd)}"

text \<open>Every step comes after those that lead to it in the order \<open>ns\<close>.\<close>

definition topological :: "string list \<Rightarrow> WorkflowDef \<Rightarrow> bool" where
  "topological ns def \<longleftrightarrow> (\<forall>sd \<in> set (W_Steps def). \<forall>n \<in> {SD_Next sd, SD_OnError sd} - {[]}.
     length (takeWhile (\<lambda>x. x \<noteq> SD_Name sd) ns) < length (takeWhile (\<lambda>x. x \<noteq> n) ns))"

lemma topological_acyclic:
  assumes "topological ns def"
  shows "acyclic (flow_edges def)"
proof (rule acyclic_subset)
  let ?f = "\<lambda>x. length (takeWhile (\<lambda>y. y \<noteq> x) ns)"
  show "acyclic (measure ?f)" by (rule wf_acyclic) simp
  show "flow_edges def \<subseteq> measure ?f"
    using assms by (auto simp: flow_edges_def topological_def)
qed

text \<open>
  What the engine and the example server need of a definition: it can be registered; every edge,
  escalations included, leads to a step that can be scheduled; no edges lead round; every task is one
  that the example server binds; and it has at most nine steps and SLAs and no delay under a day.
\<close>

definition day :: duration where
  "day = 86400000000000"

definition serviceable :: "WorkflowDef \<Rightarrow> bool" where
  "serviceable def \<longleftrightarrow> startable def \<and> can_follow def (W_Initial def) \<and> (\<forall>n. edge_to def n \<longrightarrow> can_follow def n) \<and>
     acyclic (flow_edges def) \<and>
     (\<forall>sd \<in> set (W_Steps def). SD_Kind sd = KindTask \<longrightarrow> SD_Task sd \<in> set example_tasks) \<and>
     length (W_Steps def) + length (W_SLAs def) < 10 \<and>
     (\<forall>sd \<in> set (W_Steps def). \<forall>d. SD_Delay sd = Some d \<longrightarrow> day \<le> DD_Duration d)"

lemma serviceableI:
  assumes "acceptable w" "YW_Initial w \<in> YS_Name ` set (YW_Steps w)" "topological ns (meaning w)"
    and "\<forall>s \<in> set (YW_Steps w). YS_Kind s = ''task'' \<longrightarrow> YS_Task s \<in> set example_tasks"
    and "\<forall>s \<in> set (YW_Steps w). YS_Kind s = ''delay'' \<longrightarrow> day \<le> projr (ParseDuration (YS_Delay s))"
    and "\<forall>s \<in> set (YW_Steps w). YS_Kind s \<noteq> []"
    and "length (YW_Steps w) + length (YW_SLAs w) < 10"
  shows "serviceable (meaning w)"
proof -
  have c: "Compile w = Inr (meaning w)" using assms(1) by (simp add: Compile_iff)
  have "YW_Initial w \<noteq> []" using assms(1,2) by (auto simp: acceptable_def step_acceptable_def)
  then have i: "W_Initial (meaning w) = YW_Initial w" by (simp add: meaning_def)
  have f: "can_follow (meaning w) (YW_Initial w)"
    using acceptable_can_follow [OF assms(1)] assms(2) by (simp add: names_step_def)
  have "startable (meaning w)"
    using assms(1) f \<open>YW_Initial w \<noteq> []\<close>
    by (auto simp: startable_def i can_follow_def acceptable_def meaning_def)
  moreover have "\<forall>sd \<in> set (W_Steps (meaning w)). SD_Kind sd = KindTask \<longrightarrow> SD_Task sd \<in> set example_tasks"
    using assms(4,6) assms(1) by (auto simp: meaning_def step_meaning_def work_step_def delayed_step_def
        acceptable_def step_acceptable_def)
  moreover have "\<forall>sd \<in> set (W_Steps (meaning w)). \<forall>d. SD_Delay sd = Some d \<longrightarrow> day \<le> DD_Duration d"
    using assms(5) by (auto simp: meaning_def step_meaning_def work_step_def delayed_step_def)
  ultimately show ?thesis
    unfolding serviceable_def using Compile_edges [OF c] topological_acyclic [OF assms(3)] assms(7) f i
    by (simp add: meaning_def)
qed

lemmas template_defs = y_task_def y_approval_def y_delay_def y_helpdesk_def y_approval_chain_def
  y_hr_onboarding_def y_asset_tracking_def

lemma templates_serviceable:
  "serviceable (meaning y_helpdesk)" "serviceable (meaning y_approval_chain)"
  "serviceable (meaning y_hr_onboarding)" "serviceable (meaning y_asset_tracking)"
proof -
  show "serviceable (meaning y_helpdesk)"
    by (rule serviceableI [OF example_acceptable(1), of "[''triage'', ''assign'', ''escalate'', ''resolve'', ''close'', ''failed'']"])
       (auto simp: template_defs topological_def meaning_def example_tasks_def)
  show "serviceable (meaning y_approval_chain)"
    by (rule serviceableI [OF example_acceptable(2), of "[''request'', ''review'', ''provision'', ''notify'', ''rejected'']"])
       (auto simp: template_defs topological_def meaning_def example_tasks_def)
  show "serviceable (meaning y_hr_onboarding)"
    by (rule serviceableI [OF example_acceptable(3), of "[''create_record'', ''manager_approval'', ''provision_accounts'',
          ''equipment_wait'', ''ship_equipment'', ''welcome'', ''escalate_onboarding'', ''failed'']"])
       (auto simp: template_defs topological_def meaning_def example_tasks_def example_durations day_def)
  show "serviceable (meaning y_asset_tracking)"
    by (rule serviceableI [OF example_acceptable(4), of "[''register'', ''checkout_approval'', ''dispatch'', ''return_wait'',
          ''remind_return'', ''returned'', ''failed'']"])
       (auto simp: template_defs topological_def meaning_def example_tasks_def example_durations day_def)
qed

lemma serviceable_big_enough:
  assumes "serviceable def" "\<forall>k. 0 < clock w k \<and> clock w k < T \<and> T \<le> clock w k + day"
  shows "big_enough 10 T w def"
proof -
  have "T \<le> clock w k + DD_Duration d" if "sd \<in> set (W_Steps def)" "SD_Delay sd = Some d" for k sd d
  proof -
    have "day \<le> DD_Duration d" using assms(1) that by (auto simp: serviceable_def)
    then show ?thesis using assms(2) by (meson add_left_mono order_trans)
  qed
  then show ?thesis using assms by (auto simp: big_enough_def steady_def serviceable_def)
qed

section \<open>The property\<close>

text \<open>
  (C27) The templates work: when the embedded files are decoded as they are written, none of the four
  functions panics, and each gives a definition that can be registered, whose every next, on_error
  and escalation edge leads to a step that can be scheduled, whose edges never lead round, and whose
  every task the example server binds. Dispatching any run of it, whatever its history, nests less
  than ten deep, provided the clock shows times within one day during the call.
\<close>

theorem templates_work:
  assumes "decodes unmarshal" "f \<in> {Helpdesk, ApprovalChain, HROnboarding, AssetTracking}"
  shows "\<exists>def. f unmarshal = Inr def \<and> startable def \<and> (\<forall>n. edge_to def n \<longrightarrow> can_follow def n) \<and>
    acyclic (flow_edges def) \<and>
    (\<forall>sd \<in> set (W_Steps def). SD_Kind sd = KindTask \<longrightarrow> SD_Task sd \<in> set example_tasks) \<and>
    (\<forall>s r run T. live s r run def \<and>
       (\<forall>k. 0 < clock (G_world s) k \<and> clock (G_world s) k < T \<and> T \<le> clock (G_world s) k + day) \<longrightarrow>
       fst (dispatch 10 run def s) \<noteq> Crash OutOfFuel)"
proof -
  obtain def where "f unmarshal = Inr def" "serviceable def"
    using assms(2) templates_compile [OF assms(1)] templates_serviceable by auto
  moreover have "fst (dispatch 10 run def s) \<noteq> Crash OutOfFuel" if "live s r run def"
      "\<forall>k. 0 < clock (G_world s) k \<and> clock (G_world s) k < T \<and> T \<le> clock (G_world s) k + day" for s r run T
    using dispatch_fits [OF that(1) serviceable_big_enough [OF \<open>serviceable def\<close> that(2)]] .
  ultimately show ?thesis unfolding serviceable_def by blast
qed

text \<open>A decoder that reads the four files as they are written, and no other text.\<close>

definition demo_decode :: "string \<Rightarrow> string + Y_Workflow" where
  "demo_decode b = (if b = helpdeskYAML then Inr y_helpdesk else if b = approvalChainYAML then Inr y_approval_chain
     else if b = hrOnboardingYAML then Inr y_hr_onboarding else if b = assetTrackingYAML then Inr y_asset_tracking
     else Inl ''yaml'')"

lemma files_differ:
  "distinct (map (take 9) [helpdeskYAML, approvalChainYAML, hrOnboardingYAML, assetTrackingYAML])"
  unfolding file_text_def helpdeskYAML_def approvalChainYAML_def hrOnboardingYAML_def assetTrackingYAML_def list.map
    concat.simps by simp

lemma decodes_demo: "decodes demo_decode"
  using files_differ by (auto simp: decodes_def demo_decode_def)

theorem templates_work_witness:
  "\<exists>def. Helpdesk demo_decode = Inr def \<and> startable def \<and> acyclic (flow_edges def)"
  using templates_work [OF decodes_demo, of Helpdesk] by blast

end
