(* ===== verification/Postgres.thy ===== *)
theory Postgres
  imports EventLog Store Json
begin

text \<open>
  The PostgreSQL event log and store (engine/eventlog_pg.go, on the tables of engine/schema.sql).
  A table is a list of rows; a call is the sequence of its SQL statements, each of which succeeds or
  fails as the argument \<open>up\<close> says (\<open>Lost\<close>: a commit that takes effect although its
  acknowledgement is lost), and a transaction that does not commit leaves the tables as they were.
  What a time becomes in a TIMESTAMPTZ column, the order in which an unordered scan yields rows and
  the collation of text are the database's, hence arguments: \<open>col\<close>, \<open>scan\<close> and \<open>collate\<close>.
  Texts are taken to hold no NUL character, which PostgreSQL refuses in TEXT and JSONB.
\<close>

section \<open>The tables\<close>

datatype pg_error = NotFound | BeginTx | ReserveSeq | InsertEvent | Commit | Query | Marshal

record event_row =
  ER_RunID :: run_id
  ER_Seq :: int
  ER_TicketID :: ticket_id
  ER_At :: time
  ER_Payload :: payload
  ER_ScheduleAt :: "time option"

record tickets_row =
  C_id :: string
  C_workflow :: string
  C_workflow_version :: string
  C_title :: string
  C_fields :: "goobj option"
  C_assignee :: string
  C_queue :: string
  C_priority :: string
  C_created_at :: time
  C_updated_at :: time

record PgDB =
  D_tickets :: "tickets_row list"
  D_workflows :: "((string \<times> string) \<times> WorkflowDef) list"
  D_events :: "event_row list"
  D_event_seq :: "(run_id \<times> int) list"

definition empty_db :: PgDB where
  "empty_db = \<lparr>D_tickets = [], D_workflows = [], D_events = [], D_event_seq = []\<rparr>"

section \<open>The event log\<close>

text \<open>\<^verbatim>\<open>INSERT INTO event_seq ... ON CONFLICT DO UPDATE ... RETURNING next_seq - 1\<close>\<close>

definition reserve_seq :: "run_id \<Rightarrow> PgDB \<Rightarrow> int \<times> PgDB" where
  "reserve_seq r db =
     (let next_seq = (case map_of (D_event_seq db) r of None \<Rightarrow> 2 | Some n \<Rightarrow> n + 1)
      in (next_seq - 1, db\<lparr>D_event_seq := AList.update r next_seq (D_event_seq db)\<rparr>))"

text \<open>\<^verbatim>\<open>INSERT INTO events\<close>, which violates the primary key when the row exists already.\<close>

definition insert_event :: "event_row \<Rightarrow> PgDB \<Rightarrow> PgDB option" where
  "insert_event row db =
     (if (ER_RunID row, ER_Seq row) \<in> set (map (\<lambda>x. (ER_RunID x, ER_Seq x)) (D_events db)) then None
      else Some (db\<lparr>D_events := D_events db @ [row]\<rparr>))"

definition row_of :: "(time \<Rightarrow> time) \<Rightarrow> Event \<Rightarrow> event_row" where
  "row_of col e = \<lparr>ER_RunID = E_RunID e, ER_Seq = E_Seq e, ER_TicketID = E_TicketID e,
     ER_At = col (E_At e), ER_Payload = E_Payload e, ER_ScheduleAt = map_option col (E_ScheduleAt e)\<rparr>"

definition pg_Append ::
  "(time \<Rightarrow> time) \<Rightarrow> (nat \<Rightarrow> outcome) \<Rightarrow> Event \<Rightarrow> PgDB \<Rightarrow> (pg_error + Event) \<times> PgDB" where
  "pg_Append col up e db =
     (if up 0 \<noteq> Up then (Inl BeginTx, db)
      else if up 1 \<noteq> Up then (Inl ReserveSeq, db)
      else case reserve_seq (E_RunID e) db of (seq, db1) \<Rightarrow>
        let row = row_of col (e\<lparr>E_Seq := seq\<rparr>)
        in if up 2 \<noteq> Up then (Inl InsertEvent, db)
           else case insert_event row db1 of
             None \<Rightarrow> (Inl InsertEvent, db)
           | Some db2 \<Rightarrow>
               let e = e\<lparr>E_Seq := seq\<rparr>;
                   e = (if E_At e \<noteq> zero_time then e\<lparr>E_At := ER_At row\<rparr> else e);
                   e = (if E_ID e = 0 then e\<lparr>E_ID := seq\<rparr> else e)
               in case up 3 of Up \<Rightarrow> (Inr e, db2) | Down \<Rightarrow> (Inl Commit, db) | Lost \<Rightarrow> (Inl Commit, db2))"

definition event_of :: "run_id \<Rightarrow> event_row \<Rightarrow> Event" where
  "event_of r row = \<lparr>E_ID = 0, E_RunID = r, E_TicketID = ER_TicketID row, E_Seq = ER_Seq row,
     E_At = ER_At row, E_Payload = ER_Payload row, E_ScheduleAt = ER_ScheduleAt row\<rparr>"

definition pg_History :: "outcome \<Rightarrow> PgDB \<Rightarrow> run_id \<Rightarrow> pg_error + Event list" where
  "pg_History up db r =
     (if up \<noteq> Up then Inl Query
      else Inr (map (event_of r) (sort_key ER_Seq (filter (\<lambda>x. ER_RunID x = r) (D_events db)))))"

definition pg_Runs :: "(string list \<Rightarrow> string list) \<Rightarrow> outcome \<Rightarrow> PgDB \<Rightarrow> pg_error + run_id list" where
  "pg_Runs collate up db =
     (if up \<noteq> Up then Inl Query else Inr (collate (remdups (map ER_RunID (D_events db)))))"

section \<open>The store\<close>





text \<open>The SELECT and its Scan, column by column\<close>

definition scan_ticket :: "tickets_row \<Rightarrow> Ticket" where
  "scan_ticket row =
     \<lparr>T_ID = C_id row, T_Workflow = C_workflow row, T_WorkflowVer = C_workflow_version row, T_Title = C_title row,
      T_Fields = C_fields row, T_Assignee = C_assignee row, T_Queue = C_queue row, T_Priority = C_priority row,
      T_CreatedAt = C_created_at row, T_UpdatedAt = C_updated_at row\<rparr>"






definition pg_WorkflowVersions ::
  "(string list \<Rightarrow> string list) \<Rightarrow> outcome \<Rightarrow> PgDB \<Rightarrow> string \<Rightarrow> pg_error + string list" where
  "pg_WorkflowVersions collate up db name =
     (if up \<noteq> Up then Inl Query
      else Inr (collate (map snd (filter (\<lambda>k. fst k = name) (map fst (D_workflows db))))))"

definition pg_ListTickets :: "(tickets_row list \<Rightarrow> tickets_row list) \<Rightarrow> outcome \<Rightarrow> PgDB \<Rightarrow> pg_error + Ticket list" where
  "pg_ListTickets scan up db =
     (if up \<noteq> Up then Inl Query else Inr (map scan_ticket (sort_key (\<lambda>row. - C_created_at row) (scan (D_tickets db)))))"

definition pg_ListWorkflows ::
  "((string \<times> string) list \<Rightarrow> (string \<times> string) list) \<Rightarrow> outcome \<Rightarrow> PgDB \<Rightarrow> pg_error + WorkflowDef list" where
  "pg_ListWorkflows collate up db =
     (if up \<noteq> Up then Inl Query
      else Inr (List.map_filter (map_of (D_workflows db)) (collate (map fst (D_workflows db)))))"

section \<open>The log refines the in-memory log\<close>

definition takes_effect :: "(nat \<Rightarrow> outcome) \<Rightarrow> bool" where
  "takes_effect up \<longleftrightarrow> up 0 = Up \<and> up 1 = Up \<and> up 2 = Up \<and> up 3 \<noteq> Down"

definition rows_of :: "PgDB \<Rightarrow> run_id \<Rightarrow> event_row list" where
  "rows_of db r = filter (\<lambda>x. ER_RunID x = r) (D_events db)"

text \<open>
  The simulation: the rows of each run are the rows of the events the in-memory log holds, in
  order, and the counters agree.
\<close>

definition mirrors :: "(time \<Rightarrow> time) \<Rightarrow> InMemoryEventLog \<Rightarrow> PgDB \<Rightarrow> bool" where
  "mirrors col l db \<longleftrightarrow> log_ok l \<and> (\<forall>r.
     rows_of db r = map (row_of col) (L_events l r) \<and>
     (case map_of (D_event_seq db) r of None \<Rightarrow> L_seq l r = 0 | Some n \<Rightarrow> n = L_seq l r + 1))"

lemma mirrorsD:
  assumes "mirrors col l db"
  shows "log_ok l" "rows_of db r = map (row_of col) (L_events l r)"
    "(case map_of (D_event_seq db) r of None \<Rightarrow> L_seq l r = 0 | Some n \<Rightarrow> n = L_seq l r + 1)"
  using assms unfolding mirrors_def by blast+

lemma mirrors_empty: "mirrors col NewInMemoryEventLog empty_db"
  using log_ok_new by (simp add: mirrors_def rows_of_def empty_db_def NewInMemoryEventLog_def)

lemma row_of_simps [simp]: "ER_RunID (row_of col e) = E_RunID e" "ER_Seq (row_of col e) = E_Seq e"
  by (simp_all add: row_of_def)

lemma reserve_mirrors: "mirrors col l db \<Longrightarrow> fst (reserve_seq r db) = L_seq l r + 1"
  using mirrorsD(3) [of col l db r] by (auto simp: reserve_seq_def Let_def split: option.splits)

lemma insert_mirrors:
  assumes m: "mirrors col l db" and row: "ER_RunID row = r" "ER_Seq row = L_seq l r + 1"
    and ev: "D_events db1 = D_events db"
  shows "insert_event row db1 = Some (db1\<lparr>D_events := D_events db @ [row]\<rparr>)"
proof -
  have "ER_Seq x \<le> L_seq l r" if "x \<in> set (D_events db)" "ER_RunID x = r" for x
  proof -
    have "x \<in> set (rows_of db r)" using that by (simp add: rows_of_def)
    then obtain e where e: "e \<in> set (L_events l r)" "ER_Seq x = E_Seq e"
      unfolding mirrorsD(2) [OF m] by auto
    have "E_Seq e \<in> set [1 .. int (length (L_events l r))]"
      using mirrorsD(1) [OF m] e(1) unfolding log_ok_def by (metis image_eqI set_map)
    moreover have "L_seq l r = int (length (L_events l r))" using mirrorsD(1) [OF m] by (simp add: log_ok_def)
    ultimately show ?thesis using e(2) by simp
  qed
  with row show ?thesis unfolding insert_event_def ev by fastforce
qed

lemma pg_Append_effect:
  assumes m: "mirrors col l db" and at: "E_At e \<noteq> zero_time"
  shows "mirrors col (if takes_effect up then snd (Append w e l) else l) (snd (pg_Append col up e db))"
    and "fst (pg_Append col up e db) = Inr e' \<Longrightarrow>
      takes_effect up \<and> E_Seq e' = E_Seq (fst (Append w e l)) \<and> E_At e' = col (E_At e)"
proof -
  let ?r = "E_RunID e" and ?n = "L_seq l (E_RunID e) + 1"
  obtain seq db1 where s: "reserve_seq ?r db = (seq, db1)" by fastforce
  then have seq: "seq = ?n" using reserve_mirrors [OF m, of ?r] by simp
  have db1: "db1 = db\<lparr>D_event_seq := AList.update ?r (?n + 1) (D_event_seq db)\<rparr>"
    using s seq by (auto simp: reserve_seq_def Let_def)
  let ?row = "row_of col (e\<lparr>E_Seq := ?n\<rparr>)" and ?db2 = "db1\<lparr>D_events := D_events db @ [row_of col (e\<lparr>E_Seq := ?n\<rparr>)]\<rparr>"
  have ins: "insert_event ?row db1 = Some ?db2"
    by (rule insert_mirrors [OF m]) (simp_all add: db1)
  have new: "mirrors col (snd (Append w e l)) ?db2"
    unfolding mirrors_def
  proof (intro conjI allI)
    show "log_ok (snd (Append w e l))" by (rule log_ok_Append [OF mirrorsD(1) [OF m]])
    fix r
    have "row_of col (stamped w e ?n) = ?row" using at by (simp add: row_of_def)
    then show "rows_of ?db2 r = map (row_of col) (L_events (snd (Append w e l)) r)"
      using mirrorsD(2) [OF m, of r] by (auto simp: rows_of_def Append_eq)
    show "case map_of (D_event_seq ?db2) r of None \<Rightarrow> L_seq (snd (Append w e l)) r = 0
        | Some n \<Rightarrow> n = L_seq (snd (Append w e l)) r + 1"
      using mirrorsD(3) [OF m, of r] by (simp add: db1 Append_eq cong: option.case_cong)
  qed
  show "mirrors col (if takes_effect up then snd (Append w e l) else l) (snd (pg_Append col up e db))"
    using m new ins by (cases "up 3") (simp_all add: pg_Append_def s seq takes_effect_def Let_def)
  show "takes_effect up \<and> E_Seq e' = E_Seq (fst (Append w e l)) \<and> E_At e' = col (E_At e)"
    if "fst (pg_Append col up e db) = Inr e'"
    using that ins at by (cases "up 3") (auto simp: pg_Append_def s seq takes_effect_def Let_def Append_eq row_of_def
        split: if_splits)
qed

section \<open>Properties\<close>

fun pg_append_all :: "(time \<Rightarrow> time) \<Rightarrow> ((nat \<Rightarrow> outcome) \<times> time \<times> Event) list \<Rightarrow> PgDB \<Rightarrow> PgDB" where
  "pg_append_all col [] db = db"
| "pg_append_all col ((up, w, e) # es) db = pg_append_all col es (snd (pg_Append col up e db))"

definition committed :: "((nat \<Rightarrow> outcome) \<times> time \<times> Event) list \<Rightarrow> (time \<times> Event) list" where
  "committed es = map snd (filter (takes_effect \<circ> fst) es)"

lemma pg_append_all_mirrors:
  "mirrors col l db \<Longrightarrow> \<forall>(up, w, e) \<in> set es. E_At e \<noteq> zero_time \<Longrightarrow>
    mirrors col (mem.append_all (committed es) l) (pg_append_all col es db)"
proof (induction es arbitrary: l db)
  case Nil
  then show ?case by (simp add: committed_def)
next
  case (Cons x es)
  obtain up w e where x: "x = (up, w, e)" by (cases x) auto
  have "mirrors col (if takes_effect up then snd (Append w e l) else l) (snd (pg_Append col up e db))"
    using Cons.prems x by (intro pg_Append_effect) auto
  from Cons.IH [OF this] Cons.prems(2) show ?case
    by (cases "takes_effect up") (simp_all add: x committed_def)
qed

lemma sort_rows:
  assumes "mirrors col l db"
  shows "sort_key ER_Seq (rows_of db r) = rows_of db r"
proof (rule sort_key_id_if_sorted)
  have "map E_Seq (L_events l r) = [1 .. int (length (L_events l r))]"
    using mirrorsD(1) [OF assms] by (simp add: log_ok_def)
  moreover have "map ER_Seq (rows_of db r) = map E_Seq (L_events l r)"
    by (simp add: mirrorsD(2) [OF assms] comp_def)
  ultimately show "sorted (map ER_Seq (rows_of db r))" by simp
qed

text \<open>
  (C25) The PostgreSQL log refines the in-memory log: whatever statements and commits fail, what
  History reads back is what the in-memory log would hold after just the appends that took effect,
  with the sequence numbers 1, 2, ..., n, except that the identifier is not read back and that times
  have gone through their columns. A call that reports success took effect and returned the sequence
  number the in-memory log would have given.
\<close>

theorem pg_log_refines_memory:
  assumes "\<forall>(up, w, e) \<in> set es. E_At e \<noteq> zero_time"
  shows "let db = pg_append_all col es empty_db; l = mem.append_all (committed es) NewInMemoryEventLog in
    pg_History Up db r = Inr (map (\<lambda>e. e\<lparr>E_ID := 0, E_At := col (E_At e),
      E_ScheduleAt := map_option col (E_ScheduleAt e)\<rparr>) (History l r)) \<and>
    (E_At e \<noteq> zero_time \<and> fst (pg_Append col up e db) = Inr e' \<longrightarrow>
      takes_effect up \<and> E_Seq e' = E_Seq (fst (Append w e l)))"
proof -
  let ?db = "pg_append_all col es empty_db" and ?l = "mem.append_all (committed es) NewInMemoryEventLog"
  have m: "mirrors col ?l ?db" by (rule pg_append_all_mirrors [OF mirrors_empty assms(1)])
  have ev: "event_of r (row_of col e) = e\<lparr>E_ID := 0, E_At := col (E_At e),
      E_ScheduleAt := map_option col (E_ScheduleAt e)\<rparr>" if "e \<in> set (L_events ?l r)" for e
    using mirrorsD(1) [OF m] that by (auto simp: log_ok_def event_of_def row_of_def)
  have "pg_History Up ?db r = Inr (map (event_of r) (map (row_of col) (L_events ?l r)))"
    using sort_rows [OF m, of r] by (simp add: pg_History_def rows_of_def [symmetric] mirrorsD(2) [OF m])
  also have "map (event_of r) (map (row_of col) (L_events ?l r)) = map (\<lambda>e. e\<lparr>E_ID := 0, E_At := col (E_At e),
      E_ScheduleAt := map_option col (E_ScheduleAt e)\<rparr>) (History ?l r)"
    using ev by (simp add: History_def)
  finally show ?thesis
    using pg_Append_effect(2) [OF m, of e up e' w] by (simp add: Let_def)
qed

definition micros :: "time \<Rightarrow> time" where
  "micros t = t div 1000 * 1000"

theorem pg_log_refines_memory_witness:
  "pg_History Up (pg_append_all micros
      [(\<lambda>_. Up, 0, \<lparr>E_ID = 0, E_RunID = ''r'', E_TicketID = ''t'', E_Seq = 0, E_At = 5001,
         E_Payload = TimerFired ''a'', E_ScheduleAt = None\<rparr>),
       ((\<lambda>_. Up)(3 := Down), 0, \<lparr>E_ID = 0, E_RunID = ''r'', E_TicketID = ''t'', E_Seq = 0, E_At = 6001,
         E_Payload = TimerFired ''b'', E_ScheduleAt = None\<rparr>)] empty_db) ''r'' =
    Inr [\<lparr>E_ID = 0, E_RunID = ''r'', E_TicketID = ''t'', E_Seq = 1, E_At = 5000,
      E_Payload = TimerFired ''a'', E_ScheduleAt = None\<rparr>]"
  (is "pg_History Up (pg_append_all micros ?es empty_db) ''r'' = _")
proof -
  have "\<forall>(up, w, e) \<in> set ?es. E_At e \<noteq> zero_time" by simp
  from pg_log_refines_memory [OF this, of micros "''r''"] show ?thesis
    by (simp add: Let_def committed_def takes_effect_def Append_def History_def NewInMemoryEventLog_def micros_def)
qed














end
