(* ===== verification/Service.thy ===== *)
theory Service
  imports Examples Engine_Progress
begin

text \<open>
  From the files to a finished run: a server that has started on a directory of workflow files
  creates a ticket on one of them, a workflow of tasks, and its workers take the run to its end.
\<close>

section \<open>What starting does to the engine\<close>

text \<open>Only definitions of \<open>W\<close> are registered, and nothing else changes that a run depends on.\<close>

definition deploying :: "(WorkflowDef \<Rightarrow> bool) \<Rightarrow> Engine \<Rightarrow> Engine \<Rightarrow> bool" where
  "deploying W s t \<longleftrightarrow> G_log t = G_log s \<and> G_pool t = G_pool s \<and> G_world t = G_world s \<and>
     (sound s \<longrightarrow> sound t) \<and> GetTicket (G_store t) = GetTicket (G_store s) \<and>
     (\<forall>n v. registered (G_store t) n v \<longrightarrow> registered (G_store s) n v \<or>
       (\<exists>w. W w \<and> n = W_Name w \<and> v = W_Version w))"

interpretation dp: frame "deploying W" for W
  by unfold_locales (auto simp: deploying_def)

lemma deploying_register: "W w \<Longrightarrow> keeps (deploying W) (Engine_RegisterWorkflow w)"
proof (rule keepsI)
  fix s assume "W w"
  moreover have "sound s \<longrightarrow> sound (snd (Engine_RegisterWorkflow w s))" using sound_RegisterWorkflow by blast
  ultimately show "deploying W s (snd (Engine_RegisterWorkflow w s))"
    unfolding deploying_def
    by (intro conjI) (auto simp: Engine_RegisterWorkflow_def Let_def fail_def bnd_run cache_workflow_def
        store_RegisterWorkflow_def writing_def sample_def bnd_def put_def registered_def fun_eq_iff
        split: outcome.splits)
qed

lemma deploying_RegisterAll:
  assumes "\<forall>w \<in> snd ` set r. W w"
  shows "keeps (deploying W) (RegisterAll r)"
proof -
  have w: "W w" if "map_of r k = Some w" for k w using assms map_of_SomeD [OF that] by force
  have "keeps (deploying W) (in_map_order ks)" for ks
  proof (rule keepsI)
    fix s
    have "sound s \<longrightarrow> sound (tick_of s)" using sound_cong [of s "tick_of s"] sound_available [of s] by simp
    then show "deploying W s (snd (in_map_order ks s))"
      by (simp add: in_map_order_def bnd_run sample_def deploying_def)
  qed
  then show ?thesis unfolding RegisterAll_def wrap_error_def
    by (intro dp.keeps_rules deploying_register) (auto dest: w)
qed

text \<open>What the rest of the program finds after a start without a database.\<close>

lemma fresh_start:
  assumes r: "RegisterAll r (NewEngine NewInMemoryEventLog NewInMemoryStore workers world) = (Ok (), s)"
    and d: "inj_on key_of (snd ` set r)" and w: "available world"
  shows "sound s" "keys_distinct (G_store s)" "fresh_ids s" "G_world s = world" "P_tasks (G_pool s) = []"
    "\<not> P_closed (G_pool s)"
proof -
  let ?e = "NewEngine NewInMemoryEventLog NewInMemoryStore workers world"
  have dep: "deploying (\<lambda>w. w \<in> snd ` set r) ?e s"
    using keepsD [OF deploying_RegisterAll r, of "\<lambda>w. w \<in> snd ` set r"] by simp
  have "reachable available 0 ?e" by (rule start [of available, OF w])
  with dep show "sound s" using reachable_sound by (auto simp: deploying_def)
  show "G_world s = world" "P_tasks (G_pool s) = []" "\<not> P_closed (G_pool s)"
    using dep by (simp_all add: deploying_def NewEngine_def NewWorkerPool_def)
  have "History (G_log s) i = []" "\<not> has_ticket i s" for i
    using dep by (simp_all add: deploying_def NewEngine_def NewInMemoryEventLog_def History_def has_ticket_def
        NewInMemoryStore_def GetTicket_def)
  then show "fresh_ids s" unfolding fresh_ids_def by blast
  have reg: "\<exists>w \<in> snd ` set r. n = W_Name w \<and> v = W_Version w" if "registered (G_store s) n v" for n v
  proof -
    have "\<not> registered (G_store ?e) n v"
      by (simp add: NewEngine_def NewInMemoryStore_def registered_def GetWorkflow_def)
    with that dep show ?thesis unfolding deploying_def by blast
  qed
  show "keys_distinct (G_store s)"
    unfolding keys_distinct_def
  proof (intro allI impI)
    fix n v n' v'
    assume a: "registered (G_store s) n v \<and> registered (G_store s) n' v' \<and> wfKey n v = wfKey n' v'"
    with reg obtain w w' where "w \<in> snd ` set r" "n = W_Name w" "v = W_Version w"
        "w' \<in> snd ` set r" "n' = W_Name w'" "v' = W_Version w'"
      by metis
    moreover from this a have "key_of w = key_of w'" by (simp add: wfKey_def registry_key_def)
    ultimately show "n = n' \<and> v = v'" using inj_onD [OF d, of w w'] by simp
  qed
qed

lemma noop_willing:
  assumes "\<forall>k \<in> set example_tasks. handlers k = Some noop"
    and "\<forall>sd \<in> set (W_Steps def). SD_Task sd \<in> set example_tasks"
  shows "willing handlers def"
  unfolding willing_def
proof
  fix sd assume "sd \<in> set (W_Steps def)"
  with assms have "handlers (SD_Task sd) = Some noop" by blast
  moreover have "\<forall>k run step fs. \<exists>out. noop k run step fs = Inr out \<and> marshals_obj out"
    by (simp add: noop_def marshals_obj_def)
  ultimately show "\<exists>h. handlers (SD_Task sd) = Some h \<and>
      (\<forall>k run step fs. \<exists>out. h k run step fs = Inr out \<and> marshals_obj out)" by blast
qed

section \<open>The property\<close>

text \<open>
  (C10) The program as a whole: let every workflow file of the directory be readable and compile to a
  definition that starts at one of its steps, no two under one name and version, and let one of them
  be a workflow of tasks that the example server binds, whose success edges lead from its initial
  step along \<open>path\<close> to an end, and whose SLAs do not run out at the times the clock gives. Then the
  server boots without a database; the engine it serves creates a ticket on that workflow; and after
  one worker turn for each step the run is completed, with exactly the history of the creation and of
  the steps in order.
\<close>

theorem booted_server_serves:
  assumes "env ''DATABASE_URL'' = []" "dir = getenv env ''CONDUIT_WORKFLOWS_DIR'' ''engine/examples''"
    and "tree dir = Inr d" "listable d"
    and ok: "\<forall>f \<in> set (files dir d). \<exists>w. holds unmarshal f = Some w \<and> startable w"
    and dist: "distinct (map (\<lambda>f. key_of (the (holds unmarshal f))) (files dir d))"
    and w: "available world" "fair_order world"
    and f: "f \<in> set (files dir d)" "holds unmarshal f = Some def" "task_only def" "flows def (W_Initial def # path)"
      "\<forall>sd \<in> set (W_Steps def). SD_Task sd \<in> set example_tasks" "unhurried world def"
    and fs: "fs = None \<or> marshals_obj fs"
  shows "\<exists>s tk run t u outs. boot env con unmarshal tree world = Inr (server_auth env, s) \<and>
    CreateTicket (Suc n) (W_Name def) (W_Version def) title fs s = (Ok (tk, run), t) \<and>
    u = turns (Suc m) (Suc (length path)) t \<and> length outs = Suc (length path) \<and>
    payloads (History (G_log u) (R_ID run)) =
      start_payloads tk (R_ID run) (W_Initial def) @ script (W_Initial def # path) outs \<and>
    run_status u (R_ID run) = RunStatusCompleted"
proof -
  have order: "\<forall>k ks. set (order world k ks) = set ks" using w(2) by (simp add: fair_order_def)
  obtain r s where r: "RegisterAll r (NewEngine NewInMemoryEventLog NewInMemoryStore 4 world) = (Ok (), s)"
      "snd ` set r = (\<lambda>f. the (holds unmarshal f)) ` set (files dir d)"
      "boot env con unmarshal tree world = Inr (server_auth env,
         s\<lparr>G_handlers := (\<lambda>k. if k \<in> set example_tasks then Some noop else G_handlers s k)\<rparr>)"
      "\<forall>f \<in> set (files dir d). \<exists>w. holds unmarshal f = Some w \<and> deployed s w"
    by (rule boot_registers [of env con NewInMemoryEventLog NewInMemoryStore dir tree d unmarshal world])
       (use assms order in \<open>simp_all\<close>)
  let ?s = "s\<lparr>G_handlers := (\<lambda>k. if k \<in> set example_tasks then Some noop else G_handlers s k)\<rparr>"
  have "inj_on key_of (snd ` set r)"
    unfolding r(2) using dist by (auto simp: distinct_map inj_on_def)
  note st = fresh_start [OF r(1) this w(1)]
  have "sound ?s" by (rule sound_cong [OF st(1)]) (simp_all add: st(4) w(1))
  moreover have "keys_distinct (G_store ?s)" using st(2) by simp
  moreover have "fresh_ids ?s" using st(3) by (simp add: fresh_ids_def has_ticket_def)
  moreover have "in_flight ?s []" using st(4-6) w(2) by (simp add: in_flight_def)
  moreover have "length ([] :: flight list) < pool_capacity" by (simp add: pool_capacity_def)
  moreover have "wf_of ?s (W_Name def) (W_Version def) = Some def"
    using r(4) f(1,2) by (auto simp: deployed_def wf_of_def workflow_def)
  moreover have "willing (G_handlers ?s) def" by (rule noop_willing [OF _ f(5)]) simp
  moreover have "unhurried (G_world ?s) def" using f(6) st(4) by simp
  ultimately have "\<exists>tk run t. CreateTicket (Suc n) (W_Name def) (W_Version def) title fs ?s = (Ok (tk, run), t) \<and>
      in_flight t ([] @ [(run, def, W_Initial def # path)]) \<and>
      payloads (History (G_log t) (R_ID run)) = start_payloads tk (R_ID run) (W_Initial def) \<and>
      (\<forall>r. r \<noteq> R_ID run \<longrightarrow> extends_by r [] ?s t)"
    by (intro CreateTicket_takes_off f(3,4) fs)
  then obtain tk run t where t: "CreateTicket (Suc n) (W_Name def) (W_Version def) title fs ?s = (Ok (tk, run), t)"
      "in_flight t [(run, def, W_Initial def # path)]"
      "payloads (History (G_log t) (R_ID run)) = start_payloads tk (R_ID run) (W_Initial def)"
    by auto
  let ?u = "turns (Suc m) (Suc (length path)) t"
  have "completes t ?u (run, def, W_Initial def # path)"
    using in_flight_completes [OF t(2), of m] by (simp add: work_def)
  from started_completes [OF t(3) this] obtain outs where "length outs = Suc (length path)"
      "run_status ?u (R_ID run) = RunStatusCompleted" "payloads (History (G_log ?u) (R_ID run)) =
        start_payloads tk (R_ID run) (W_Initial def) @ script (W_Initial def # path) outs"
    by (auto simp: flight_id_def)
  with r(3) t(1) show ?thesis by blast
qed

section \<open>The helpdesk workflow\<close>

text \<open>A directory that holds the helpdesk template, and a decoder that reads it.\<close>

definition desk_tree :: node where
  "desk_tree = Dir None [(''helpdesk.yaml'', File (Inr helpdeskYAML))]"

lemma files_desk: "files ''engine/examples'' desk_tree = [(''engine/examples/helpdesk.yaml'', Inr helpdeskYAML)]"
proof -
  have "isWorkflowFile ''engine/examples/helpdesk.yaml''" by code_simp
  then show ?thesis by (simp add: desk_tree_def join_path_def)
qed

lemma holds_desk: "holds demo_decode (path, Inr helpdeskYAML) = Some (meaning y_helpdesk)"
  using Compile_iff [of y_helpdesk "meaning y_helpdesk"] example_acceptable(1)
  by (simp add: holds_def ParseYAML_def demo_decode_def)

lemma helpdesk_flow:
  "task_only (meaning y_helpdesk)" "W_Initial (meaning y_helpdesk) = ''triage''"
  "flows (meaning y_helpdesk) [''triage'', ''assign'', ''resolve'', ''close'']"
  "\<forall>sd \<in> set (W_Steps (meaning y_helpdesk)). SD_Task sd \<in> set example_tasks"
  "unhurried (calm (\<lambda>_. 5)) (meaning y_helpdesk)" "startable (meaning y_helpdesk)"
  by (simp_all add: template_defs task_only_def meaning_def sla_meaning_def step_meaning_def work_step_def delayed_step_def Step_def
      example_tasks_def unhurried_def times_def calm_def example_durations startable_def)

theorem booted_server_serves_witness:
  "\<exists>s tk run t. boot (\<lambda>_. []) (\<lambda>_. Inl (OpenPostgres ''none'')) demo_decode (\<lambda>_. Inr desk_tree) (calm (\<lambda>_. 5)) =
      Inr (server_auth (\<lambda>_. []), s) \<and>
    CreateTicket 3 ''it-helpdesk'' ''1.0.0'' ''laptop'' None s = (Ok (tk, run), t) \<and>
    run_status (turns 3 4 t) (R_ID run) = RunStatusCompleted"
proof -
  have "listable desk_tree" by (simp add: desk_tree_def)
  moreover have "available (calm (\<lambda>_. 5))" by (simp add: available_def calm_def)
  moreover have "W_Name (meaning y_helpdesk) = ''it-helpdesk''" "W_Version (meaning y_helpdesk) = ''1.0.0''"
    by (simp_all add: meaning_def y_helpdesk_def)
  ultimately show ?thesis
    using booted_server_serves [of "\<lambda>_. []" "''engine/examples''" "\<lambda>_. Inr desk_tree" desk_tree demo_decode
        "calm (\<lambda>_. 5)" "(''engine/examples/helpdesk.yaml'', Inr helpdeskYAML)" "meaning y_helpdesk"
        "[''assign'', ''resolve'', ''close'']" None "\<lambda>_. Inl (OpenPostgres ''none'')" 2 "''laptop''" 2]
      demo_flow(4) helpdesk_flow
    by (auto simp: files_desk holds_desk getenv_def eval_nat_numeral)
qed

end
