(* ===== verification/Graphql_Schema.thy ===== *)
theory Graphql_Schema
  imports Graphql Engine_Effects
begin

text \<open>
  The types that the GraphQL API declares (api/graphql/schema.go) and the resolvers of their fields,
  which assert the Go type of the value they are given. The schema library, which walks a query over
  the types, is outside: of its default resolver, which reads the property of the field's name, the
  hypothesis \<open>takes_property\<close> says what is used. Shown is that its walk never breaks a declaration.
\<close>

section \<open>Types and values\<close>

datatype gql_type =
    GString | GInt | GBoolean
  | GJSON \<comment> \<open>the scalar JSON\<close>
  | GObject string
  | GInput string
  | GNonNull gql_type
  | GList gql_type

record scalar =
  Serialize :: "goany \<Rightarrow> goany"
  ParseValue :: "goany \<Rightarrow> goany"
  ParseLiteral :: "ast_value \<Rightarrow> goany"

definition JSON :: scalar where
  "JSON = \<lparr>Serialize = (\<lambda>v. v), ParseValue = (\<lambda>v. v), ParseLiteral = parseLiteral\<rparr>"

text \<open>
  The Go values that resolvers take and return, with their dynamic types: a nil map or pointer is
  \<open>GoNil\<close>; \<open>GoApprovalDef\<close>, \<open>GoTicket\<close>, \<open>GoApprovalState\<close>, \<open>GoStepState\<close>, \<open>GoRun\<close> and \<open>GoDelay\<close> are
  pointers to the struct, the others the struct itself.
\<close>

datatype go_value =
    GoNil
  | GoString string | GoInt int | GoBool bool | GoTime time
  | GoMap goobj | GoPayload payload | GoRetry RetryPolicy | GoDelay DelayDef
  | GoApprover Approver
  | GoApprovalDef ApprovalDef
  | GoApprovalDefValue ApprovalDef
  | GoStep StepDef
  | GoWorkflow WorkflowDef
  | GoTicket Ticket
  | GoApprovalState ApprovalState
  | GoStepState StepState
  | GoRun WorkflowRun
  | GoEvent Event
  | GoSlice "go_value list"

definition go_pointer :: "('a \<Rightarrow> go_value) \<Rightarrow> 'a option \<Rightarrow> go_value" where
  "go_pointer f p = (case p of None \<Rightarrow> GoNil | Some x \<Rightarrow> f x)"

text \<open>The strings of the constants of engine/model.go.\<close>

fun step_status_text :: "StepStatus \<Rightarrow> string" where
  "step_status_text StepPending = ''PENDING''"
| "step_status_text StepRunning = ''RUNNING''"
| "step_status_text StepCompleted = ''COMPLETED''"
| "step_status_text StepFailed = ''FAILED''"
| "step_status_text StepWaiting = ''WAITING''"
| "step_status_text StepSkipped = ''SKIPPED''"

fun kind_text :: "StepKind \<Rightarrow> string" where
  "kind_text KindTask = ''task''"
| "kind_text KindApproval = ''approval''"
| "kind_text KindDelay = ''delay''"
| "kind_text (KindOther s) = s"

fun event_type_text :: "EventType \<Rightarrow> string" where
  "event_type_text EventTicketCreated = ''TICKET_CREATED''"
| "event_type_text EventRunStarted = ''RUN_STARTED''"
| "event_type_text EventStepScheduled = ''STEP_SCHEDULED''"
| "event_type_text EventStepStarted = ''STEP_STARTED''"
| "event_type_text EventStepCompleted = ''STEP_COMPLETED''"
| "event_type_text EventStepFailed = ''STEP_FAILED''"
| "event_type_text EventTimerFired = ''TIMER_FIRED''"
| "event_type_text EventApprovalRequested = ''APPROVAL_REQUESTED''"
| "event_type_text EventApprovalGranted = ''APPROVAL_GRANTED''"
| "event_type_text EventApprovalRejected = ''APPROVAL_REJECTED''"
| "event_type_text EventSLABreached = ''SLA_BREACHED''"
| "event_type_text EventTicketAssigned = ''TICKET_ASSIGNED''"
| "event_type_text EventRunCompleted = ''RUN_COMPLETED''"
| "event_type_text EventRunFailed = ''RUN_FAILED''"
| "event_type_text EventRunCancelled = ''RUN_CANCELLED''"
| "event_type_text EventRunFailing = ''RUN_FAILING''"

text \<open>The fields of a struct under their Go names; the steps of a run, a map, are not read this way.\<close>

fun struct_fields :: "go_value \<Rightarrow> (string \<times> go_value) list" where
  "struct_fields (GoApprover a) = [(''Role'', GoString (A_Role a)), (''User'', GoString (A_User a))]"
| "struct_fields (GoApprovalDef a) = [(''Chain'', GoSlice (map GoApprover (AD_Chain a)))]"
| "struct_fields (GoApprovalDefValue a) = [(''Chain'', GoSlice (map GoApprover (AD_Chain a)))]"
| "struct_fields (GoStep s) =
     [(''Name'', GoString (SD_Name s)), (''Kind'', GoString (kind_text (SD_Kind s))),
      (''Task'', GoString (SD_Task s)), (''Approval'', go_pointer GoApprovalDef (SD_Approval s)),
      (''Delay'', go_pointer GoDelay (SD_Delay s)), (''Next'', GoString (SD_Next s)),
      (''OnError'', GoString (SD_OnError s)), (''AssignTo'', GoString (SD_AssignTo s)),
      (''Retry'', GoRetry (SD_Retry s))]"
| "struct_fields (GoWorkflow w) =
     [(''Name'', GoString (W_Name w)), (''Version'', GoString (W_Version w)),
      (''Description'', GoString (W_Description w)), (''Initial'', GoString (W_Initial w)),
      (''Steps'', GoSlice (map GoStep (W_Steps w)))]"
| "struct_fields (GoTicket t) =
     [(''ID'', GoString (T_ID t)), (''Workflow'', GoString (T_Workflow t)),
      (''WorkflowVer'', GoString (T_WorkflowVer t)), (''Title'', GoString (T_Title t)),
      (''Fields'', go_pointer GoMap (T_Fields t)), (''Assignee'', GoString (T_Assignee t)),
      (''Queue'', GoString (T_Queue t)), (''Priority'', GoString (T_Priority t)),
      (''CreatedAt'', GoTime (T_CreatedAt t)), (''UpdatedAt'', GoTime (T_UpdatedAt t))]"
| "struct_fields (GoApprovalState a) =
     [(''Chain'', GoSlice (map GoApprover (AS_Chain a))), (''Index'', GoInt (AS_Index a)),
      (''Status'', GoString (status_text (AS_Status a))), (''DecidedBy'', GoString (AS_DecidedBy a))]"
| "struct_fields (GoStepState s) =
     [(''Name'', GoString (SS_Name s)), (''Kind'', GoString (kind_text (SS_Kind s))),
      (''Status'', GoString (step_status_text (SS_Status s))), (''Attempt'', GoInt (SS_Attempt s)),
      (''Output'', go_pointer GoMap (SS_Output s)), (''Error'', GoString (SS_Error s)),
      (''DueAt'', go_pointer GoTime (SS_DueAt s)), (''Approval'', go_pointer GoApprovalState (SS_Approval s))]"
| "struct_fields (GoRun r) =
     [(''ID'', GoString (R_ID r)), (''TicketID'', GoString (R_TicketID r)),
      (''Workflow'', GoString (R_Workflow r)), (''WorkflowVer'', GoString (R_WorkflowVer r)),
      (''Status'', GoString (run_status_text (R_Status r))), (''Current'', GoString (R_Current r)),
      (''Output'', go_pointer GoMap (R_Output r)), (''Failed'', GoBool (R_Failed r)),
      (''CreatedAt'', GoTime (R_CreatedAt r)), (''UpdatedAt'', GoTime (R_UpdatedAt r))]"
| "struct_fields (GoEvent e) =
     [(''ID'', GoInt (E_ID e)), (''RunID'', GoString (E_RunID e)), (''TicketID'', GoString (E_TicketID e)),
      (''Type'', GoString (event_type_text (event_type (E_Payload e)))), (''Seq'', GoInt (E_Seq e)),
      (''At'', GoTime (E_At e)), (''Payload'', GoPayload (E_Payload e)),
      (''ScheduleAt'', go_pointer GoTime (E_ScheduleAt e))]"
| "struct_fields _ = []"

section \<open>Object types\<close>

text \<open>A field, with its resolver if it declares one; a resolver whose type assertion fails panics: None.\<close>

record gql_field =
  GF_Name :: string
  GF_Type :: gql_type
  GF_Resolve :: "(go_value \<Rightarrow> go_value option) option"

abbreviation plain :: "string \<Rightarrow> gql_type \<Rightarrow> gql_field" where
  "plain n t \<equiv> \<lparr>GF_Name = n, GF_Type = t, GF_Resolve = None\<rparr>"

abbreviation custom :: "string \<Rightarrow> gql_type \<Rightarrow> (go_value \<Rightarrow> go_value option) \<Rightarrow> gql_field" where
  "custom n t f \<equiv> \<lparr>GF_Name = n, GF_Type = t, GF_Resolve = Some f\<rparr>"

abbreviation many :: "string \<Rightarrow> gql_type" where
  "many t \<equiv> GNonNull (GList (GNonNull (GObject t)))"

definition approverType :: "gql_field list" where
  "approverType = [plain ''role'' (GNonNull GString), plain ''user'' GString]"

definition approvalDefType :: "gql_field list" where
  "approvalDefType =
     [custom ''chain'' (many ''Approver'') (\<lambda>src. case src of
        GoApprovalDef a \<Rightarrow> Some (GoSlice (map GoApprover (AD_Chain a)))
      | GoApprovalDefValue a \<Rightarrow> Some (GoSlice (map GoApprover (AD_Chain a)))
      | _ \<Rightarrow> Some GoNil)]"

definition stepType :: "gql_field list" where
  "stepType =
     [plain ''name'' (GNonNull GString), plain ''kind'' (GNonNull GString), plain ''task'' GString,
      plain ''next'' GString, plain ''onError'' GString, plain ''assignTo'' GString,
      plain ''approval'' (GObject ''Approval''), plain ''delay'' GJSON, plain ''retry'' GJSON]"

definition workflowType :: "gql_field list" where
  "workflowType =
     [plain ''name'' (GNonNull GString), plain ''version'' (GNonNull GString),
      plain ''description'' GString, plain ''initial'' GString,
      custom ''steps'' (many ''Step'') (\<lambda>src. case src of
        GoWorkflow w \<Rightarrow> Some (GoSlice (map GoStep (W_Steps w))) | _ \<Rightarrow> None)]"

definition ticketType :: "gql_field list" where
  "ticketType =
     [plain ''id'' (GNonNull GString), plain ''workflow'' (GNonNull GString),
      custom ''workflowVersion'' (GNonNull GString) (\<lambda>src. case src of
        GoTicket t \<Rightarrow> Some (GoString (T_WorkflowVer t)) | _ \<Rightarrow> None),
      plain ''title'' (GNonNull GString), plain ''fields'' GJSON, plain ''assignee'' GString,
      plain ''queue'' GString, plain ''priority'' GString,
      plain ''createdAt'' (GNonNull GString), plain ''updatedAt'' (GNonNull GString)]"

definition approvalStateType :: "gql_field list" where
  "approvalStateType =
     [custom ''chain'' (many ''Approver'') (\<lambda>src. case src of
        GoApprovalState a \<Rightarrow> Some (GoSlice (map GoApprover (AS_Chain a))) | _ \<Rightarrow> None),
      plain ''index'' GInt, plain ''status'' GString, plain ''decidedBy'' GString]"

definition stepStateType :: "gql_field list" where
  "stepStateType =
     [plain ''name'' (GNonNull GString), plain ''kind'' GString, plain ''status'' GString,
      plain ''attempt'' GInt, plain ''output'' GJSON, plain ''error'' GString, plain ''dueAt'' GString,
      custom ''approval'' (GObject ''ApprovalState'') (\<lambda>src. case src of
        GoStepState s \<Rightarrow> Some (go_pointer GoApprovalState (SS_Approval s)) | _ \<Rightarrow> None)]"

text \<open>\<open>ord\<close> is the order in which the map of the steps is iterated.\<close>

definition runType :: "(string list \<Rightarrow> string list) \<Rightarrow> gql_field list" where
  "runType ord =
     [plain ''id'' (GNonNull GString), plain ''ticketId'' (GNonNull GString), plain ''workflow'' GString,
      custom ''workflowVersion'' GString (\<lambda>src. case src of
        GoRun r \<Rightarrow> Some (GoString (R_WorkflowVer r)) | _ \<Rightarrow> None),
      plain ''status'' GString,
      custom ''currentStep'' GString (\<lambda>src. case src of
        GoRun r \<Rightarrow> Some (GoString (R_Current r)) | _ \<Rightarrow> None),
      custom ''steps'' (many ''StepState'') (\<lambda>src. case src of
        GoRun r \<Rightarrow> Some (GoSlice (map GoStepState (resolve_steps ord r))) | _ \<Rightarrow> None),
      plain ''output'' GJSON, plain ''failed'' GBoolean, plain ''createdAt'' GString, plain ''updatedAt'' GString]"

definition eventType :: "gql_field list" where
  "eventType =
     [plain ''seq'' GInt, plain ''type'' (GNonNull GString), plain ''at'' GString, plain ''payload'' GJSON,
      plain ''scheduleAt'' GString]"

definition createTicketInput :: "(string \<times> gql_type) list" where
  "createTicketInput =
     [(''workflow'', GNonNull GString), (''version'', GNonNull GString), (''title'', GNonNull GString),
      (''fields'', GJSON)]"

text \<open>The declared object types under their names.\<close>

definition object_types :: "(string list \<Rightarrow> string list) \<Rightarrow> (string \<times> gql_field list) list" where
  "object_types ord =
     [(''Approver'', approverType), (''Approval'', approvalDefType), (''Step'', stepType),
      (''Workflow'', workflowType), (''Ticket'', ticketType), (''ApprovalState'', approvalStateType),
      (''StepState'', stepStateType), (''WorkflowRun'', runType ord), (''Event'', eventType)]"

section \<open>The root types\<close>

record root_field =
  RF_Name :: string
  RF_Type :: gql_type
  RF_Args :: "(string \<times> gql_type) list"
  RF_Resolve :: "nat \<Rightarrow> args \<Rightarrow> go_value eng"

text \<open>The value that a resolver of the engine's type returns to the library.\<close>

definition returning :: "('a \<Rightarrow> go_value) \<Rightarrow> 'a eng \<Rightarrow> go_value eng" where
  "returning f m = bnd m (\<lambda>x. ret (f x))"

abbreviation text_args :: "string list \<Rightarrow> (string \<times> gql_type) list" where
  "text_args ks \<equiv> map (\<lambda>k. (k, GNonNull GString)) ks"

definition query :: "root_field list" where
  "query =
     [\<lparr>RF_Name = ''tickets'', RF_Type = many ''Ticket'', RF_Args = [],
       RF_Resolve = (\<lambda>n args. returning (\<lambda>ts. GoSlice (map GoTicket ts)) resolve_tickets)\<rparr>,
      \<lparr>RF_Name = ''ticket'', RF_Type = GObject ''Ticket'', RF_Args = text_args [''id''],
       RF_Resolve = (\<lambda>n args. returning GoTicket (resolve_ticket args))\<rparr>,
      \<lparr>RF_Name = ''workflows'', RF_Type = many ''Workflow'', RF_Args = [],
       RF_Resolve = (\<lambda>n args. returning (\<lambda>ws. GoSlice (map GoWorkflow ws)) resolve_workflows)\<rparr>,
      \<lparr>RF_Name = ''workflow'', RF_Type = GObject ''Workflow'', RF_Args = text_args [''name'', ''version''],
       RF_Resolve = (\<lambda>n args. returning GoWorkflow (resolve_workflow args))\<rparr>,
      \<lparr>RF_Name = ''runs'', RF_Type = many ''WorkflowRun'', RF_Args = [],
       RF_Resolve = (\<lambda>n args. returning (\<lambda>rs. GoSlice (map GoRun rs)) resolve_runs)\<rparr>,
      \<lparr>RF_Name = ''run'', RF_Type = GObject ''WorkflowRun'', RF_Args = text_args [''id''],
       RF_Resolve = (\<lambda>n args. returning GoRun (resolve_run args))\<rparr>,
      \<lparr>RF_Name = ''events'', RF_Type = many ''Event'', RF_Args = text_args [''runId''],
       RF_Resolve = (\<lambda>n args. returning (\<lambda>es. GoSlice (map GoEvent es)) (resolve_events args))\<rparr>]"

definition mutation :: "root_field list" where
  "mutation =
     [\<lparr>RF_Name = ''createTicket'', RF_Type = GNonNull (GObject ''Ticket''),
       RF_Args = [(''input'', GNonNull (GInput ''CreateTicketInput''))],
       RF_Resolve = (\<lambda>n args. returning GoTicket (resolve_createTicket n args))\<rparr>,
      \<lparr>RF_Name = ''approve'', RF_Type = GNonNull GBoolean,
       RF_Args = text_args [''runId'', ''step'', ''by''] @ [(''comment'', GString)],
       RF_Resolve = (\<lambda>n args. returning GoBool (resolve_approve n args))\<rparr>,
      \<lparr>RF_Name = ''reject'', RF_Type = GNonNull GBoolean,
       RF_Args = text_args [''runId'', ''step'', ''by''] @ [(''reason'', GString)],
       RF_Resolve = (\<lambda>n args. returning GoBool (resolve_reject args))\<rparr>,
      \<lparr>RF_Name = ''cancel'', RF_Type = GNonNull GBoolean,
       RF_Args = text_args [''runId''] @ [(''reason'', GString)],
       RF_Resolve = (\<lambda>n args. returning GoBool (resolve_cancel args))\<rparr>]"

section \<open>What the library does with them\<close>

text \<open>The default resolver \<open>dflt\<close> gives the struct's field of the same name, letter case aside.\<close>

definition takes_property :: "(go_value \<Rightarrow> string \<Rightarrow> go_value) \<Rightarrow> bool" where
  "takes_property dflt \<longleftrightarrow>
     (\<forall>src f. \<forall>(n, v) \<in> set (struct_fields src). EqualFold n f \<longrightarrow> dflt src f = v)"

definition resolved :: "(go_value \<Rightarrow> string \<Rightarrow> go_value) \<Rightarrow> gql_field \<Rightarrow> go_value \<Rightarrow> go_value option" where
  "resolved dflt f src =
     (case GF_Resolve f of None \<Rightarrow> Some (dflt src (GF_Name f)) | Some r \<Rightarrow> r src)"

text \<open>The values that answering a request can come to, each with the type declared for its place.\<close>

inductive shown ::
  "(go_value \<Rightarrow> string \<Rightarrow> go_value) \<Rightarrow> (string list \<Rightarrow> string list) \<Rightarrow> gql_type \<Rightarrow> go_value \<Rightarrow> bool"
  for dflt ord where
  root: "f \<in> set (query @ mutation) \<Longrightarrow> RF_Resolve f n args s = (Ok v, t) \<Longrightarrow> shown dflt ord (RF_Type f) v"
| non_null: "shown dflt ord (GNonNull t) v \<Longrightarrow> shown dflt ord t v"
| element: "shown dflt ord (GList t) (GoSlice vs) \<Longrightarrow> v \<in> set vs \<Longrightarrow> shown dflt ord t v"
| field: "shown dflt ord (GObject T) src \<Longrightarrow> src \<noteq> GoNil \<Longrightarrow> map_of (object_types ord) T = Some fs \<Longrightarrow>
    f \<in> set fs \<Longrightarrow> resolved dflt f src = Some v \<Longrightarrow> shown dflt ord (GF_Type f) v"

text \<open>The values of a type: those of its Go type, or nil unless it is declared non-null.\<close>

fun instance_of :: "string \<Rightarrow> go_value \<Rightarrow> bool" where
  "instance_of T (GoApprover a) = (T = ''Approver'')"
| "instance_of T (GoApprovalDef a) = (T = ''Approval'')"
| "instance_of T (GoStep s) = (T = ''Step'')"
| "instance_of T (GoWorkflow w) = (T = ''Workflow'')"
| "instance_of T (GoTicket t) = (T = ''Ticket'')"
| "instance_of T (GoApprovalState a) = (T = ''ApprovalState'')"
| "instance_of T (GoStepState s) = (T = ''StepState'')"
| "instance_of T (GoRun r) = (T = ''WorkflowRun'')"
| "instance_of T (GoEvent e) = (T = ''Event'')"
| "instance_of T _ = False"

fun conforms :: "gql_type \<Rightarrow> go_value \<Rightarrow> bool" where
  "conforms GString v = (case v of GoNil \<Rightarrow> True | GoString s \<Rightarrow> True | GoTime t \<Rightarrow> True | _ \<Rightarrow> False)"
| "conforms GInt v = (case v of GoNil \<Rightarrow> True | GoInt i \<Rightarrow> True | _ \<Rightarrow> False)"
| "conforms GBoolean v = (case v of GoNil \<Rightarrow> True | GoBool b \<Rightarrow> True | _ \<Rightarrow> False)"
| "conforms GJSON v = (case v of GoNil \<Rightarrow> True | GoMap m \<Rightarrow> True | GoPayload p \<Rightarrow> True | GoRetry r \<Rightarrow> True
     | GoDelay d \<Rightarrow> True | _ \<Rightarrow> False)"
| "conforms (GObject T) v = (v = GoNil \<or> instance_of T v)"
| "conforms (GInput T) v = False"
| "conforms (GNonNull t) v = (v \<noteq> GoNil \<and> conforms t v)"
| "conforms (GList t) v = (case v of GoNil \<Rightarrow> True | GoSlice vs \<Rightarrow> (\<forall>x \<in> set vs. conforms t x) | _ \<Rightarrow> False)"

section \<open>Every field has a value of its type\<close>

lemmas type_defs = approverType_def approvalDefType_def stepType_def workflowType_def ticketType_def
  approvalStateType_def stepStateType_def runType_def eventType_def

text \<open>A field without a resolver names a field of the struct, whose value is of the type.\<close>

definition plain_ok :: "go_value \<Rightarrow> gql_field \<Rightarrow> bool" where
  "plain_ok src f \<longleftrightarrow> (\<exists>(n, v) \<in> set (struct_fields src). EqualFold n (GF_Name f) \<and> conforms (GF_Type f) v)"

lemma plain_resolved:
  "takes_property dflt \<Longrightarrow> plain_ok src f \<Longrightarrow> GF_Resolve f = None \<Longrightarrow>
    \<exists>v. resolved dflt f src = Some v \<and> conforms (GF_Type f) v"
  by (fastforce simp: takes_property_def plain_ok_def resolved_def)

lemma EqualFold_names:
  "EqualFold ''Role'' ''role''" "EqualFold ''User'' ''user''" "EqualFold ''Name'' ''name''"
  "EqualFold ''Kind'' ''kind''" "EqualFold ''Task'' ''task''" "EqualFold ''Next'' ''next''"
  "EqualFold ''OnError'' ''onError''" "EqualFold ''AssignTo'' ''assignTo''" "EqualFold ''Approval'' ''approval''"
  "EqualFold ''Delay'' ''delay''" "EqualFold ''Retry'' ''retry''" "EqualFold ''Version'' ''version''"
  "EqualFold ''Description'' ''description''" "EqualFold ''Initial'' ''initial''" "EqualFold ''ID'' ''id''"
  "EqualFold ''Workflow'' ''workflow''" "EqualFold ''Title'' ''title''" "EqualFold ''Fields'' ''fields''"
  "EqualFold ''Assignee'' ''assignee''" "EqualFold ''Queue'' ''queue''" "EqualFold ''Priority'' ''priority''"
  "EqualFold ''CreatedAt'' ''createdAt''" "EqualFold ''UpdatedAt'' ''updatedAt''" "EqualFold ''Index'' ''index''"
  "EqualFold ''Status'' ''status''" "EqualFold ''DecidedBy'' ''decidedBy''" "EqualFold ''Attempt'' ''attempt''"
  "EqualFold ''Output'' ''output''" "EqualFold ''Error'' ''error''" "EqualFold ''DueAt'' ''dueAt''"
  "EqualFold ''TicketID'' ''ticketId''" "EqualFold ''Failed'' ''failed''" "EqualFold ''Seq'' ''seq''"
  "EqualFold ''Type'' ''type''" "EqualFold ''At'' ''at''" "EqualFold ''Payload'' ''payload''"
  "EqualFold ''ScheduleAt'' ''scheduleAt''"
  by code_simp+

definition field_ok :: "go_value \<Rightarrow> gql_field \<Rightarrow> bool" where
  "field_ok src f \<longleftrightarrow> (case GF_Resolve f of
     None \<Rightarrow> plain_ok src f
   | Some r \<Rightarrow> (case r src of None \<Rightarrow> False | Some v \<Rightarrow> conforms (GF_Type f) v))"

lemma fields_ok:
  "list_all (field_ok (GoApprover a)) approverType"
  "list_all (field_ok (GoApprovalDef d)) approvalDefType"
  "list_all (field_ok (GoStep s)) stepType"
  "list_all (field_ok (GoWorkflow w)) workflowType"
  "list_all (field_ok (GoTicket t)) ticketType"
  "list_all (field_ok (GoApprovalState st)) approvalStateType"
  "list_all (field_ok (GoStepState ss)) stepStateType"
  "list_all (field_ok (GoRun r)) (runType ord)"
  "list_all (field_ok (GoEvent e)) eventType"
  by (simp_all add: type_defs field_ok_def plain_ok_def EqualFold_names go_pointer_def split: option.split)

lemma object_fields:
  assumes "instance_of T src" "map_of (object_types ord) T = Some fs"
  shows "list_all (field_ok src) fs"
  using assms fields_ok by (cases src) (auto simp: object_types_def)

lemma field_resolved:
  assumes "takes_property dflt" "instance_of T src" "map_of (object_types ord) T = Some fs" "f \<in> set fs"
  shows "\<exists>v. resolved dflt f src = Some v \<and> conforms (GF_Type f) v"
proof -
  have ok: "field_ok src f" using object_fields [OF assms(2,3)] assms(4) by (simp add: list_all_iff)
  show ?thesis
  proof (cases "GF_Resolve f")
    case None
    with ok plain_resolved [OF assms(1)] show ?thesis by (simp add: field_ok_def)
  next
    case (Some r)
    with ok show ?thesis by (auto simp: field_ok_def resolved_def split: option.splits)
  qed
qed

lemma returning_OkD: "returning g m s = (Ok v, t) \<Longrightarrow> \<exists>x. v = g x"
  by (auto simp: returning_def bnd_def split: prod.splits res.splits)

lemma root_conforms:
  assumes "f \<in> set (query @ mutation)" "RF_Resolve f n args s = (Ok v, t)"
  shows "conforms (RF_Type f) v"
  using assms by (auto simp: query_def mutation_def dest!: returning_OkD)

text \<open>Every object type named by a field is declared.\<close>

fun named_object :: "gql_type \<Rightarrow> string option" where
  "named_object (GObject T) = Some T"
| "named_object (GNonNull t) = named_object t"
| "named_object (GList t) = named_object t"
| "named_object _ = None"

definition declared :: "gql_type \<Rightarrow> bool" where
  "declared t \<longleftrightarrow> (case named_object t of None \<Rightarrow> True
     | Some T \<Rightarrow> T \<in> {''Approver'', ''Approval'', ''Step'', ''Workflow'', ''Ticket'', ''ApprovalState'', ''StepState'',
         ''WorkflowRun'', ''Event''})"

lemma declared_roots: "f \<in> set (query @ mutation) \<Longrightarrow> declared (RF_Type f)"
  by (auto simp: query_def mutation_def declared_def)

lemma declared_fields: "map_of (object_types ord) T = Some fs \<Longrightarrow> f \<in> set fs \<Longrightarrow> declared (GF_Type f)"
  by (auto simp: object_types_def type_defs declared_def split: if_splits)

lemma declared_object: "declared (GObject T) \<Longrightarrow> map_of (object_types ord) T \<noteq> None"
  by (auto simp: declared_def object_types_def)

lemma shown_conforms:
  assumes "takes_property dflt" "shown dflt ord t v"
  shows "conforms t v \<and> declared t"
  using assms(2)
proof (induction rule: shown.induct)
  case (root f n args s v t)
  then show ?case using root_conforms declared_roots by blast
next
  case (field T src fs f v)
  then have "instance_of T src" by simp
  from field_resolved [OF assms(1) this field.hyps(3,4)] field.hyps(5) show ?case
    using declared_fields [OF field.hyps(3,4)] by simp
qed (auto simp: declared_def)

section \<open>The property\<close>

text \<open>
  (C28) No answer breaks the schema: whatever value a request can come to, starting at a query or a
  mutation and following list elements and fields, is of the type declared for its place, non-null
  where that is declared; its object type exists; and resolving any field of it succeeds, no resolver
  asserting a Go type that the value does not have.
\<close>

theorem answers_well_typed:
  assumes "takes_property dflt" "shown dflt ord t v"
  shows "conforms t v \<and>
    (\<forall>T. t = GObject T \<longrightarrow> (\<exists>fs. map_of (object_types ord) T = Some fs \<and>
       (v \<noteq> GoNil \<longrightarrow> (\<forall>f \<in> set fs. \<exists>x. resolved dflt f v = Some x \<and> conforms (GF_Type f) x))))"
proof -
  note c = shown_conforms [OF assms]
  show ?thesis
  proof (intro conjI allI impI)
    fix T assume t: "t = GObject T"
    then obtain fs where fs: "map_of (object_types ord) T = Some fs" using c declared_object by blast
    have "\<exists>x. resolved dflt f v = Some x \<and> conforms (GF_Type f) x" if "v \<noteq> GoNil" "f \<in> set fs" for f
      using c t that field_resolved [OF assms(1) _ fs] by simp
    with fs show "\<exists>fs. map_of (object_types ord) T = Some fs \<and>
       (v \<noteq> GoNil \<longrightarrow> (\<forall>f \<in> set fs. \<exists>x. resolved dflt f v = Some x \<and> conforms (GF_Type f) x))" by blast
  qed (use c in blast)
qed

text \<open>A default resolver that does what is asked of it: it looks through the fields in order.\<close>

definition first_property :: "go_value \<Rightarrow> string \<Rightarrow> go_value" where
  "first_property src f =
     (case find (\<lambda>(n, v). EqualFold n f) (struct_fields src) of None \<Rightarrow> GoNil | Some (n, v) \<Rightarrow> v)"

lemma find_folded:
  "distinct (map (ToLower \<circ> fst) xs) \<Longrightarrow> (n, v) \<in> set xs \<Longrightarrow> EqualFold n f \<Longrightarrow>
    \<exists>n'. find (\<lambda>(n, v). EqualFold n f) xs = Some (n', v)"
proof (induction xs)
  case (Cons x xs)
  show ?case
  proof (cases "(n, v) = x")
    case True
    with Cons.prems(3) show ?thesis by auto
  next
    case False
    with Cons.prems have m: "(n, v) \<in> set xs" by auto
    then have "ToLower n \<noteq> ToLower (fst x)" using Cons.prems(1) by (auto intro: rev_image_eqI)
    with Cons.prems(3) have "\<not> EqualFold (fst x) f" by (simp add: EqualFold_def)
    with Cons.IH [OF _ m Cons.prems(3)] Cons.prems(1) show ?thesis by (auto split: prod.splits)
  qed
qed simp

lemma names_folded:
  "distinct (map ToLower [''Role'', ''User''])"
  "distinct (map ToLower [''Name'', ''Kind'', ''Task'', ''Approval'', ''Delay'', ''Next'', ''OnError'', ''AssignTo'', ''Retry''])"
  "distinct (map ToLower [''Name'', ''Version'', ''Description'', ''Initial'', ''Steps''])"
  "distinct (map ToLower [''ID'', ''Workflow'', ''WorkflowVer'', ''Title'', ''Fields'', ''Assignee'', ''Queue'', ''Priority'',
     ''CreatedAt'', ''UpdatedAt''])"
  "distinct (map ToLower [''Chain'', ''Index'', ''Status'', ''DecidedBy''])"
  "distinct (map ToLower [''Name'', ''Kind'', ''Status'', ''Attempt'', ''Output'', ''Error'', ''DueAt'', ''Approval''])"
  "distinct (map ToLower [''ID'', ''TicketID'', ''Workflow'', ''WorkflowVer'', ''Status'', ''Current'', ''Output'', ''Failed'',
     ''CreatedAt'', ''UpdatedAt''])"
  "distinct (map ToLower [''ID'', ''RunID'', ''TicketID'', ''Type'', ''Seq'', ''At'', ''Payload'', ''ScheduleAt''])"
  by code_simp+

lemma takes_first_property: "takes_property first_property"
  unfolding takes_property_def
proof (intro allI ballI)
  fix src f and nv assume m: "nv \<in> set (struct_fields src)"
  have "distinct (map ToLower (map fst (struct_fields src)))"
    by (cases src) (simp_all only: struct_fields.simps list.map fst_conv names_folded [unfolded list.map], simp_all)
  then have d: "distinct (map (ToLower \<circ> fst) (struct_fields src))" by simp
  obtain n v where nv: "nv = (n, v)" by fastforce
  show "case nv of (n, v) \<Rightarrow> EqualFold n f \<longrightarrow> first_property src f = v"
    using find_folded [OF d, of n v f] m by (auto simp: nv first_property_def)
qed

theorem answers_well_typed_witness:
  "\<exists>x. resolved first_property (runType rev ! 6) (GoRun (demo_run approval_demo approval_flow)) = Some x \<and>
     conforms (many ''StepState'') x"
proof -
  let ?run = "demo_run approval_demo approval_flow"
  obtain t where t: "GetRun ''run_0'' approval_demo = (Ok ?run, t)"
    using live_GetRun [OF live_approval_demo] by blast
  define f where "f = query ! 5"
  have "RF_Resolve f 3 [''id'' \<mapsto> VString ''run_0''] approval_demo = (Ok (GoRun ?run), t)"
    by (simp add: f_def query_def returning_def resolve_run_def string_arg_def bnd_run t)
  moreover have "f \<in> set (query @ mutation)" by (simp add: f_def query_def)
  ultimately have "shown first_property rev (RF_Type f) (GoRun ?run)" by (rule shown.root [rotated])
  then have "shown first_property rev (GObject ''WorkflowRun'') (GoRun ?run)" by (simp add: f_def query_def)
  from answers_well_typed [OF takes_first_property this]
  have "\<forall>f \<in> set (runType rev). \<exists>x. resolved first_property f (GoRun ?run) = Some x \<and> conforms (GF_Type f) x"
    by (simp add: object_types_def)
  moreover have "runType rev ! 6 \<in> set (runType rev)" "GF_Type (runType rev ! 6) = many ''StepState''"
    by (simp_all add: runType_def)
  ultimately show ?thesis by metis
qed

text \<open>No resolver of a query or mutation reads an argument that its field does not declare.\<close>

lemma arguments_declared:
  assumes "f \<in> set (query @ mutation)"
  shows "RF_Resolve f n (args |` set (map fst (RF_Args f))) s = RF_Resolve f n args s"
  using assms
  by (auto simp: query_def mutation_def resolve_ticket_def resolve_workflow_def resolve_run_def resolve_events_def
      resolve_createTicket_def resolve_approve_def resolve_reject_def resolve_cancel_def string_arg_def object_arg_def)

end
