(* ===== verification/Spec2Isabelle.thy ===== *)
theory Spec2Isabelle
  imports Engine_Safety Engine_Fuel Engine_Orphans Engine_Cycles Examples Postgres Service Graphql_Schema
begin

text \<open>
  TPT Conduit is a workflow engine for tickets: a ticket is created on a workflow, a run of the
  workflow goes through task, approval and delay steps, and everything that happens is an event of
  an append-only log from which the state of a run is derived again whenever it is needed.

  \<^bold>\<open>The model\<close>, in the order of the code:

  \<^item> \<^theory_text>\<open>Prelude\<close>: a Go call is a function from a state to a result and a state; the result is
    \<open>Ok\<close>, \<open>Err\<close> (a returned error) or \<open>Crash\<close> (a panic, or a goroutine that never returns). Effects
    happen in the order of the source and those before an error remain. \<open>keeps R m\<close> says that a call
    relates the states before and after by \<open>R\<close>; the locale \<open>frame\<close> is the calculus of such relations.
  \<^item> \<^theory_text>\<open>Go_Lib\<close>, \<^theory_text>\<open>Go_Value\<close>, \<^theory_text>\<open>Json\<close>: the functions of Go's library that are called
    (decimals, splitting, case folding on ASCII, floats in decimal), the values of type any and
    \<open>toString\<close> (engine/util.go), and what encoding/json does to a value.
  \<^item> \<^theory_text>\<open>Model\<close>: engine/model.go. \<^theory_text>\<open>Routing\<close>: engine/routing.go. \<^theory_text>\<open>EventLog\<close>:
    engine/eventlog.go. \<^theory_text>\<open>Store\<close>: engine/store.go. \<^theory_text>\<open>WorkerPool\<close>: engine/worker.go.
    \<^theory_text>\<open>Postgres\<close>: engine/eventlog_pg.go, each SQL statement on tables as lists of rows.
  \<^item> \<^theory_text>\<open>Replay\<close>: deriving a run from its events (applyAll, applyOne, ensureStep).
  \<^item> \<^theory_text>\<open>Engine_State\<close>, \<^theory_text>\<open>Engine\<close>, \<^theory_text>\<open>Engine_Ops\<close>: the struct Engine and every function of
    engine/engine.go and engine/sla.go.
  \<^item> \<^theory_text>\<open>Engine_Steps\<close>: the engine as a transition system whose steps are calls of entry points,
    turns of a worker, timer sweeps, crashes with a restart, and deployments.
  \<^item> \<^theory_text>\<open>Duration\<close>, \<^theory_text>\<open>Dsl\<close>: time.ParseDuration and the workflow compiler of
    engine/dsl/dsl.go. \<^theory_text>\<open>Versions\<close>, \<^theory_text>\<open>Loader\<close>: the registry of engine/dsl/loader.go, its
    lookups and its filling from a tree of files.
  \<^item> \<^theory_text>\<open>Auth\<close>: api/auth.go. \<^theory_text>\<open>Grpc\<close>: api/grpc/server.go. \<^theory_text>\<open>Graphql\<close>: the resolvers of
    api/graphql/schema.go; \<^theory_text>\<open>Graphql_Schema\<close>: the types it declares. \<^theory_text>\<open>Server\<close>: api/server.go and the start of
    cmd/conduit-server/main.go, which puts compiler, registry, engine and authentication together.
    \<^theory_text>\<open>Examples\<close>: engine/examples, the template functions and the four files they embed.

  \<^bold>\<open>The outside\<close>. The clock, the outcome of each call through the interfaces EventLog and Store, the
  order of map iterations, the choice of a select and random bytes are functions of a \<open>World\<close>, asked
  with a counter, so that nothing is known of them but what a theorem assumes. A task handler is an
  argument too, and so are yaml.Unmarshal, the file tree and the GraphQL library. A step runs one call
  to its end: interleavings within a call are not modelled, those of calls, workers, sweeps and crashes
  are.

  \<^bold>\<open>Depth\<close>. advance, dispatch, fireTimer, CheckSLA and jumpTo call each other; the model bounds the
  depth by a number and crashes with \<open>OutOfFuel\<close> below it. The safety theorems hold for every bound
  and the effect theorems say which calls need none. \<^theory_text>\<open>Engine_Termination\<close> shows that a depth of
  one more than the number of steps and SLAs of a definition is enough for every call, as long as no
  delay elapses while the call runs; \<^theory_text>\<open>Engine_Cycles\<close> that a cycle of delays of zero length, of any
  number of steps, exhausts every bound.
  \<^theory_text>\<open>Engine_Fuel\<close> shows that the bound is no part of the behaviour: a call that ends within one
  bound has the same result and state under every larger one.

  \<^bold>\<open>What is shown\<close>. \<^theory_text>\<open>Engine_Log\<close>, \<^theory_text>\<open>Engine_Dispatch\<close> and \<^theory_text>\<open>Engine_Frame\<close> bound
  what each operation may append, to which runs. \<^theory_text>\<open>Engine_Recovery\<close> and \<^theory_text>\<open>Engine_Sound\<close>
  tie the log, the store and the cache together: every run is derivable, before and after a restart.
  \<^theory_text>\<open>Engine_Safety\<close>: a failed run never completes. \<^theory_text>\<open>Engine_Decisions\<close>: no decision
  without authority. \<^theory_text>\<open>Engine_Effects\<close> and \<^theory_text>\<open>Engine_Tasks\<close>: the exact events of each
  operation; \<^theory_text>\<open>Engine_Timers\<close> those of delays and SLAs. \<^theory_text>\<open>Engine_Progress\<close>: from the creation of
  its ticket a run of tasks completes among others, one worker turn for each step, with a known
  history, as long as no SLA runs out; \<^theory_text>\<open>Engine_Crash\<close>: so it does when the process dies between turns
  and another recovers; \<^theory_text>\<open>Engine_Orphans\<close>: a task that was started when its process died is not taken up
  again; \<^theory_text>\<open>Service\<close>: so it does on the engine of a server started from files, the
  helpdesk template among them. \<^theory_text>\<open>Postgres\<close>: the database reads back what the in-memory log and store
  would hold. \<^theory_text>\<open>Dsl\<close>: exactly the workflows the engine can run
  are accepted. \<^theory_text>\<open>Server\<close>: a started server serves every workflow file. \<^theory_text>\<open>Examples\<close>: the
  templates compile to definitions that the engine can run and that end. \<^theory_text>\<open>Grpc\<close>,
  \<^theory_text>\<open>Graphql\<close>: what the APIs answer is the derived state. \<^theory_text>\<open>Graphql_Schema\<close>: no answer breaks a
  declared type and no field's resolver meets a value of another Go type. \<^theory_text>\<open>Demo\<close> holds the engines
  on which witnesses are evaluated.

  \<^bold>\<open>Not modelled\<close>. Mutexes and goroutine scheduling inside a call; the context argument (it only
  cancels calls, which the outcome of the call covers); the wait for the workers in Stop; sockets,
  logging and what opening a database does; the GraphQL library; what yaml.Unmarshal does, which for the
  example files is a hypothesis; generated protocol code. JSON texts inside messages and bodies stand
  as the values they denote; a time whose year is beyond 9999, which encoding/json refuses, and the NUL
  characters and invalid UTF-8 that PostgreSQL refuses are not modelled.
\<close>

end
